(* ===== verification/Rust_Prelude.thy ===== *)
theory Rust_Prelude
  imports Main "HOL-Library.Word" "HOL-Library.Sublist"
begin

text \<open>
  The vocabulary every other theory shares. Rust's \<^verbatim>\<open>&str\<close> and
  \<^verbatim>\<open>&[u8]\<close> are both byte sequences, here \<^typ>\<open>string\<close> (a HOL
  character is one byte); \<^verbatim>\<open>u64\<close> is a 64-bit word; \<^verbatim>\<open>i64\<close> is an
  integer whose range is checked where the code checks it. The theory holds the parts of
  the standard library the crate uses on them: UTF-8 validity and \<^verbatim>\<open>chars\<close>,
  \<^verbatim>\<open>trim\<close>, \<^verbatim>\<open>split\<close>, \<^verbatim>\<open>strip_prefix\<close>, hexadecimal and decimal
  rendering and parsing, big-endian bytes, saturating arithmetic and
  \<^verbatim>\<open>Duration\<close>; and the generic lemmas about them, collected in
  \<open>rust_str\<close> (strings), \<open>rust_num\<close> (numerals) and \<open>rust_dur\<close> (durations).
\<close>

named_theorems rust_str \<open>strings: prefixes, splitting, escaping\<close>
named_theorems rust_num \<open>numerals: rendering, parsing, widths\<close>
named_theorems rust_dur \<open>durations\<close>

type_synonym u64 = "64 word"
type_synonym u32 = "32 word"
type_synonym i64 = int
type_synonym bytes = string


section \<open>Bytes and characters\<close>

definition byte :: "char \<Rightarrow> nat" where
  "byte c = of_char c"

definition is_ascii_digit :: "char \<Rightarrow> bool" where
  "is_ascii_digit c \<longleftrightarrow> 48 \<le> byte c \<and> byte c \<le> 57"

definition is_ascii_alphanumeric :: "char \<Rightarrow> bool" where
  "is_ascii_alphanumeric c \<longleftrightarrow>
     48 \<le> byte c \<and> byte c \<le> 57 \<or> 65 \<le> byte c \<and> byte c \<le> 90 \<or> 97 \<le> byte c \<and> byte c \<le> 122"

definition to_ascii_lower :: "char \<Rightarrow> char" where
  "to_ascii_lower c = (if 65 \<le> byte c \<and> byte c \<le> 90 then char_of (byte c + 32) else c)"

text \<open>A continuation byte of a multi-byte UTF-8 sequence.\<close>

definition is_cont :: "char \<Rightarrow> bool" where
  "is_cont c \<longleftrightarrow> 128 \<le> byte c \<and> byte c \<le> 191"

text \<open>
  The length of the well-formed UTF-8 sequence a byte string starts with, 0 when there is
  none (the table of well-formed sequences \<^verbatim>\<open>core::str::from_utf8\<close> checks).
\<close>

definition second_between :: "string \<Rightarrow> nat \<Rightarrow> nat \<Rightarrow> bool" where
  "second_between r lo hi \<longleftrightarrow> (case r of [] \<Rightarrow> False | c # _ \<Rightarrow> lo \<le> byte c \<and> byte c \<le> hi)"

definition cont_at :: "string \<Rightarrow> nat \<Rightarrow> bool" where
  "cont_at r i \<longleftrightarrow> i < length r \<and> is_cont (r ! i)"

fun utf8_len :: "string \<Rightarrow> nat" where
  "utf8_len [] = 0"
| "utf8_len (c # r) =
     (let b = byte c in
      if b < 128 then 1
      else if 194 \<le> b \<and> b \<le> 223 then (if second_between r 128 191 then 2 else 0)
      else if 224 \<le> b \<and> b \<le> 239 then
        (if second_between r (if b = 224 then 160 else 128) (if b = 237 then 159 else 191)
            \<and> cont_at r 1 then 3 else 0)
      else if 240 \<le> b \<and> b \<le> 244 then
        (if second_between r (if b = 240 then 144 else 128) (if b = 244 then 143 else 191)
            \<and> cont_at r 1 \<and> cont_at r 2 then 4 else 0)
      else 0)"

function utf8_valid :: "string \<Rightarrow> bool" where
  "utf8_valid s =
     (if s = [] then True else if utf8_len s = 0 then False else utf8_valid (drop (utf8_len s) s))"
  by pat_completeness auto
termination
  by (relation "measure length") auto

text \<open>The characters of a string, each as its UTF-8 bytes (\<^verbatim>\<open>str::chars\<close>).\<close>

function utf8_chars :: "string \<Rightarrow> string list" where
  "utf8_chars s =
     (if s = [] then []
      else take (max 1 (utf8_len s)) s # utf8_chars (drop (max 1 (utf8_len s)) s))"
  by pat_completeness auto
termination
  by (relation "measure length") auto

declare utf8_valid.simps [simp del] utf8_chars.simps [simp del]

text \<open>\<^verbatim>\<open>char::is_whitespace\<close> (the Unicode property White_Space) on one character.\<close>

definition is_whitespace :: "string \<Rightarrow> bool" where
  "is_whitespace ch \<longleftrightarrow>
     (case map byte ch of
        [b] \<Rightarrow> 9 \<le> b \<and> b \<le> 13 \<or> b = 32
      | [a, b] \<Rightarrow> a = 194 \<and> (b = 133 \<or> b = 160)
      | [a, b, c] \<Rightarrow>
          a = 225 \<and> b = 154 \<and> c = 128
          \<or> a = 226 \<and> b = 128 \<and> (128 \<le> c \<and> c \<le> 138 \<or> c = 168 \<or> c = 169 \<or> c = 175)
          \<or> a = 226 \<and> b = 129 \<and> c = 159
          \<or> a = 227 \<and> b = 128 \<and> c = 128
      | _ \<Rightarrow> False)"

text \<open>\<^verbatim>\<open>char::is_control\<close> (general category Cc).\<close>

definition is_control :: "string \<Rightarrow> bool" where
  "is_control ch \<longleftrightarrow>
     (case map byte ch of
        [b] \<Rightarrow> b < 32 \<or> b = 127
      | [a, b] \<Rightarrow> a = 194 \<and> 128 \<le> b \<and> b \<le> 159
      | _ \<Rightarrow> False)"

definition trim_start :: "string \<Rightarrow> string" where
  "trim_start s = concat (dropWhile is_whitespace (utf8_chars s))"

definition trim :: "string \<Rightarrow> string" where
  "trim s = concat (rev (dropWhile is_whitespace (rev (dropWhile is_whitespace (utf8_chars s)))))"


section \<open>Prefixes, splitting, searching\<close>

definition strip_prefix :: "string \<Rightarrow> string \<Rightarrow> string option" where
  "strip_prefix p s = (if prefix p s then Some (drop (length p) s) else None)"

fun split_on :: "char \<Rightarrow> string \<Rightarrow> string list" where
  "split_on d [] = [[]]"
| "split_on d (c # s) =
     (if c = d then [] # split_on d s
      else (case split_on d s of [] \<Rightarrow> [[c]] | t # ts \<Rightarrow> (c # t) # ts))"

fun contains_str :: "string \<Rightarrow> string \<Rightarrow> bool" where
  "contains_str [] p \<longleftrightarrow> p = []"
| "contains_str (c # s) p \<longleftrightarrow> prefix p (c # s) \<or> contains_str s p"

definition ends_with :: "string \<Rightarrow> string \<Rightarrow> bool" where
  "ends_with s p \<longleftrightarrow> suffix p s"


section \<open>Hexadecimal and decimal\<close>

definition hex_digit :: "nat \<Rightarrow> char" where
  "hex_digit n = (if n < 10 then char_of (48 + n) else char_of (55 + n))"

text \<open>\<^verbatim>\<open>format!("{b:02X}")\<close>\<close>

definition hex2 :: "char \<Rightarrow> string" where
  "hex2 c = [hex_digit (byte c div 16), hex_digit (byte c mod 16)]"

text \<open>\<^verbatim>\<open>char::to_digit(16)\<close>\<close>

definition to_digit16 :: "char \<Rightarrow> nat option" where
  "to_digit16 c =
     (let b = byte c in
      if 48 \<le> b \<and> b \<le> 57 then Some (b - 48)
      else if 65 \<le> b \<and> b \<le> 70 then Some (b - 55)
      else if 97 \<le> b \<and> b \<le> 102 then Some (b - 87)
      else None)"

fun radix_value :: "nat \<Rightarrow> (char \<Rightarrow> nat option) \<Rightarrow> nat \<Rightarrow> string \<Rightarrow> nat option" where
  "radix_value r dig acc [] = Some acc"
| "radix_value r dig acc (c # s) =
     (case dig c of None \<Rightarrow> None | Some d \<Rightarrow> radix_value r dig (acc * r + d) s)"

text \<open>
  \<^verbatim>\<open>from_str_radix\<close> of an unsigned type: one leading \<^verbatim>\<open>+\<close> is taken, a sign alone
  and the empty string are errors, and so is a value past the type's maximum.
\<close>

definition parse_unsigned :: "nat \<Rightarrow> (char \<Rightarrow> nat option) \<Rightarrow> nat \<Rightarrow> string \<Rightarrow> nat option" where
  "parse_unsigned r dig limit s =
     (let digits = (case s of [] \<Rightarrow> [] | c # t \<Rightarrow> if c = CHR ''+'' then t else s) in
      if digits = [] then None
      else (case radix_value r dig 0 digits of
              None \<Rightarrow> None
            | Some v \<Rightarrow> if v \<le> limit then Some v else None))"

definition dec_digit :: "char \<Rightarrow> nat option" where
  "dec_digit c = (if is_ascii_digit c then Some (byte c - 48) else None)"

definition u8_from_hex :: "string \<Rightarrow> char option" where
  "u8_from_hex s = map_option char_of (parse_unsigned 16 to_digit16 255 s)"

definition parse_u64 :: "string \<Rightarrow> u64 option" where
  "parse_u64 s = map_option of_nat (parse_unsigned 10 dec_digit (2 ^ 64 - 1) s)"

definition parse_u32 :: "string \<Rightarrow> u32 option" where
  "parse_u32 s = map_option of_nat (parse_unsigned 10 dec_digit (2 ^ 32 - 1) s)"

fun dec_of_nat :: "nat \<Rightarrow> string" where
  "dec_of_nat n =
     (if n < 10 then [char_of (48 + n)] else dec_of_nat (n div 10) @ [char_of (48 + n mod 10)])"

declare dec_of_nat.simps [simp del]

definition u64_to_string :: "u64 \<Rightarrow> string" where
  "u64_to_string w = dec_of_nat (unat w)"

definition i64_to_string :: "i64 \<Rightarrow> string" where
  "i64_to_string i =
     (if i < 0 then CHR ''-'' # dec_of_nat (nat (- i)) else dec_of_nat (nat i))"

text \<open>\<^verbatim>\<open>u64::to_be_bytes\<close> and \<^verbatim>\<open>u64::from_be_bytes\<close>.\<close>

fun be_bytes :: "nat \<Rightarrow> nat \<Rightarrow> bytes" where
  "be_bytes 0 n = []"
| "be_bytes (Suc k) n = be_bytes k (n div 256) @ [char_of (n mod 256)]"

definition u64_to_be_bytes :: "u64 \<Rightarrow> bytes" where
  "u64_to_be_bytes w = be_bytes 8 (unat w)"

definition be_value :: "bytes \<Rightarrow> nat" where
  "be_value bs = foldl (\<lambda>acc c. acc * 256 + byte c) 0 bs"

definition u64_from_be_bytes :: "bytes \<Rightarrow> u64" where
  "u64_from_be_bytes bs = of_nat (be_value bs)"


section \<open>Checked and saturating arithmetic\<close>

definition u64_max :: u64 where
  "u64_max = of_nat (2 ^ 64 - 1)"

definition sat_add_u64 :: "u64 \<Rightarrow> u64 \<Rightarrow> u64" where
  "sat_add_u64 a b = (if unat a + unat b < 2 ^ 64 then a + b else u64_max)"

definition sat_sub_u64 :: "u64 \<Rightarrow> u64 \<Rightarrow> u64" where
  "sat_sub_u64 a b = (if b \<le> a then a - b else 0)"

definition sat_mul_u64 :: "u64 \<Rightarrow> u64 \<Rightarrow> u64" where
  "sat_mul_u64 a b = (if unat a * unat b < 2 ^ 64 then a * b else u64_max)"

text \<open>\<^verbatim>\<open>u64::try_from(n).unwrap_or(u64::MAX)\<close> for a wider unsigned \<^verbatim>\<open>n\<close>.\<close>

definition u64_try_from_or_max :: "nat \<Rightarrow> u64" where
  "u64_try_from_or_max n = (if n < 2 ^ 64 then of_nat n else u64_max)"

definition i64_in_range :: "int \<Rightarrow> bool" where
  "i64_in_range i \<longleftrightarrow> - (2 ^ 63) \<le> i \<and> i < 2 ^ 63"

definition i64_checked_add :: "i64 \<Rightarrow> i64 \<Rightarrow> i64 option" where
  "i64_checked_add a b = (if i64_in_range (a + b) then Some (a + b) else None)"


section \<open>Durations\<close>

text \<open>\<^verbatim>\<open>std::time::Duration\<close>: whole seconds, and the nanoseconds below one second.\<close>

record duration =
  dur_secs :: u64
  dur_nanos :: nat

definition duration_ok :: "duration \<Rightarrow> bool" where
  "duration_ok d \<longleftrightarrow> dur_nanos d < 1000000000"

definition duration_from_secs :: "u64 \<Rightarrow> duration" where
  "duration_from_secs s = \<lparr>dur_secs = s, dur_nanos = 0\<rparr>"

definition duration_from_millis :: "u64 \<Rightarrow> duration" where
  "duration_from_millis ms =
     \<lparr>dur_secs = of_nat (unat ms div 1000), dur_nanos = (unat ms mod 1000) * 1000000\<rparr>"

text \<open>\<^verbatim>\<open>as_millis\<close> is a \<^verbatim>\<open>u128\<close>, wide enough for every duration.\<close>

definition as_millis :: "duration \<Rightarrow> nat" where
  "as_millis d = unat (dur_secs d) * 1000 + dur_nanos d div 1000000"

definition as_nanos :: "duration \<Rightarrow> nat" where
  "as_nanos d = unat (dur_secs d) * 1000000000 + dur_nanos d"


section \<open>Lemmas on bytes and hexadecimal\<close>

lemma byte_less [simp]: "byte c < 256"
  unfolding byte_def by simp

lemma byte_Char [simp]:
  "byte (Char b0 b1 b2 b3 b4 b5 b6 b7) = of_char (Char b0 b1 b2 b3 b4 b5 b6 b7)"
  unfolding byte_def ..

lemma is_ascii_alphanumeric_Char [simp]:
  "is_ascii_alphanumeric (Char b0 b1 b2 b3 b4 b5 b6 b7) =
     (let n = byte (Char b0 b1 b2 b3 b4 b5 b6 b7) in
      48 \<le> n \<and> n \<le> 57 \<or> 65 \<le> n \<and> n \<le> 90 \<or> 97 \<le> n \<and> n \<le> 122)"
  unfolding is_ascii_alphanumeric_def Let_def ..

lemma byte_le [simp]: "byte c \<le> 255"
  using byte_less [of c] by linarith

lemma byte_char_of [simp]: "byte (char_of n) = n mod 256"
  unfolding byte_def by simp

lemma char_of_byte [simp]: "char_of (byte c) = c"
  unfolding byte_def by simp

lemma byte_eq_iff: "byte c = byte d \<longleftrightarrow> c = d"
  unfolding byte_def by simp

lemma char_eq_byteI: "byte c = byte d \<Longrightarrow> c = d"
  by (simp add: byte_eq_iff)

lemma byte_hex_digit: "n < 16 \<Longrightarrow> byte (hex_digit n) = (if n < 10 then 48 + n else 55 + n)"
  by (auto simp: hex_digit_def)

lemma to_digit16_hex_digit [simp]: "n < 16 \<Longrightarrow> to_digit16 (hex_digit n) = Some n"
  by (auto simp: to_digit16_def byte_hex_digit Let_def)

lemma is_alnum_hex_digit [simp]: "n < 16 \<Longrightarrow> is_ascii_alphanumeric (hex_digit n)"
  by (auto simp: is_ascii_alphanumeric_def byte_hex_digit)

lemma byte_div_16 [simp]: "byte c div 16 < 16"
  using byte_less [of c] by linarith

lemma hex2_digits: "hex2 c = [a, b] \<longleftrightarrow>
    a = hex_digit (byte c div 16) \<and> b = hex_digit (byte c mod 16)"
  by (auto simp: hex2_def)

lemma length_hex2 [simp]: "length (hex2 c) = 2"
  by (simp add: hex2_def)

lemma byte_recombine [simp]: "byte c div 16 * 16 + byte c mod 16 = byte c"
  by simp

lemma hex_digit_neq [simp]:
  assumes "n < 16"
  shows "hex_digit n \<noteq> CHR ''+''" "hex_digit n \<noteq> CHR ''=''" "hex_digit n \<noteq> CHR ''.''"
    "hex_digit n \<noteq> CHR ''I''" "hex_digit n \<noteq> CHR ''M''" "hex_digit n \<noteq> CHR ''Z''"
proof -
  have "hex_digit n \<noteq> d" if "byte d \<in> {43, 46, 61, 73, 77, 90}" for d
    using assms that by (auto simp: byte_hex_digit simp flip: byte_eq_iff split: if_splits)
  then show "hex_digit n \<noteq> CHR ''+''" "hex_digit n \<noteq> CHR ''=''" "hex_digit n \<noteq> CHR ''.''"
    "hex_digit n \<noteq> CHR ''I''" "hex_digit n \<noteq> CHR ''M''" "hex_digit n \<noteq> CHR ''Z''"
    by simp_all
qed

lemma u8_from_hex_hex2 [simp]: "u8_from_hex (hex2 c) = Some c"
  using byte_less [of c]
  by (simp add: u8_from_hex_def parse_unsigned_def hex2_def)

lemma hex2_inj: "hex2 a @ s = hex2 b @ t \<longleftrightarrow> a = b \<and> s = t"
proof
  assume eq: "hex2 a @ s = hex2 b @ t"
  then have "hex2 a = hex2 b" "s = t"
    by (simp_all add: hex2_def)
  then have "u8_from_hex (hex2 a) = u8_from_hex (hex2 b)"
    by simp
  with \<open>s = t\<close> show "a = b \<and> s = t" by simp
qed simp

text \<open>
  The escape both key codes use: bytes that pass stay, every other byte becomes
  \<^verbatim>\<open>=HH\<close>. When \<^verbatim>\<open>=\<close> itself does not pass, the first byte can be read back.
\<close>

definition escape :: "(char \<Rightarrow> bool) \<Rightarrow> char \<Rightarrow> string" where
  "escape pass b = (if pass b then [b] else CHR ''='' # hex2 b)"

lemma escape_nonempty [simp]: "escape pass b \<noteq> []"
  by (simp add: escape_def)

lemma escape_determines:
  assumes "\<not> pass (CHR ''='')" and "escape pass a @ s = escape pass b @ t"
  shows "a = b"
proof -
  consider "pass a" "pass b" | "pass a" "\<not> pass b" | "\<not> pass a" "pass b" | "\<not> pass a" "\<not> pass b"
    by blast
  then show ?thesis
    using assms by cases (auto simp: escape_def hex2_inj)
qed

lemma char_of_literals [simp]:
  "char_of (48::nat) = CHR ''0''" "char_of (49::nat) = CHR ''1''" "char_of (50::nat) = CHR ''2''"
  "char_of (51::nat) = CHR ''3''" "char_of (52::nat) = CHR ''4''" "char_of (53::nat) = CHR ''5''"
  "char_of (54::nat) = CHR ''6''" "char_of (55::nat) = CHR ''7''" "char_of (56::nat) = CHR ''8''"
  "char_of (57::nat) = CHR ''9''" "char_of (65::nat) = CHR ''A''" "char_of (66::nat) = CHR ''B''"
  "char_of (67::nat) = CHR ''C''" "char_of (68::nat) = CHR ''D''" "char_of (69::nat) = CHR ''E''"
  "char_of (70::nat) = CHR ''F''"
  by (simp_all add: char_of_def bit_iff_odd)


section \<open>Lemmas on splitting and prefixes\<close>

lemma hd_neq [rust_str]: "t \<noteq> [] \<Longrightarrow> c \<notin> set t \<Longrightarrow> hd t \<noteq> c"
  by (metis hd_in_set)

lemma last_neq [rust_str]: "t \<noteq> [] \<Longrightarrow> c \<notin> set t \<Longrightarrow> last t \<noteq> c"
  by (metis last_in_set)

lemma strip_prefix_append [simp, rust_str]: "strip_prefix p (p @ s) = Some s"
  by (simp add: strip_prefix_def)

lemma strip_prefix_eq_Some [rust_str]: "strip_prefix p s = Some t \<longleftrightarrow> s = p @ t"
  by (auto simp: strip_prefix_def prefix_def)

lemma strip_prefix_eq_None [rust_str]: "strip_prefix p s = None \<longleftrightarrow> \<not> prefix p s"
  by (simp add: strip_prefix_def)

lemma split_on_neq_Nil [simp]: "split_on d s \<noteq> []"
  by (cases s) (auto split: list.splits)

lemma split_on_append [rust_str]:
  "split_on d (s @ d # t) = split_on d s @ split_on d t"
  by (induction s) (auto split: list.splits)

lemma split_on_single [rust_str]: "d \<notin> set s \<Longrightarrow> split_on d s = [s]"
  by (induction s) auto

lemma split_on_tokens: "t \<in> set (split_on d s) \<Longrightarrow> d \<notin> set t"
proof (induction s arbitrary: t)
  case Nil
  then show ?case by simp
next
  case (Cons c s)
  obtain u us where us: "split_on d s = u # us"
    using split_on_neq_Nil by (metis neq_Nil_conv)
  then show ?case
    using Cons.prems Cons.IH [of t] Cons.IH [of u] by (auto split: if_splits)
qed


section \<open>Lemmas on decimal\<close>

lemma dec_digit_char_of [simp]: "n < 10 \<Longrightarrow> dec_digit (char_of (48 + n)) = Some n"
  by (simp add: dec_digit_def is_ascii_digit_def)

lemma radix_value_append [rust_num]:
  "radix_value r dig acc (s @ t) =
     (case radix_value r dig acc s of None \<Rightarrow> None | Some v \<Rightarrow> radix_value r dig v t)"
  by (induction s arbitrary: acc) (auto split: option.splits)

lemma dec_of_nat_nonempty [simp]: "dec_of_nat n \<noteq> []"
  by (subst dec_of_nat.simps) simp

lemma radix_value_dec_of_nat [simp, rust_num]: "radix_value 10 dec_digit 0 (dec_of_nat n) = Some n"
proof (induction n rule: dec_of_nat.induct)
  case (1 n)
  show ?case
  proof (cases "n < 10")
    case True
    then show ?thesis by (subst dec_of_nat.simps) simp
  next
    case False
    then have "radix_value 10 dec_digit 0 (dec_of_nat (n div 10)) = Some (n div 10)"
      by (rule 1)
    with False show ?thesis
      by (subst dec_of_nat.simps) (simp add: radix_value_append)
  qed
qed

lemma dec_of_nat_digits: "c \<in> set (dec_of_nat n) \<Longrightarrow> is_ascii_digit c"
proof (induction n rule: dec_of_nat.induct)
  case (1 n)
  then show ?case
    by (cases "n < 10") (auto simp: dec_of_nat.simps [of n] is_ascii_digit_def)
qed

lemma hd_dec_of_nat: "dec_of_nat n = c # s \<Longrightarrow> c \<noteq> CHR ''+''"
  using dec_of_nat_digits [of c n] by (auto simp: is_ascii_digit_def byte_def)

lemma parse_unsigned_dec_of_nat [simp, rust_num]:
  assumes "n \<le> limit"
  shows "parse_unsigned 10 dec_digit limit (dec_of_nat n) = Some n"
proof -
  obtain c s where cs: "dec_of_nat n = c # s"
    using dec_of_nat_nonempty by (metis neq_Nil_conv)
  then have "c \<noteq> CHR ''+''"
    by (rule hd_dec_of_nat)
  with cs assms radix_value_dec_of_nat [of n] show ?thesis
    by (simp add: parse_unsigned_def del: radix_value_dec_of_nat)
qed

lemma unat_u64_less [simp]: "unat (w :: u64) < 2 ^ 64"
proof -
  have "unat w < 2 ^ LENGTH(64)"
    by (rule unsigned_less)
  then show ?thesis by simp
qed

lemma unat_u64_le: "unat (w :: u64) \<le> 2 ^ 64 - 1"
  using unat_u64_less [of w] by simp

lemma parse_u64_to_string [simp, rust_num]: "parse_u64 (u64_to_string w) = Some w"
  using unat_u64_le [of w]
  by (simp add: parse_u64_def u64_to_string_def del: One_nat_def)

lemma length_be_bytes [simp]: "length (be_bytes k n) = k"
  by (induction k arbitrary: n) auto

lemma length_u64_to_be_bytes [simp]: "length (u64_to_be_bytes w) = 8"
  by (simp add: u64_to_be_bytes_def)

lemma be_value_be_bytes: "be_value (be_bytes k n) = n mod 256 ^ k"
proof (induction k arbitrary: n)
  case 0
  then show ?case by (simp add: be_value_def)
next
  case (Suc k)
  have "n mod 256 ^ Suc k = 256 * (n div 256 mod 256 ^ k) + n mod 256"
    by (simp add: mod_mult2_eq mult.commute)
  with Suc show ?case
    by (simp add: be_value_def)
qed

lemma u64_be_bytes_roundtrip [simp, rust_num]: "u64_from_be_bytes (u64_to_be_bytes w) = w"
proof -
  have "unat w < 256 ^ 8"
    using unat_u64_less [of w] by simp
  then show ?thesis
    by (simp add: u64_from_be_bytes_def u64_to_be_bytes_def be_value_be_bytes)
qed


section \<open>Lemmas on saturation and durations\<close>

lemma unat_u64_max [simp, rust_num]: "unat u64_max = 2 ^ 64 - 1"
  by (simp add: u64_max_def unat_of_nat)

lemma unat_sat_add [rust_num]: "unat (sat_add_u64 a b) = min (2 ^ 64 - 1) (unat a + unat b)"
  by (auto simp: sat_add_u64_def unat_word_ariths)

lemma unat_sat_sub [rust_num]: "unat (sat_sub_u64 a b) = unat a - unat b"
  by (auto simp: sat_sub_u64_def unat_sub word_le_nat_alt)

lemma unat_sat_mul [rust_num]: "unat (sat_mul_u64 a b) = min (2 ^ 64 - 1) (unat a * unat b)"
  by (auto simp: sat_mul_u64_def unat_word_ariths)

lemma unat_try_from_or_max [rust_num]: "unat (u64_try_from_or_max n) = min (2 ^ 64 - 1) n"
  by (auto simp: u64_try_from_or_max_def unat_of_nat)

lemma unat_dur_secs_from_millis [simp, rust_dur]:
  "unat (dur_secs (duration_from_millis ms)) = unat ms div 1000"
proof -
  have "unat ms div 1000 < 2 ^ 64"
    using unat_u64_less [of ms] by simp
  then show ?thesis
    by (simp add: duration_from_millis_def unat_of_nat)
qed

lemma as_millis_from_millis [simp, rust_dur]: "as_millis (duration_from_millis ms) = unat ms"
proof -
  have "dur_nanos (duration_from_millis ms) div 1000000 = unat ms mod 1000"
    by (simp add: duration_from_millis_def)
  then show ?thesis
    by (simp add: as_millis_def)
qed

lemma duration_ok_from_millis [simp, rust_dur]: "duration_ok (duration_from_millis ms)"
  by (simp add: duration_ok_def duration_from_millis_def)

lemma duration_ok_from_secs [simp, rust_dur]: "duration_ok (duration_from_secs s)"
  by (simp add: duration_ok_def duration_from_secs_def)

lemma utf8_valid_ascii: "\<forall>c\<in>set s. byte c < 128 \<Longrightarrow> utf8_valid s"
proof (induction s)
  case (Cons c s)
  then have "utf8_len (c # s) = 1"
    by simp
  with Cons show ?case
    by (simp add: utf8_valid.simps [of "c # s"])
qed (simp add: utf8_valid.simps)

lemma utf8_valid_dec_of_nat: "utf8_valid (dec_of_nat n)"
  by (rule utf8_valid_ascii) (auto simp: is_ascii_digit_def dest: dec_of_nat_digits)

text \<open>An ASCII byte of a string is a character of it.\<close>

lemma second_between_cont: "second_between r lo hi \<Longrightarrow> 128 \<le> lo \<Longrightarrow> hi \<le> 191 \<Longrightarrow> cont_at r 0"
  by (auto simp: second_between_def cont_at_def is_cont_def split: list.splits)

lemma utf8_len_cont:
  assumes "1 < utf8_len (a # r)"
  shows "128 \<le> byte a" "i < utf8_len (a # r) - 1 \<Longrightarrow> cont_at r i"
proof -
  show "128 \<le> byte a"
    using assms by (simp add: Let_def split: if_splits)
  assume i: "i < utf8_len (a # r) - 1"
  let ?n = "utf8_len (a # r)"
  have "cont_at r 0"
    using assms by (auto simp: Let_def intro: second_between_cont split: if_splits)
  moreover have "cont_at r 1" if "2 < ?n"
    using that by (simp add: Let_def split: if_splits)
  moreover have "cont_at r 2" if "3 < ?n"
    using that by (simp add: Let_def split: if_splits)
  moreover have "?n \<le> 4"
    by (simp add: Let_def)
  ultimately show "cont_at r i"
    using i by (cases "i = 0"; cases "i = 1"; cases "i = 2") (auto simp del: utf8_len.simps)
qed

lemma utf8_multi_byte: "1 < utf8_len s \<Longrightarrow> c \<in> set (take (utf8_len s) s) \<Longrightarrow> 128 \<le> byte c"
proof (cases s)
  case (Cons a r)
  assume len: "1 < utf8_len s" and "c \<in> set (take (utf8_len s) s)"
  then have "c = a \<or> c \<in> set (take (utf8_len s - 1) r)"
    by (cases "utf8_len s") (auto simp: Cons simp del: utf8_len.simps)
  then show ?thesis
  proof
    assume "c \<in> set (take (utf8_len s - 1) r)"
    then obtain i where "i < utf8_len s - 1" "c = r ! i"
      by (auto simp: in_set_conv_nth)
    with utf8_len_cont(2) [OF len [unfolded Cons], of i] show ?thesis
      by (simp add: Cons cont_at_def is_cont_def del: utf8_len.simps)
  qed (use utf8_len_cont(1) [OF len [unfolded Cons]] in simp)
qed simp

lemma ascii_utf8_chars: "c \<in> set s \<Longrightarrow> byte c < 128 \<Longrightarrow> [c] \<in> set (utf8_chars s)"
proof (induction s rule: utf8_chars.induct)
  case (1 s)
  then have s: "s \<noteq> []"
    by auto
  let ?n = "max 1 (utf8_len s)"
  have "c \<in> set (take ?n s) \<or> c \<in> set (drop ?n s)"
    using 1(2) by (metis Un_iff append_take_drop_id set_append)
  then show ?case
  proof
    assume c: "c \<in> set (take ?n s)"
    have "\<not> 1 < utf8_len s"
    proof
      assume len: "1 < utf8_len s"
      then have "?n = utf8_len s"
        by simp
      with utf8_multi_byte [OF len] c 1(3) show False
        by (metis not_le)
    qed
    then have "?n = 1"
      by (simp add: max_def)
    with c s have "take ?n s = [c]"
      by (cases s) auto
    with s show ?thesis
      by (subst utf8_chars.simps) simp
  next
    assume "c \<in> set (drop ?n s)"
    with 1 s have "[c] \<in> set (utf8_chars (drop ?n s))"
      by blast
    with s show ?thesis
      by (subst utf8_chars.simps) simp
  qed
qed

end
