(* ===== verification/Key_Codec.thy ===== *)
theory Key_Codec
  imports Rust_Prelude
begin

text \<open>
  Key escaping of the state buckets (\<^verbatim>\<open>encode_key\<close> and \<^verbatim>\<open>decode_key\<close> of
  \<^verbatim>\<open>src/src/state/kv.rs\<close>), over an interface for byte-wise codes that the key index
  uses too. The theory shows that decoding inverts encoding, that encoded keys are valid
  JetStream KV keys, and that matching an encoded prefix in encoded space is the same as
  matching the prefix itself, which is what a listing relies on.
\<close>

section \<open>The model\<close>

definition encode_byte :: "char \<Rightarrow> string" where
  "encode_byte b =
     (if is_ascii_alphanumeric b \<or> b = CHR ''-'' \<or> b = CHR ''_'' \<or> b = CHR ''/''
      then [b] else CHR ''='' # hex2 b)"

definition encode_key :: "string \<Rightarrow> string" where
  "encode_key key = concat (map encode_byte key)"

fun decode_bytes :: "string \<Rightarrow> bytes option" where
  "decode_bytes [] = Some []"
| "decode_bytes (c # r) =
     (if c = CHR ''='' then
        (case r of
           a # b # r' \<Rightarrow>
             (case to_digit16 a of
                None \<Rightarrow> None
              | Some hi \<Rightarrow>
                  (case to_digit16 b of
                     None \<Rightarrow> None
                   | Some lo \<Rightarrow> map_option ((#) (char_of (hi * 16 + lo))) (decode_bytes r')))
         | _ \<Rightarrow> None)
      else map_option ((#) c) (decode_bytes r))"

definition from_utf8_ok :: "bytes \<Rightarrow> string option" where
  "from_utf8_ok out = (if utf8_valid out then Some out else None)"

definition decode_key :: "string \<Rightarrow> string option" where
  "decode_key encoded = Option.bind (decode_bytes encoded) from_utf8_ok"

text \<open>
  What async-nats accepts as a KV key, as the crate's tests restate it: not empty, no
  leading or trailing dot, and only the JetStream KV alphabet.
\<close>

definition kv_key_char :: "char \<Rightarrow> bool" where
  "kv_key_char b \<longleftrightarrow> is_ascii_alphanumeric b \<or> b \<in> set ''-/_=.''"

definition is_valid_key :: "string \<Rightarrow> bool" where
  "is_valid_key key \<longleftrightarrow>
     key \<noteq> [] \<and> hd key \<noteq> CHR ''.'' \<and> last key \<noteq> CHR ''.'' \<and> list_all kv_key_char key"


section \<open>Byte-wise codes\<close>

text \<open>
  A code that maps each byte to a word, such that the first byte of a text can be read off
  its encoding. The client's facts: the encoding is injective and it preserves and reflects
  prefixes.
\<close>

locale byte_code =
  fixes word :: "char \<Rightarrow> string"
  assumes word_nonempty: "word c \<noteq> []"
    and word_determines: "word a @ s = word b @ t \<Longrightarrow> a = b"
begin

lemma code_prefix_iff:
  "prefix (concat (map word p)) (concat (map word k)) \<longleftrightarrow> prefix p k"
proof (induction p arbitrary: k)
  case Nil
  then show ?case by simp
next
  case (Cons a p)
  show ?case
  proof (cases k)
    case Nil
    then show ?thesis
      using word_nonempty by simp
  next
    case k: (Cons b k')
    show ?thesis
    proof (cases "a = b")
      case True
      with k Cons show ?thesis by simp
    next
      case False
      then have "\<not> prefix (word a @ concat (map word p)) (word b @ concat (map word k'))"
        using word_determines by (auto simp: prefix_def)
      with k False show ?thesis by simp
    qed
  qed
qed

lemma code_inj: "concat (map word p) = concat (map word k) \<Longrightarrow> p = k"
  by (metis code_prefix_iff prefix_order.eq_iff)

end

lemma encode_byte_escape:
  "encode_byte = escape (\<lambda>b. is_ascii_alphanumeric b \<or> b = CHR ''-'' \<or> b = CHR ''_'' \<or> b = CHR ''/'')"
  by (simp add: fun_eq_iff encode_byte_def escape_def)

lemma encode_byte_determines: "encode_byte a @ s = encode_byte b @ t \<Longrightarrow> a = b"
  unfolding encode_byte_escape
  by (rule escape_determines) (auto simp: is_ascii_alphanumeric_def)

interpretation kvc: byte_code encode_byte
proof
  show "encode_byte c \<noteq> []" for c
    by (simp add: encode_byte_def)
  show "a = b" if "encode_byte a @ s = encode_byte b @ t" for a b s t
    using that by (rule encode_byte_determines)
qed


section \<open>Lemmas\<close>

lemma encode_key_append [rust_str]: "encode_key (a @ b) = encode_key a @ encode_key b"
  by (simp add: encode_key_def)

lemma encode_key_inj: "encode_key a = encode_key b \<longleftrightarrow> a = b"
  unfolding encode_key_def by (metis kvc.code_inj)

lemma decode_bytes_step: "decode_bytes (encode_byte b @ r) = map_option ((#) b) (decode_bytes r)"
proof -
  have "b \<noteq> CHR ''=''" if "is_ascii_alphanumeric b \<or> b = CHR ''-'' \<or> b = CHR ''_'' \<or> b = CHR ''/''"
    using that by (auto simp: is_ascii_alphanumeric_def)
  then show ?thesis
    by (simp add: encode_byte_def hex2_def)
qed

lemma decode_bytes_encode_key: "decode_bytes (encode_key key) = Some key"
  by (induction key) (simp_all add: encode_key_def decode_bytes_step)

lemma encode_byte_chars: "list_all (\<lambda>b. kv_key_char b \<and> b \<noteq> CHR ''.'') (encode_byte c)"
  by (auto simp: encode_byte_def hex2_def kv_key_char_def)

lemma encode_key_chars: "b \<in> set (encode_key key) \<Longrightarrow> kv_key_char b \<and> b \<noteq> CHR ''.''"
  using encode_byte_chars by (auto simp: encode_key_def list_all_iff)

lemma encode_key_eq_Nil [simp]: "encode_key key = [] \<longleftrightarrow> key = []"
  using kvc.word_nonempty by (auto simp: encode_key_def)

lemma encode_key_escape_hex:
  "encode_key key = CHR ''='' # c # r \<Longrightarrow> to_digit16 c \<noteq> None"
  by (cases key) (auto simp: encode_key_def encode_byte_def hex2_def is_ascii_alphanumeric_def
      split: if_splits)


section \<open>Properties\<close>

text \<open>
  C29. Escaping a key and reading it back gives the key: \<^verbatim>\<open>decode_key\<close> inverts
  \<^verbatim>\<open>encode_key\<close> on every Rust string (every valid UTF-8 byte sequence).
\<close>

theorem decode_encode_key:
  assumes "utf8_valid key"
  shows "decode_key (encode_key key) = Some key"
  using assms by (simp add: decode_key_def decode_bytes_encode_key from_utf8_ok_def)

theorem decode_encode_key_witness:
  "decode_key (encode_key ''a.b:c=/_'') = Some ''a.b:c=/_'' \<and> encode_key ''a.b:c=/_'' = ''a=2Eb=3Ac=3D/_''"
proof -
  have "utf8_valid ''a.b:c=/_''"
    by (simp add: utf8_valid.simps)
  from decode_encode_key [OF this] show ?thesis
    by (simp add: encode_key_def encode_byte_def is_ascii_alphanumeric_def hex2_def hex_digit_def)
qed

text \<open>
  C30. A prefix matches in encoded space exactly when it matches in key space, so a listing may
  compare encoded keys with the encoded prefix.
\<close>

theorem encode_key_prefix: "prefix (encode_key p) (encode_key key) \<longleftrightarrow> prefix p key"
  unfolding encode_key_def by (rule kvc.code_prefix_iff)

text \<open>
  The encoding of every non-empty key is a valid JetStream KV key, a single subject token.
\<close>

lemma encode_key_valid:
  assumes "key \<noteq> []"
  shows "is_valid_key (encode_key key) \<and> CHR ''.'' \<notin> set (encode_key key)"
proof -
  have "encode_key key \<noteq> []"
    using assms by simp
  moreover have "CHR ''.'' \<notin> set (encode_key key)"
    using encode_key_chars by blast
  ultimately show ?thesis
    using encode_key_chars [of _ key] by (simp add: is_valid_key_def list_all_iff hd_neq last_neq)
qed

end
