(* ===== verification/Nats_Subject.thy ===== *)
theory Nats_Subject
  imports Rust_Prelude
begin

text \<open>
  NATS subjects: dot-separated tokens, and the documented matching of a subscription or a
  stream filter, in which \<^verbatim>\<open>*\<close> stands for one token and a final \<^verbatim>\<open>>\<close> for one or
  more. The server does the matching; the theory is the vocabulary in which the properties of
  the crate's subjects are stated.
\<close>

fun join_dots :: "string list \<Rightarrow> string" where
  "join_dots [] = []"
| "join_dots [t] = t"
| "join_dots (t # u # ts) = t @ CHR ''.'' # join_dots (u # ts)"

fun token_match :: "string list \<Rightarrow> string list \<Rightarrow> bool" where
  "token_match [] [] = True"
| "token_match (f # fs) (t # ts) =
     (if f = ''>'' \<and> fs = [] then True else (f = ''*'' \<or> f = t) \<and> token_match fs ts)"
| "token_match _ _ = False"

definition subject_matches :: "string \<Rightarrow> string \<Rightarrow> bool" where
  "subject_matches filt subject \<longleftrightarrow> token_match (split_on CHR ''.'' filt) (split_on CHR ''.'' subject)"

lemma join_dots_Cons: "ts \<noteq> [] \<Longrightarrow> join_dots (t # ts) = t @ CHR ''.'' # join_dots ts"
  by (cases ts) auto

lemma join_dots_append [rust_str]:
  "ts \<noteq> [] \<Longrightarrow> us \<noteq> [] \<Longrightarrow> join_dots (ts @ us) = join_dots ts @ CHR ''.'' # join_dots us"
proof (induction ts rule: join_dots.induct)
  case (2 t)
  then show ?case by (simp add: join_dots_Cons)
next
  case (3 t u ts)
  then show ?case by simp
qed simp

lemma split_on_join_dots [rust_str]:
  "ts \<noteq> [] \<Longrightarrow> \<forall>t\<in>set ts. CHR ''.'' \<notin> set t \<Longrightarrow> split_on CHR ''.'' (join_dots ts) = ts"
proof (induction ts rule: join_dots.induct)
  case (3 t u ts)
  then show ?case
    using split_on_append [of "CHR ''.''" t "join_dots (u # ts)"]
    by (simp add: split_on_single)
qed (auto simp: split_on_single)

lemma join_dots_split_on [simp]: "join_dots (split_on CHR ''.'' s) = s"
proof (induction s)
  case (Cons c s)
  obtain u us where us: "split_on CHR ''.'' s = u # us"
    using split_on_neq_Nil by (metis neq_Nil_conv)
  then have "join_dots ((c # u) # us) = c # join_dots (u # us)"
    by (cases us) auto
  with us Cons show ?case
    by (simp add: join_dots_Cons)
qed simp

lemma subject_matches_join:
  assumes "fs \<noteq> []" "ts \<noteq> []"
    and "\<forall>t\<in>set fs. CHR ''.'' \<notin> set t" "\<forall>t\<in>set ts. CHR ''.'' \<notin> set t"
  shows "subject_matches (join_dots fs) (join_dots ts) = token_match fs ts"
  using assms by (simp add: subject_matches_def split_on_join_dots)

lemma token_match_refl:
  "''>'' \<notin> set fs \<Longrightarrow> token_match fs fs"
  by (induction fs) auto

lemma token_match_append_gt:
  "us \<noteq> [] \<Longrightarrow> token_match (ts @ [''>'']) (ts @ us)"
  by (induction ts) (auto simp: neq_Nil_conv)

end
