(* ===== verification/Key_Index.thy ===== *)
theory Key_Index
  imports Key_Codec Nats_Subject
begin

text \<open>
  The key index of a state bucket (\<^verbatim>\<open>src/src/state/index.rs\<close>): next to each data
  record the bucket holds an index record, whose key splits the data key into subject tokens
  after each separator, so that the server can filter a listing by prefix. The theory shows
  that index keys are valid KV keys, that they decode to their data key, that no index key
  is ever a data key, and that the server-side filter of a prefix together with the check
  the listing makes on each hit selects exactly the keys under the prefix.
\<close>

section \<open>The model\<close>

definition INDEX_TOKEN :: string where
  "INDEX_TOKEN = ''=I''"

definition END_TOKEN :: string where
  "END_TOKEN = ''=Z''"

definition INDEX_STATE_KEY :: string where
  "INDEX_STATE_KEY = ''=M.index-complete''"

definition is_separator :: "char \<Rightarrow> bool" where
  "is_separator b \<longleftrightarrow> b = CHR '':'' \<or> b = CHR ''/'' \<or> b = CHR ''.''"

definition push_escaped :: "string \<Rightarrow> char \<Rightarrow> string" where
  "push_escaped out b =
     (if is_ascii_alphanumeric b \<or> b = CHR ''-'' \<or> b = CHR ''_''
      then out @ [b] else (out @ [CHR ''='']) @ hex2 b)"

fun tokens_loop :: "string \<Rightarrow> bool \<Rightarrow> string \<Rightarrow> string \<times> bool" where
  "tokens_loop out is_open [] = (out, \<not> is_open)"
| "tokens_loop out is_open (b # key) =
     (let out1 = (if \<not> is_open \<and> out \<noteq> [] then out @ [CHR ''.''] else out);
          out2 = push_escaped out1 b
      in tokens_loop out2 (\<not> is_separator b) key)"

definition tokens :: "string \<Rightarrow> string \<times> bool" where
  "tokens key = tokens_loop [] False key"

definition index_key :: "string \<Rightarrow> string" where
  "index_key key =
     (case tokens key of (toks, ends_at_separator) \<Rightarrow>
        if toks = [] then INDEX_TOKEN @ ''.'' @ END_TOKEN
        else if ends_at_separator then INDEX_TOKEN @ ''.'' @ toks @ ''.'' @ END_TOKEN
        else INDEX_TOKEN @ ''.'' @ toks)"

text \<open>
  \<^verbatim>\<open>token.get(i + 1..i + 3)\<close>: \<^verbatim>\<open>None\<close> past the end or inside a character.
\<close>

definition hex_slice :: "string \<Rightarrow> string option" where
  "hex_slice r =
     (if length r < 2 \<or> is_cont (r ! 0) \<or> 2 < length r \<and> is_cont (r ! 2)
      then None else Some (take 2 r))"

function decode_token :: "string \<Rightarrow> bytes option" where
  "decode_token [] = Some []"
| "decode_token (c # r) =
     (if c = CHR ''='' then
        (case hex_slice r of
           None \<Rightarrow> None
         | Some hex \<Rightarrow>
             (case u8_from_hex hex of
                None \<Rightarrow> None
              | Some b \<Rightarrow> map_option ((#) b) (decode_token (drop 2 r))))
      else map_option ((#) c) (decode_token r))"
  by pat_completeness auto
termination
  by (relation "measure length") auto

fun decode_tokens :: "string list \<Rightarrow> bytes option" where
  "decode_tokens [] = Some []"
| "decode_tokens (token # rest) =
     (if token = END_TOKEN \<and> rest = [] then Some []
      else (case decode_token token of
              None \<Rightarrow> None
            | Some out \<Rightarrow> map_option ((@) out) (decode_tokens rest)))"

definition data_key :: "string \<Rightarrow> string option" where
  "data_key ik =
     Option.bind (strip_prefix INDEX_TOKEN ik) (\<lambda>r.
     Option.bind (strip_prefix ''.'' r) (\<lambda>rest.
     Option.bind (decode_tokens (split_on CHR ''.'' rest)) from_utf8_ok))"

definition is_index_key :: "string \<Rightarrow> bool" where
  "is_index_key key \<longleftrightarrow> prefix ''=I.'' key \<or> prefix ''=M.'' key"

text \<open>The part of a prefix up to its last separator, the empty string when it has none.\<close>

definition whole_tokens :: "string \<Rightarrow> string" where
  "whole_tokens p = rev (dropWhile (\<lambda>b. \<not> is_separator b) (rev p))"

definition prefix_filter :: "string \<Rightarrow> string" where
  "prefix_filter p =
     (case tokens (whole_tokens p) of (toks, _) \<Rightarrow>
        if toks = [] then INDEX_TOKEN @ ''.>'' else INDEX_TOKEN @ ''.'' @ toks @ ''.>'')"


section \<open>The tokens of a key\<close>

text \<open>A reference for the loop: the pieces of a key, each up to and including a separator.\<close>

fun pieces :: "string \<Rightarrow> string list" where
  "pieces [] = []"
| "pieces (b # key) =
     (if is_separator b then [b] # pieces key
      else (case pieces key of [] \<Rightarrow> [[b]] | p # ps \<Rightarrow> (b # p) # ps))"

definition index_escape :: "char \<Rightarrow> string" where
  "index_escape = escape (\<lambda>b. is_ascii_alphanumeric b \<or> b = CHR ''-'' \<or> b = CHR ''_'')"

definition esc_piece :: "string \<Rightarrow> string" where
  "esc_piece p = concat (map index_escape p)"

definition index_tokens :: "string \<Rightarrow> string list" where
  "index_tokens key =
     map esc_piece (pieces key) @ (if key = [] \<or> is_separator (last key) then [END_TOKEN] else [])"

interpretation ixc: byte_code index_escape
proof
  show "index_escape c \<noteq> []" for c
    by (simp add: index_escape_def)
  show "a = b" if "index_escape a @ s = index_escape b @ t" for a b s t
    using that unfolding index_escape_def by (rule escape_determines [rotated]) simp
qed

lemma push_escaped_eq: "push_escaped out b = out @ index_escape b"
  by (simp add: push_escaped_def index_escape_def escape_def)

lemma pieces_eq_Nil [simp]: "pieces key = [] \<longleftrightarrow> key = []"
  by (cases key) (auto split: list.splits)

lemma concat_pieces [simp]: "concat (pieces key) = key"
  by (induction key) (auto split: list.splits)

lemma pieces_nonempty: "p \<in> set (pieces key) \<Longrightarrow> p \<noteq> []"
  by (induction key arbitrary: p) (auto split: list.splits if_splits)

lemma esc_piece_Cons: "esc_piece (b # p) = index_escape b @ esc_piece p"
  by (simp add: esc_piece_def)

lemma tokens_loop_eq:
  "key \<noteq> [] \<Longrightarrow>
   tokens_loop out is_open key =
     (out @ (if \<not> is_open \<and> out \<noteq> [] then [CHR ''.''] else []) @ join_dots (map esc_piece (pieces key)),
      is_separator (last key))"
proof (induction key arbitrary: out is_open)
  case (Cons b key)
  show ?case
  proof (cases "key = []")
    case True
    then show ?thesis
      by (simp add: push_escaped_eq esc_piece_def)
  next
    case False
    obtain p ps where ps: "pieces key = p # ps"
      using False pieces_eq_Nil by (metis neq_Nil_conv)
    then have "join_dots (map esc_piece ((b # p) # ps)) = index_escape b @ join_dots (map esc_piece (p # ps))"
      by (cases ps) (simp_all add: esc_piece_Cons)
    moreover have "esc_piece [b] = index_escape b"
      by (simp add: esc_piece_def)
    ultimately show ?thesis
      using Cons.IH [OF False] False ps ixc.word_nonempty by (simp add: push_escaped_eq)
  qed
qed simp

lemma tokens_Nil [simp]: "tokens [] = ([], True)"
  by (simp add: tokens_def)

lemma tokens_eq:
  "key \<noteq> [] \<Longrightarrow> tokens key = (join_dots (map esc_piece (pieces key)), is_separator (last key))"
  by (simp add: tokens_def tokens_loop_eq)

lemma esc_piece_nonempty: "p \<noteq> [] \<Longrightarrow> esc_piece p \<noteq> []"
  using ixc.word_nonempty by (cases p) (auto simp: esc_piece_def)

lemma tokens_nonempty: "key \<noteq> [] \<Longrightarrow> join_dots (map esc_piece (pieces key)) \<noteq> []"
proof -
  assume "key \<noteq> []"
  then obtain p ps where ps: "pieces key = p # ps"
    using pieces_eq_Nil by (metis neq_Nil_conv)
  then have "p \<noteq> []"
    using pieces_nonempty [of p key] by simp
  with ps show ?thesis
    by (cases ps) (simp_all add: esc_piece_nonempty)
qed

lemma index_key_eq: "index_key key = join_dots (INDEX_TOKEN # index_tokens key)"
proof (cases "key = []")
  case True
  then show ?thesis
    by (simp add: index_key_def index_tokens_def INDEX_TOKEN_def)
next
  case False
  then have ne: "map esc_piece (pieces key) \<noteq> []"
    by simp
  from False show ?thesis
    by (simp add: index_key_def tokens_eq tokens_nonempty index_tokens_def join_dots_Cons
        join_dots_append [OF ne])
qed

lemma pieces_append:
  "a = [] \<or> is_separator (last a) \<Longrightarrow> pieces (a @ b) = pieces a @ pieces b"
  by (induction a) (auto split: list.splits if_splits)


section \<open>Escaped tokens\<close>

lemma index_escape_chars: "c \<in> set (index_escape b) \<Longrightarrow> is_ascii_alphanumeric c \<or> c \<in> set ''-_=''"
  by (auto simp: index_escape_def escape_def hex2_def split: if_splits)

lemma esc_piece_chars: "c \<in> set (esc_piece p) \<Longrightarrow> is_ascii_alphanumeric c \<or> c \<in> set ''-_=''"
  using index_escape_chars by (auto simp: esc_piece_def)

lemma alnum_not_cont: "is_ascii_alphanumeric c \<Longrightarrow> \<not> is_cont c"
  by (auto simp: is_ascii_alphanumeric_def is_cont_def)

lemma esc_piece_not_cont: "c \<in> set (esc_piece p) \<Longrightarrow> \<not> is_cont c"
  using esc_piece_chars [of c p] alnum_not_cont [of c] by (auto simp: is_cont_def)

lemma esc_piece_no_dot: "CHR ''.'' \<notin> set (esc_piece p)"
  using esc_piece_chars by force

lemma index_tokens_no_dot: "t \<in> set (index_tokens key) \<Longrightarrow> CHR ''.'' \<notin> set t"
  by (auto simp: index_tokens_def END_TOKEN_def esc_piece_no_dot split: if_splits)

lemma kv_key_char_dot: "kv_key_char CHR ''.''"
  by (simp add: kv_key_char_def)

lemma esc_piece_key_char: "c \<in> set (esc_piece p) \<Longrightarrow> kv_key_char c"
  using esc_piece_chars [of c p] unfolding kv_key_char_def by auto

lemma list_all_tokens: "list_all kv_key_char INDEX_TOKEN" "list_all kv_key_char END_TOKEN"
  by (simp_all add: INDEX_TOKEN_def END_TOKEN_def kv_key_char_def is_ascii_alphanumeric_Char)

lemma index_tokens_key_char:
  assumes "t \<in> set (index_tokens key)" "c \<in> set t"
  shows "kv_key_char c"
proof -
  have "t = END_TOKEN \<or> (\<exists>p. t = esc_piece p)"
    using assms(1) by (auto simp: index_tokens_def split: if_splits)
  then show ?thesis
    using assms(2) esc_piece_key_char list_all_tokens(2) by (auto simp: list_all_iff)
qed

lemma index_tokens_nonempty: "index_tokens key \<noteq> []"
  by (auto simp: index_tokens_def)

lemma esc_piece_neq_END: "esc_piece p \<noteq> END_TOKEN"
  by (cases p) (auto simp: esc_piece_def END_TOKEN_def index_escape_def escape_def hex2_def split: if_splits)

lemma hex_slice_hex2:
  "(\<And>c. c \<in> set r \<Longrightarrow> \<not> is_cont c) \<Longrightarrow> hex_slice (hex2 b @ r) = Some (hex2 b)"
  by (cases r) (auto simp: hex_slice_def hex2_def alnum_not_cont)

lemma decode_token_step:
  assumes "\<And>c. c \<in> set r \<Longrightarrow> \<not> is_cont c"
  shows "decode_token (index_escape b @ r) = map_option ((#) b) (decode_token r)"
proof (cases "is_ascii_alphanumeric b \<or> b = CHR ''-'' \<or> b = CHR ''_''")
  case True
  then have "b \<noteq> CHR ''=''" by auto
  with True show ?thesis by (simp add: index_escape_def escape_def)
next
  case False
  then have "index_escape b = CHR ''='' # hex2 b"
    by (simp add: index_escape_def escape_def)
  then show ?thesis
    using hex_slice_hex2 [of r b, OF assms] by simp
qed

lemma decode_token_esc_piece: "decode_token (esc_piece p) = Some p"
proof (induction p)
  case (Cons b p)
  have "decode_token (index_escape b @ esc_piece p) = map_option ((#) b) (decode_token (esc_piece p))"
    by (rule decode_token_step) (rule esc_piece_not_cont)
  with Cons show ?case by (simp add: esc_piece_Cons)
qed (simp add: esc_piece_def)

lemma decode_tokens_pieces:
  "decode_tokens (map esc_piece ps @ (if b then [END_TOKEN] else [])) = Some (concat ps)"
  by (induction ps) (auto simp: decode_token_esc_piece esc_piece_neq_END)


lemma data_key_index_key_eq:
  assumes "utf8_valid key"
  shows "data_key (index_key key) = Some key"
proof -
  have split: "split_on CHR ''.'' (join_dots (index_tokens key)) = index_tokens key"
    by (rule split_on_join_dots) (auto simp: index_tokens_nonempty index_tokens_no_dot)
  have "decode_tokens (index_tokens key) = Some key"
    using decode_tokens_pieces [of "pieces key" "key = [] \<or> is_separator (last key)"]
    by (simp add: index_tokens_def)
  with assms split show ?thesis
    by (simp add: data_key_def index_key_eq join_dots_Cons index_tokens_nonempty
        strip_prefix_append [of "''.''", simplified] from_utf8_ok_def)
qed


section \<open>Properties\<close>

text \<open>
  C28. The index key of every key decodes to that key: \<^verbatim>\<open>data_key\<close> inverts
  \<^verbatim>\<open>index_key\<close> on every Rust string.
\<close>

theorem data_key_index_key:
  assumes "utf8_valid key"
  shows "data_key (index_key key) = Some key"
  using assms by (rule data_key_index_key_eq)

theorem data_key_index_key_witness:
  "index_key ''sub:u:ab:'' = ''=I.sub=3A.u=3A.ab=3A.=Z''
   \<and> data_key ''=I.sub=3A.u=3A.ab=3A.=Z'' = Some ''sub:u:ab:''"
proof -
  have valid: "utf8_valid ''sub:u:ab:''"
    by (simp add: utf8_valid.simps)
  have ik: "index_key ''sub:u:ab:'' = ''=I.sub=3A.u=3A.ab=3A.=Z''"
    by (simp add: index_key_def tokens_def push_escaped_def is_separator_def hex2_def hex_digit_def
        INDEX_TOKEN_def END_TOKEN_def)
  from data_key_index_key [OF valid] ik show ?thesis by simp
qed

text \<open>
  An index key is a valid JetStream KV key whose tokens are all non-empty, so it is a
  well-formed subject.
\<close>

lemma index_key_valid:
  "is_valid_key (index_key key) \<and> [] \<notin> set (split_on CHR ''.'' (index_key key))"
proof -
  let ?ts = "INDEX_TOKEN # index_tokens key"
  have nonempty: "t \<noteq> []" if "t \<in> set ?ts" for t
    using that pieces_nonempty [of _ key] esc_piece_nonempty
    by (fastforce simp: INDEX_TOKEN_def index_tokens_def END_TOKEN_def split: if_splits)
  have nodot: "CHR ''.'' \<notin> set t" if "t \<in> set ?ts" for t
    using that by (auto simp: INDEX_TOKEN_def index_tokens_no_dot)
  have chars: "kv_key_char c" if "t \<in> set ?ts" "c \<in> set t" for t c
    using that index_tokens_key_char [of t key c] list_all_tokens(1) by (auto simp: list_all_iff)
  have split: "split_on CHR ''.'' (index_key key) = ?ts"
    unfolding index_key_eq by (rule split_on_join_dots) (auto simp: nodot)
  have "is_valid_key (join_dots ts)"
    if "ts \<noteq> []" "\<forall>t\<in>set ts. t \<noteq> [] \<and> CHR ''.'' \<notin> set t \<and> list_all kv_key_char t" for ts
    using that
  proof (induction ts rule: join_dots.induct)
    case (2 t)
    then show ?case
      by (auto simp: is_valid_key_def hd_neq last_neq)
  next
    case (3 t u ts)
    then show ?case
      using kv_key_char_dot by (auto simp: is_valid_key_def hd_append hd_neq)
  qed simp
  from this [of ?ts] split show ?thesis
    using nonempty nodot chars by (auto simp: index_key_eq list_all_iff)
qed

text \<open>
  C31. Data keys and index keys never mix: the encoding of a key is not an index key and decodes
  as none, and the index state key is an index key that stands for no data key.
\<close>

theorem data_and_index_keys_disjoint:
  "\<not> is_index_key (encode_key key) \<and> data_key (encode_key key) = None
   \<and> encode_key key \<noteq> index_key other \<and> is_index_key (index_key other)
   \<and> encode_key key \<noteq> INDEX_STATE_KEY \<and> index_key other \<noteq> INDEX_STATE_KEY
   \<and> is_index_key INDEX_STATE_KEY \<and> data_key INDEX_STATE_KEY = None"
proof -
  have nohex: "to_digit16 CHR ''I'' = None" "to_digit16 CHR ''M'' = None"
    by (simp_all add: to_digit16_def)
  have enc: "\<not> prefix ''=I'' (encode_key key)" "\<not> prefix ''=M'' (encode_key key)"
    using encode_key_escape_hex [of key] nohex by (auto simp: prefix_def)
  have ik: "prefix ''=I.'' (index_key other)"
    by (simp add: index_key_eq join_dots_Cons index_tokens_nonempty INDEX_TOKEN_def)
  have "\<not> prefix ''=I.'' (encode_key key)" "\<not> prefix ''=M.'' (encode_key key)"
    using enc by (auto simp: prefix_def)
  then show ?thesis
    using enc ik
    by (auto simp: is_index_key_def data_key_def INDEX_TOKEN_def INDEX_STATE_KEY_def
        strip_prefix_def)
qed

lemma prefix_filter_matches:
  assumes "prefix p key"
  shows "subject_matches (prefix_filter p) (index_key key)"
proof -
  define w where "w = whole_tokens p"
  have "rev w = dropWhile (\<lambda>b. \<not> is_separator b) (rev p)"
    by (simp add: w_def whole_tokens_def)
  then have sep: "w = [] \<or> is_separator (last w)"
    using hd_dropWhile [of "\<lambda>b. \<not> is_separator b" "rev p"] by (metis hd_rev rev_is_Nil_conv)
  have "suffix (rev w) (rev p)"
    by (simp add: w_def whole_tokens_def suffix_dropWhile)
  then obtain u where "p = w @ u"
    by (metis suffix_def rev_append rev_rev_ident)
  with assms obtain rest where key: "key = w @ rest"
    by (auto simp: prefix_def)
  have filt: "prefix_filter p = join_dots ((INDEX_TOKEN # map esc_piece (pieces w)) @ [''>''])"
    by (cases "w = []")
       (simp_all add: prefix_filter_def w_def [symmetric] tokens_eq tokens_nonempty join_dots_Cons
          join_dots_append)
  define us where "us = map esc_piece (pieces rest)
     @ (if key = [] \<or> is_separator (last key) then [END_TOKEN] else [])"
  have toks: "INDEX_TOKEN # index_tokens key = (INDEX_TOKEN # map esc_piece (pieces w)) @ us"
    by (simp add: index_tokens_def us_def key pieces_append [OF sep])
  have "us \<noteq> []"
    using sep by (auto simp: us_def key)
  then have "token_match ((INDEX_TOKEN # map esc_piece (pieces w)) @ [''>'']) (INDEX_TOKEN # index_tokens key)"
    unfolding toks by (rule token_match_append_gt)
  then show ?thesis
    unfolding filt index_key_eq
    by (subst subject_matches_join)
       (auto simp: INDEX_TOKEN_def esc_piece_no_dot index_tokens_no_dot)
qed

text \<open>
  C27. The server-side filter of a prefix loses no key under it, and together with the check the
  listing makes on the decoded key it selects exactly the keys under the prefix.
\<close>

theorem prefix_filter_exact:
  assumes "utf8_valid key"
  shows "subject_matches (prefix_filter p) (index_key key)
           \<and> (case data_key (index_key key) of None \<Rightarrow> False | Some k \<Rightarrow> prefix p k)
         \<longleftrightarrow> prefix p key"
  using data_key_index_key_eq [OF assms] prefix_filter_matches by auto

theorem prefix_filter_exact_witness:
  "subject_matches (prefix_filter ''a:'') (index_key ''a:1'')
   \<and> \<not> prefix ''a:'' ''ab:1'' \<and> prefix_filter ''a:'' = ''=I.a=3A.>''"
  using prefix_filter_exact [of "''a:1''" "''a:''"]
  by (simp add: utf8_valid.simps prefix_filter_def whole_tokens_def tokens_def push_escaped_def
      is_separator_def hex2_def hex_digit_def INDEX_TOKEN_def)

end
