(* ===== verification/Peer_Cache.thy ===== *)
theory Peer_Cache
  imports Rust_Prelude "HOL-Library.AList"
begin

text \<open>
  Peer presence (\<^verbatim>\<open>src/src/peer.rs\<close>): the cache a replica keeps of the other ones, the
  folding of heartbeats and the sweep of stale entries. The cache is written by one task only,
  whose loop selects between a heartbeat and a tick of its sweeper, so a run of the task is a
  sequence of these two inputs; each input carries what the clocks answered when it was handled.
  The JSON codec of heartbeats is a parameter. A hash map is an association list without
  duplicate keys, in the order the iteration visits it.
\<close>

section \<open>The model\<close>

text \<open>\<^verbatim>\<open>mcpg_cluster_api\<close>'s types, the variants the crate constructs.\<close>

datatype PeerHealth = Healthy | Degraded

record ClusterPeer =
  cp_node_id :: string
  cp_address :: string
  cp_last_seen :: string
  cp_health :: PeerHealth
  cp_roles :: "string list"

datatype PeerEvent =
    Joined ClusterPeer
  | Left string
  | HealthChanged string PeerHealth

definition HEARTBEAT_SUBJECT_PREFIX :: string where
  "HEARTBEAT_SUBJECT_PREFIX = ''mcpg.peers.heartbeat''"

definition subject_node_id :: "string \<Rightarrow> string option" where
  "subject_node_id subject =
     (case strip_prefix (HEARTBEAT_SUBJECT_PREFIX @ ''.'') subject of
        None \<Rightarrow> None
      | Some token \<Rightarrow> if token = [] \<or> CHR ''.'' \<in> set token then None else Some token)"

record HeartbeatPayload =
  hb_node_id :: string
  hb_address :: string
  hb_started_at :: string
  hb_leaving :: bool
  hb_kv_index :: bool

text \<open>\<^verbatim>\<open>last_seen\<close> is a reading of the monotonic clock, in nanoseconds.\<close>

record PeerEntry =
  pe_node_id :: string
  pe_address :: string
  pe_last_seen :: nat
  pe_last_seen_rfc3339 :: string
  pe_health :: PeerHealth
  pe_kv_index :: bool

type_synonym PeerCache = "(string \<times> PeerEntry) list"

definition unindexed_peer_present :: "PeerCache \<Rightarrow> bool" where
  "unindexed_peer_present cache = list_ex (\<lambda>(_, peer). \<not> pe_kv_index peer) cache"

definition cluster_peer :: "PeerEntry \<Rightarrow> ClusterPeer" where
  "cluster_peer e =
     \<lparr>cp_node_id = pe_node_id e, cp_address = pe_address e, cp_last_seen = pe_last_seen_rfc3339 e,
      cp_health = pe_health e, cp_roles = []\<rparr>"

definition snapshot :: "PeerCache \<Rightarrow> ClusterPeer list" where
  "snapshot cache = map (\<lambda>(_, e). cluster_peer e) cache"

text \<open>One heartbeat: the new cache and the events sent.\<close>

definition on_heartbeat ::
  "(bytes \<Rightarrow> string + HeartbeatPayload) \<Rightarrow> string \<Rightarrow> string \<Rightarrow> bytes \<Rightarrow> nat \<Rightarrow> string \<Rightarrow>
   PeerCache \<Rightarrow> PeerCache \<times> PeerEvent list" where
  "on_heartbeat decode self_node_id subject payload instant now cache =
     (case subject_node_id subject of
        None \<Rightarrow> (cache, [])
      | Some node_id \<Rightarrow>
          if node_id = self_node_id then (cache, [])
          else
            (case decode payload of
               Inl _ \<Rightarrow> (cache, [])
             | Inr p \<Rightarrow>
                 if hb_leaving p then
                   (AList.delete node_id cache,
                    if map_of cache node_id \<noteq> None then [Left node_id] else [])
                 else
                   (let entry = \<lparr>pe_node_id = node_id, pe_address = hb_address p, pe_last_seen = instant,
                          pe_last_seen_rfc3339 = now, pe_health = Healthy, pe_kv_index = hb_kv_index p\<rparr>;
                        prior_health = map_option pe_health (map_of cache node_id)
                    in (AList.update node_id entry cache,
                        case prior_health of
                          None \<Rightarrow> [Joined (cluster_peer entry)]
                        | Some prev \<Rightarrow> if prev \<noteq> Healthy then [HealthChanged node_id Healthy] else []))))"

text \<open>One tick of the sweeper: \<^verbatim>\<open>retain\<close> with the deltas it collects.\<close>

definition health_at :: "duration \<Rightarrow> nat \<Rightarrow> PeerHealth" where
  "health_at degraded_after age = (if age > as_nanos degraded_after then Degraded else Healthy)"

fun sweep_peers :: "duration \<Rightarrow> duration \<Rightarrow> nat \<Rightarrow> PeerCache \<Rightarrow> PeerCache \<times> PeerEvent list" where
  "sweep_peers degraded_after expiry_after now [] = ([], [])"
| "sweep_peers degraded_after expiry_after now ((node_id, entry) # rest) =
     (let age = now - pe_last_seen entry;
          (cache, deltas) = sweep_peers degraded_after expiry_after now rest
      in if age > as_nanos expiry_after then (cache, Left node_id # deltas)
         else
           (let new_health = health_at degraded_after age
            in if pe_health entry \<noteq> new_health
               then ((node_id, entry\<lparr>pe_health := new_health\<rparr>) # cache,
                     HealthChanged node_id new_health # deltas)
               else ((node_id, entry) # cache, deltas)))"

text \<open>
  The subscriber: what the select loop is handed until the subscription ends, with the
  readings of the clocks.
\<close>

datatype peer_input = Heartbeat string bytes nat string | SweepTick nat

record peer_params =
  pp_decode :: "bytes \<Rightarrow> string + HeartbeatPayload"
  pp_self :: string
  pp_degraded_after :: duration
  pp_expiry_after :: duration

fun peer_step :: "peer_params \<Rightarrow> PeerCache \<Rightarrow> peer_input \<Rightarrow> PeerCache \<times> PeerEvent list" where
  "peer_step P cache (Heartbeat subject payload instant now) =
     on_heartbeat (pp_decode P) (pp_self P) subject payload instant now cache"
| "peer_step P cache (SweepTick now) =
     sweep_peers (pp_degraded_after P) (pp_expiry_after P) now cache"

fun subscriber_loop :: "peer_params \<Rightarrow> PeerCache \<Rightarrow> peer_input list \<Rightarrow> PeerCache \<times> PeerEvent list" where
  "subscriber_loop P cache [] = (cache, [])"
| "subscriber_loop P cache (i # is) =
     (case peer_step P cache i of (cache1, es) \<Rightarrow>
        case subscriber_loop P cache1 is of (cache2, es') \<Rightarrow> (cache2, es @ es'))"


section \<open>The invariant\<close>

text \<open>Every entry is filed under its own node, a single subject token other than this node's.\<close>

definition entry_ok :: "string \<Rightarrow> string \<times> PeerEntry \<Rightarrow> bool" where
  "entry_ok self ke \<longleftrightarrow> (case ke of (k, e) \<Rightarrow>
     pe_node_id e = k \<and> k \<noteq> self \<and> k \<noteq> [] \<and> CHR ''.'' \<notin> set k)"

definition cache_ok :: "string \<Rightarrow> PeerCache \<Rightarrow> bool" where
  "cache_ok self cache \<longleftrightarrow> distinct (map fst cache) \<and> list_all (entry_ok self) cache"

lemma cache_ok_Nil [simp]: "cache_ok self []"
  by (simp add: cache_ok_def)

lemma list_all_delete: "list_all P cache \<Longrightarrow> list_all P (AList.delete k cache)"
  by (auto simp: list_all_iff AList.delete_eq)

lemma list_all_update: "list_all P cache \<Longrightarrow> P (k, e) \<Longrightarrow> list_all P (AList.update k e cache)"
  by (induction cache) auto

lemma subject_node_idD:
  "subject_node_id subject = Some node_id \<Longrightarrow> node_id \<noteq> [] \<and> CHR ''.'' \<notin> set node_id"
  by (auto simp: subject_node_id_def split: option.splits if_splits)

lemma on_heartbeat_ok: "cache_ok self cache \<Longrightarrow> cache_ok self (fst (on_heartbeat dec self subject payload i now cache))"
  using subject_node_idD [of subject]
  by (auto simp: on_heartbeat_def cache_ok_def distinct_delete distinct_update Let_def entry_ok_def
      split: option.splits sum.splits intro!: list_all_delete list_all_update)

lemma sweep_peers_keys: "set (map fst (fst (sweep_peers dg ex now cache))) \<subseteq> set (map fst cache)"
proof (induction cache)
  case (Cons ke rest)
  then show ?case
    by (cases ke; cases "sweep_peers dg ex now rest") (auto simp: Let_def split: if_splits)
qed simp

lemma sweep_peers_ok: "cache_ok self cache \<Longrightarrow> cache_ok self (fst (sweep_peers dg ex now cache))"
proof (induction cache rule: sweep_peers.induct)
  case (2 dg ex now node_id entry rest)
  obtain cache deltas where rest: "sweep_peers dg ex now rest = (cache, deltas)"
    by fastforce
  with sweep_peers_keys [of dg ex now rest] have "set (map fst cache) \<subseteq> set (map fst rest)"
    by simp
  moreover have "cache_ok self cache"
    using 2 rest by (simp add: cache_ok_def)
  ultimately show ?case
    using 2 rest by (auto simp: cache_ok_def entry_ok_def Let_def)
qed simp

lemma peer_step_ok: "cache_ok (pp_self P) cache \<Longrightarrow> cache_ok (pp_self P) (fst (peer_step P cache i))"
  by (cases i) (simp_all add: on_heartbeat_ok sweep_peers_ok)


section \<open>What the sweep does to one entry\<close>

lemma sweep_peers_map_of:
  assumes "distinct (map fst cache)"
  shows "map_of (fst (sweep_peers dg ex now cache)) k =
    (case map_of cache k of
       None \<Rightarrow> None
     | Some e \<Rightarrow> if now - pe_last_seen e > as_nanos ex then None
               else Some (e\<lparr>pe_health := health_at dg (now - pe_last_seen e)\<rparr>))"
  using assms
proof (induction cache)
  case (Cons ke rest)
  obtain node entry where ke: "ke = (node, entry)"
    by fastforce
  have "k \<notin> set (map fst (fst (sweep_peers dg ex now rest)))" if "k \<notin> set (map fst rest)"
    using that sweep_peers_keys [of dg ex now rest] by blast
  then have "map_of (fst (sweep_peers dg ex now rest)) k = None" if "k \<notin> set (map fst rest)"
    using that by (simp add: map_of_eq_None_iff)
  with Cons ke show ?case
    by (auto simp: Let_def split: prod.splits if_splits)
qed simp


section \<open>Watchers\<close>

text \<open>
  What somebody who follows the events knows: the health of every peer. The events are exactly
  the difference between two caches when applying them to the one gives the other.
\<close>

definition peer_view :: "PeerCache \<Rightarrow> string \<Rightarrow> PeerHealth option" where
  "peer_view cache k = map_option pe_health (map_of cache k)"

fun apply_event :: "PeerEvent \<Rightarrow> (string \<Rightarrow> PeerHealth option) \<Rightarrow> string \<Rightarrow> PeerHealth option" where
  "apply_event (Joined p) v = v(cp_node_id p := Some (cp_health p))"
| "apply_event (Left node_id) v = v(node_id := None)"
| "apply_event (HealthChanged node_id health) v = v(node_id := Some health)"

text \<open>Events that are news to the one who follows them: each changes what is known.\<close>

fun is_news :: "(string \<Rightarrow> PeerHealth option) \<Rightarrow> PeerEvent \<Rightarrow> bool" where
  "is_news v (Joined p) \<longleftrightarrow> v (cp_node_id p) = None"
| "is_news v (Left node_id) \<longleftrightarrow> v node_id \<noteq> None"
| "is_news v (HealthChanged node_id health) \<longleftrightarrow> v node_id \<noteq> None \<and> v node_id \<noteq> Some health"

fun all_news :: "(string \<Rightarrow> PeerHealth option) \<Rightarrow> PeerEvent list \<Rightarrow> bool" where
  "all_news v [] \<longleftrightarrow> True"
| "all_news v (ev # es) \<longleftrightarrow> is_news v ev \<and> all_news (apply_event ev v) es"

lemma all_news_append [simp]:
  "all_news v (es @ es') \<longleftrightarrow> all_news v es \<and> all_news (fold apply_event es v) es'"
  by (induction es arbitrary: v) simp_all

lemma peer_view_simps [simp]:
  "peer_view [] = Map.empty"
  "peer_view ((k, e) # cache) = (peer_view cache)(k := Some (pe_health e))"
  "peer_view (AList.update k e cache) = (peer_view cache)(k := Some (pe_health e))"
  "peer_view (AList.delete k cache) = (peer_view cache)(k := None)"
  by (auto simp: peer_view_def fun_eq_iff update_conv' delete_conv')

lemma on_heartbeat_view:
  "on_heartbeat dec self subject payload i now cache = (cache', es) \<Longrightarrow>
   fold apply_event es (peer_view cache) = peer_view cache' \<and> all_news (peer_view cache) es"
  by (auto simp: on_heartbeat_def Let_def cluster_peer_def fun_eq_iff split: option.splits sum.splits if_splits)
    (auto simp: peer_view_def)

text \<open>The nodes an event is about, to move it past the entries it does not touch.\<close>

definition event_node :: "PeerEvent \<Rightarrow> string" where
  "event_node ev = (case ev of Joined p \<Rightarrow> cp_node_id p | Left n \<Rightarrow> n | HealthChanged n _ \<Rightarrow> n)"

lemma fold_apply_event_other:
  "\<forall>ev\<in>set es. event_node ev \<noteq> k \<Longrightarrow>
   fold apply_event es (v(k := x)) = (fold apply_event es v)(k := x)"
proof (induction es arbitrary: v)
  case (Cons ev es)
  have "apply_event ev (v(k := x)) = (apply_event ev v)(k := x)"
    using Cons.prems by (cases ev) (auto simp: event_node_def fun_upd_twist)
  moreover have "fold apply_event es ((apply_event ev v)(k := x)) = (fold apply_event es (apply_event ev v))(k := x)"
    by (rule Cons.IH) (use Cons.prems in simp)
  ultimately show ?case
    by (simp only: fold_simps)
qed (simp only: fold_simps)

lemma all_news_other:
  "\<forall>ev\<in>set es. event_node ev \<noteq> k \<Longrightarrow> all_news (v(k := x)) es = all_news v es"
proof (induction es arbitrary: v)
  case (Cons ev es)
  have "apply_event ev (v(k := x)) = (apply_event ev v)(k := x)" "is_news (v(k := x)) ev = is_news v ev"
    using Cons.prems by (cases ev; auto simp: event_node_def fun_upd_twist)+
  with Cons show ?case
    by (simp del: fun_upd_apply)
qed simp

lemma sweep_events_nodes: "ev \<in> set (snd (sweep_peers dg ex now cache)) \<Longrightarrow> event_node ev \<in> set (map fst cache)"
  by (induction cache rule: sweep_peers.induct)
    (auto simp: Let_def event_node_def split: prod.splits if_splits PeerEvent.splits)

lemma sweep_peers_view:
  "distinct (map fst cache) \<Longrightarrow>
   fold apply_event (snd (sweep_peers dg ex now cache)) (peer_view cache) = peer_view (fst (sweep_peers dg ex now cache))
   \<and> all_news (peer_view cache) (snd (sweep_peers dg ex now cache))"
proof (induction cache)
  case (Cons ke rest)
  obtain node entry where ke: "ke = (node, entry)"
    by fastforce
  obtain cache deltas where rest: "sweep_peers dg ex now rest = (cache, deltas)"
    by fastforce
  have new: "node \<notin> set (map fst rest)"
    using Cons.prems ke by simp
  then have other: "\<forall>ev\<in>set deltas. event_node ev \<noteq> node"
    using sweep_events_nodes [of _ dg ex now rest] rest by auto
  have "map_of cache node = None"
    using new sweep_peers_keys [of dg ex now rest] rest by (auto simp: map_of_eq_None_iff)
  then have gone: "(peer_view cache)(node := None) = peer_view cache"
    by (auto simp: peer_view_def fun_eq_iff)
  have IH: "fold apply_event deltas (peer_view rest) = peer_view cache" "all_news (peer_view rest) deltas"
    using Cons rest by simp_all
  consider (gone) "now - pe_last_seen entry > as_nanos ex"
    | (changed) "\<not> now - pe_last_seen entry > as_nanos ex" "pe_health entry \<noteq> health_at dg (now - pe_last_seen entry)"
    | (same) "\<not> now - pe_last_seen entry > as_nanos ex" "pe_health entry = health_at dg (now - pe_last_seen entry)"
    by blast
  then show ?case
    by cases (simp_all add: ke rest Let_def fold_apply_event_other [OF other]
        all_news_other [OF other] IH gone del: fun_upd_apply, simp_all)
qed simp

lemma peer_step_view:
  assumes "cache_ok (pp_self P) cache" "peer_step P cache i = (cache', es)"
  shows "fold apply_event es (peer_view cache) = peer_view cache' \<and> all_news (peer_view cache) es"
proof (cases i)
  case (SweepTick now)
  with assms sweep_peers_view [of cache "pp_degraded_after P" "pp_expiry_after P" now] show ?thesis
    by (simp add: cache_ok_def)
qed (use assms on_heartbeat_view in simp)


section \<open>Properties\<close>

text \<open>
  C7. Whatever heartbeats arrive and whenever the sweeper ticks, the cache files every peer under its
  own name, without this node, and each name is one subject token.
\<close>

theorem subscriber_cache_ok:
  assumes "cache_ok (pp_self P) cache"
  shows "cache_ok (pp_self P) (fst (subscriber_loop P cache is))"
  using assms
proof (induction "is" arbitrary: cache)
  case (Cons i "is")
  obtain cache1 es where step: "peer_step P cache i = (cache1, es)"
    by fastforce
  with peer_step_ok [OF Cons.prems, of i] Cons.IH [of cache1] show ?case
    by (simp add: split_beta)
qed simp

theorem subscriber_cache_ok_witness:
  "cache_ok ''me'' (fst (subscriber_loop
     \<lparr>pp_decode = (\<lambda>_. Inr \<lparr>hb_node_id = ''x'', hb_address = '''', hb_started_at = '''', hb_leaving = False,
          hb_kv_index = True\<rparr>),
      pp_self = ''me'', pp_degraded_after = duration_from_secs 20, pp_expiry_after = duration_from_secs 30\<rparr> []
     [Heartbeat ''mcpg.peers.heartbeat.a'' [] 5 '''']))"
  by (rule subscriber_cache_ok [of "\<lparr>pp_decode = _, pp_self = ''me'', pp_degraded_after = _, pp_expiry_after = _\<rparr>" "[]",
        simplified])

text \<open>
  C6. The events sent to watchers are exactly the changes of the cache: whoever applies them in order
  knows at every moment which peers there are and how healthy, no matter how heartbeats, departures
  and sweeps interleave; and each event is news: nobody joins who is there, nobody leaves who is
  not, and a change of health is one.
\<close>

theorem subscriber_events_complete:
  assumes "cache_ok (pp_self P) cache" "subscriber_loop P cache is = (cache', es)"
  shows "fold apply_event es (peer_view cache) = peer_view cache' \<and> all_news (peer_view cache) es"
  using assms
proof (induction "is" arbitrary: cache cache' es)
  case (Cons i "is")
  obtain cache1 es1 where step: "peer_step P cache i = (cache1, es1)"
    by fastforce
  obtain cache2 es2 where rest: "subscriber_loop P cache1 is = (cache2, es2)"
    by fastforce
  have "cache_ok (pp_self P) cache1"
    using peer_step_ok [OF Cons.prems(1), of i] step by simp
  from Cons.IH [OF this rest] peer_step_view [OF Cons.prems(1) step] Cons.prems(2) step rest
  show ?case by auto
qed simp

theorem subscriber_events_complete_witness:
  "fold apply_event
     [Joined \<lparr>cp_node_id = ''a'', cp_address = '''', cp_last_seen = '''', cp_health = Healthy, cp_roles = []\<rparr>,
      HealthChanged ''a'' Degraded, Left ''a''] Map.empty = peer_view []"
proof -
  let ?P = "\<lparr>pp_decode = (\<lambda>_. Inr \<lparr>hb_node_id = ''x'', hb_address = '''', hb_started_at = '''', hb_leaving = False,
          hb_kv_index = True\<rparr>),
      pp_self = ''me'', pp_degraded_after = duration_from_secs 20, pp_expiry_after = duration_from_secs 30\<rparr>"
  have "subscriber_loop ?P []
     [Heartbeat ''mcpg.peers.heartbeat.a'' [] 5 '''', SweepTick 25000000000, SweepTick 30000000006] =
     ([], [Joined \<lparr>cp_node_id = ''a'', cp_address = '''', cp_last_seen = '''', cp_health = Healthy, cp_roles = []\<rparr>,
      HealthChanged ''a'' Degraded, Left ''a''])"
    by (simp add: on_heartbeat_def subject_node_id_def HEARTBEAT_SUBJECT_PREFIX_def strip_prefix_def
        cluster_peer_def health_at_def as_nanos_def duration_from_secs_def)
  from subscriber_events_complete [OF _ this] show ?thesis
    by simp
qed

text \<open>
  The inputs under which peer \<open>k\<close>, last heard of at \<open>seen\<close>, keeps beating: at each tick its last
  heartbeat is no older than the expiry, and none of its heartbeats says that it leaves.
\<close>

fun beating :: "peer_params \<Rightarrow> string \<Rightarrow> nat \<Rightarrow> peer_input list \<Rightarrow> bool" where
  "beating P k seen [] = True"
| "beating P k seen (SweepTick now # is) = (now - seen \<le> as_nanos (pp_expiry_after P) \<and> beating P k seen is)"
| "beating P k seen (Heartbeat subject payload instant now # is) =
     (if subject_node_id subject = Some k then
        (case pp_decode P payload of
           Inl _ \<Rightarrow> beating P k seen is
         | Inr p \<Rightarrow> \<not> hb_leaving p \<and> beating P k instant is)
      else beating P k seen is)"

lemma on_heartbeat_other:
  "subject_node_id subject \<noteq> Some k \<Longrightarrow>
   map_of (fst (on_heartbeat dec self subject payload i now cache)) k = map_of cache k
   \<and> Left k \<notin> set (snd (on_heartbeat dec self subject payload i now cache))"
  by (auto simp: on_heartbeat_def Let_def update_conv' delete_conv' split: option.splits sum.splits)

lemma sweep_peers_left:
  assumes "distinct (map fst cache)"
  shows "Left k \<in> set (snd (sweep_peers dg ex now cache)) \<longleftrightarrow>
     (\<exists>e. map_of cache k = Some e \<and> as_nanos ex < now - pe_last_seen e)"
  using assms
proof (induction cache)
  case (Cons ke rest)
  obtain node entry where ke: "ke = (node, entry)"
    by fastforce
  obtain cache deltas where rest: "sweep_peers dg ex now rest = (cache, deltas)"
    by fastforce
  have "map_of rest node = None"
    using Cons.prems ke by (simp add: map_of_eq_None_iff)
  with Cons ke rest show ?case
    by (auto simp: Let_def)
qed simp

text \<open>
  C8. A peer that keeps beating within its expiry stays in the cache and no watcher is told that it
  left, whatever else arrives.
\<close>

theorem beating_peer_stays:
  assumes "cache_ok (pp_self P) cache" "map_of cache k = Some e" "beating P k (pe_last_seen e) is"
  shows "map_of (fst (subscriber_loop P cache is)) k \<noteq> None
    \<and> Left k \<notin> set (snd (subscriber_loop P cache is))"
  using assms
proof (induction "is" arbitrary: cache e)
  case (Cons i "is")
  obtain cache1 es where step: "peer_step P cache i = (cache1, es)"
    by fastforce
  have ok1: "cache_ok (pp_self P) cache1"
    using peer_step_ok [OF Cons.prems(1), of i] step by simp
  have dist: "distinct (map fst cache)" and self: "k \<noteq> pp_self P"
    using Cons.prems(1,2) by (auto simp: cache_ok_def list_all_iff entry_ok_def dest!: map_of_SomeD)
  have "\<exists>e1. map_of cache1 k = Some e1 \<and> beating P k (pe_last_seen e1) is \<and> Left k \<notin> set es"
  proof (cases i)
    case (SweepTick now)
    with Cons.prems step dist show ?thesis
      using sweep_peers_map_of [OF dist, of "pp_degraded_after P" "pp_expiry_after P" now k]
        sweep_peers_left [OF dist, of k "pp_degraded_after P" "pp_expiry_after P" now]
      by auto
  next
    case (Heartbeat subject payload instant now)
    show ?thesis
    proof (cases "subject_node_id subject = Some k")
      case True
      with Cons.prems step self Heartbeat show ?thesis
        by (auto simp: on_heartbeat_def Let_def update_conv' split: sum.splits if_splits)
    next
      case False
      with Cons.prems step Heartbeat on_heartbeat_other [OF False, of "pp_decode P" "pp_self P" payload instant now cache]
      show ?thesis by auto
    qed
  qed
  then obtain e1 where e1: "map_of cache1 k = Some e1" "beating P k (pe_last_seen e1) is" "Left k \<notin> set es"
    by blast
  from Cons.IH [OF ok1 e1(1,2)] e1(3) step show ?case
    by (simp add: split_beta)
qed simp

theorem beating_peer_stays_witness:
  "map_of (fst (subscriber_loop
     \<lparr>pp_decode = (\<lambda>_. Inl ''garbled''), pp_self = ''me'', pp_degraded_after = duration_from_secs 20,
      pp_expiry_after = duration_from_secs 30\<rparr>
     [(''a'', \<lparr>pe_node_id = ''a'', pe_address = '''', pe_last_seen = 7, pe_last_seen_rfc3339 = '''',
              pe_health = Healthy, pe_kv_index = True\<rparr>)]
     [SweepTick 30000000000, SweepTick 30000000007])) ''a'' \<noteq> None"
proof -
  let ?P = "\<lparr>pp_decode = (\<lambda>_. Inl ''garbled''), pp_self = ''me'', pp_degraded_after = duration_from_secs 20,
      pp_expiry_after = duration_from_secs 30\<rparr>"
  let ?e = "\<lparr>pe_node_id = ''a'', pe_address = '''', pe_last_seen = 7, pe_last_seen_rfc3339 = '''',
              pe_health = Healthy, pe_kv_index = True\<rparr>"
  have "cache_ok (pp_self ?P) [(''a'', ?e)]"
    by (simp add: cache_ok_def entry_ok_def)
  moreover have "beating ?P ''a'' (pe_last_seen ?e) [SweepTick 30000000000, SweepTick 30000000007]"
    by (simp add: as_nanos_def duration_from_secs_def)
  ultimately have "map_of (fst (subscriber_loop ?P [(''a'', ?e)] [SweepTick 30000000000, SweepTick 30000000007])) ''a'' \<noteq> None
      \<and> Left ''a'' \<notin> set (snd (subscriber_loop ?P [(''a'', ?e)] [SweepTick 30000000000, SweepTick 30000000007]))"
    by (intro beating_peer_stays [of ?P "[(''a'', ?e)]" "''a''" ?e]) auto
  then show ?thesis ..
qed

text \<open>
  C9. A heartbeat moves the entry of the node its subject names and no other, whatever node the
  payload claims to come from: the payload cannot evict, revive or hide another peer.
\<close>

theorem heartbeat_only_subject:
  "map_of (fst (on_heartbeat dec self subject payload i now cache)) k \<noteq> map_of cache k
     \<Longrightarrow> subject = ''mcpg.peers.heartbeat.'' @ k"
proof -
  assume "map_of (fst (on_heartbeat dec self subject payload i now cache)) k \<noteq> map_of cache k"
  then have "subject_node_id subject = Some k"
    using on_heartbeat_other [of subject k dec self payload i now cache] by blast
  then show ?thesis
    by (auto simp: subject_node_id_def HEARTBEAT_SUBJECT_PREFIX_def strip_prefix_eq_Some
        split: option.splits if_splits)
qed

theorem heartbeat_only_subject_witness:
  "map_of (fst (on_heartbeat (\<lambda>_. Inr \<lparr>hb_node_id = ''b'', hb_address = '''', hb_started_at = '''',
       hb_leaving = False, hb_kv_index = True\<rparr>) ''me'' ''mcpg.peers.heartbeat.a'' [] 5 '''' [])) ''a'' \<noteq> None
   \<and> ''mcpg.peers.heartbeat.a'' = ''mcpg.peers.heartbeat.'' @ ''a''"
proof -
  have ne: "map_of (fst (on_heartbeat (\<lambda>_. Inr \<lparr>hb_node_id = ''b'', hb_address = '''', hb_started_at = '''',
       hb_leaving = False, hb_kv_index = True\<rparr>) ''me'' ''mcpg.peers.heartbeat.a'' [] 5 '''' [])) ''a'' \<noteq> map_of [] ''a''"
    by (simp add: on_heartbeat_def subject_node_id_def HEARTBEAT_SUBJECT_PREFIX_def strip_prefix_def Let_def)
  from heartbeat_only_subject [OF ne] ne show ?thesis by simp
qed

text \<open>
  Where the expiry is within the time after which a peer is degraded, which the configuration
  allows, no peer is ever reported degraded: it goes from healthy to gone.
\<close>

lemma never_degraded:
  assumes "distinct (map fst cache)" "as_nanos ex \<le> as_nanos dg"
    and "map_of (fst (sweep_peers dg ex now cache)) k = Some e"
  shows "pe_health e = Healthy"
  using assms sweep_peers_map_of [OF assms(1), of dg ex now k]
  by (auto simp: health_at_def split: option.splits if_splits)

end
