(* ===== verification/Effects.thy ===== *)
theory Effects
  imports Peer_Cache
begin

text \<open>
  How the crate's asynchronous code is modelled. A piece of code that talks to the outside
  is a value of \<open>'a prog\<close>: either it is finished with a result, or it makes one call to
  the outside and goes on with the answer. The calls are the constructors of \<open>'x action\<close>,
  one per entry point of the NATS client, the clocks, and the process-local cells tasks
  share; nothing in a program says how they are answered. What answers them is the
  parameter \<open>'w server\<close>, a record of functions on a world \<open>'w\<close>: \<open>run\<close> plays a
  program against it alone, and \<open>wpr\<close> against it while other clients change the world
  between any two calls (a weakest precondition with a rely and a guarantee).

  A future that is awaited later is modelled by the value it resolves to: the crate never
  looks at one before awaiting it. Logging has no counterpart.
\<close>

section \<open>Errors\<close>

text \<open>\<^verbatim>\<open>mcpg_cluster_api::ClusterError\<close>, the variants the crate constructs.\<close>

datatype ClusterError =
    BackendUnavailable string
  | CasConflict string string
  | Internal string
  | Precondition string
  | InvalidReference string
  | LeaseExpired
  | Timeout

type_synonym 'a res = "ClusterError + 'a"


section \<open>What the client library hands over\<close>

text \<open>\<^verbatim>\<open>async_nats::HeaderMap\<close>: one value per name.\<close>

type_synonym headers = "(string \<times> string) list"

definition hdr_get :: "headers \<Rightarrow> string \<Rightarrow> string option" where
  "hdr_get h name = map_of h name"

definition hdr_insert :: "string \<Rightarrow> string \<Rightarrow> headers \<Rightarrow> headers" where
  "hdr_insert name v h = (name, v) # filter (\<lambda>nv. fst nv \<noteq> name) h"

record raw_message =
  raw_seq :: u64
  raw_headers :: headers
  raw_payload :: bytes

datatype last_result = LastMessage raw_message | NoMessageFound | LastFailed string

text \<open>
  A client error: whether its kind says that the compare-and-set lost, the JetStream error
  codes found along its source chain (\<^verbatim>\<open>None\<close> for a link that is no JetStream error),
  and its text.
\<close>

record client_error =
  ce_wrong_kind :: bool
  ce_chain :: "nat option list"
  ce_text :: string

record delivered_info =
  di_sequence :: u64
  di_pending :: u64
  di_published :: int

record delivery =
  dl_subject :: string
  dl_headers :: "headers option"
  dl_info :: "string + delivered_info"

text \<open>
  What the reader of a consumer gets from one bounded wait: a record, an error of the
  stream, or nothing in time. A reader gets a finite list of them, then the stream ends.
\<close>

datatype next_event = NextRecord delivery | NextError string | NextTimeout

datatype deliver_policy = DeliverAll | ByStartSequence u64

record consumer_config =
  cc_description :: string
  cc_filter_subject :: string
  cc_deliver_policy :: deliver_policy
  cc_rate_limit :: u64

record stream_info =
  si_bytes :: u64
  si_messages :: u64
  si_max_bytes :: int

text \<open>\<^verbatim>\<open>async_nats::jetstream::kv::Store\<close>: the fields the crate reads.\<close>

record kv_store =
  st_name :: string
  st_stream :: string
  st_prefix :: string
  st_put_prefix :: "string option"
  st_use_jetstream_prefix :: bool

text \<open>\<^verbatim>\<open>async_nats::Message\<close>, as a subscription delivers it.\<close>

record nats_message =
  nm_subject :: string
  nm_headers :: "headers option"
  nm_payload :: bytes

text \<open>
  \<^verbatim>\<open>ConnectOptions\<close> as the crate builds it, a JetStream context (its domain), and the
  configurations of a bucket and of a stream.
\<close>

datatype connect_auth =
    AuthToken string
  | AuthUserPassword string string
  | AuthCredentials string

datatype connect_roots = SystemRoots | RootCertificatesFile string | RootCertificates "string list"

record connect_options =
  co_name :: string
  co_connection_timeout :: duration
  co_request_timeout :: duration
  co_auth :: "connect_auth option"
  co_roots :: connect_roots
  co_require_tls :: bool

type_synonym js_context = "string option"

datatype storage_type = FileStorage | MemoryStorage

record kv_config =
  kc_bucket :: string
  kc_max_bytes :: int
  kc_num_replicas :: nat
  kc_storage :: storage_type

record stream_config =
  sc_name :: string
  sc_max_bytes :: int
  sc_num_replicas :: nat
  sc_storage :: storage_type


section \<open>Calls and programs\<close>

text \<open>The calls outside JetStream: core NATS, the connection, and what tasks share.\<close>

datatype 'x node_action =
    LoadText string "string \<Rightarrow> 'x"
  | StoreText string string 'x
  | ReadPeers "PeerCache \<Rightarrow> 'x"
  | NatsPublish string "headers option" bytes "string + unit \<Rightarrow> 'x"
  | NatsFlush "string + unit \<Rightarrow> 'x"
  | NatsSubscribe string "string option" "string + nats_message list \<Rightarrow> 'x"
  | CredentialsFile string "string + string \<Rightarrow> 'x"
  | Connect connect_options "string list" nat "(string + unit) option \<Rightarrow> 'x"
  | GetKeyValue js_context string "string + (kv_store \<times> stream_config) \<Rightarrow> 'x"
  | CreateKeyValue js_context kv_config "string + kv_store \<Rightarrow> 'x"
  | UpdateStream js_context stream_config "string + unit \<Rightarrow> 'x"

datatype 'x action =
    SystemNow "duration option \<Rightarrow> 'x"
  | InstantNow "nat \<Rightarrow> 'x"
  | Sleep nat 'x
  | GetLastRaw string string "last_result \<Rightarrow> 'x"
  | PublishWithHeaders string headers bytes "string + (client_error + u64) \<Rightarrow> 'x"
  | PurgeSubject string string "u64 option" "string + unit \<Rightarrow> 'x"
  | CreateConsumer string consumer_config "string + string \<times> u64 \<Rightarrow> 'x"
  | ConsumerMessages string string "string + next_event list \<Rightarrow> 'x"
  | DeleteConsumer string string 'x
  | InfoWithSubjects string string "string + (string + string) list \<Rightarrow> 'x"
  | StreamInfo string "string + stream_info \<Rightarrow> 'x"
  | KvUpdate kv_store string bytes u64 "client_error + u64 \<Rightarrow> 'x"
  | KvDelete kv_store string "string + unit \<Rightarrow> 'x"
  | KvDeleteExpect kv_store string u64 "client_error + unit \<Rightarrow> 'x"
  | KvKeys kv_store "string + (string + string) list \<Rightarrow> 'x"
  | KvEntry kv_store string "string + bytes option \<Rightarrow> 'x"
  | LoadFlag string "bool \<Rightarrow> 'x"
  | StoreFlag string bool 'x
  | Node "'x node_action"

datatype 'a prog = Done 'a | Do "'a prog action"

text \<open>\<^verbatim>\<open>p.await\<close> followed by the rest, and \<^verbatim>\<open>p.await?\<close>.\<close>

primrec await :: "'a prog \<Rightarrow> ('a \<Rightarrow> 'b prog) \<Rightarrow> 'b prog" where
  "await (Done a) f = f a"
| "await (Do act) f = Do (map_action (\<lambda>p. await p f) act)"

definition await_ok :: "('e + 'a) prog \<Rightarrow> ('a \<Rightarrow> ('e + 'b) prog) \<Rightarrow> ('e + 'b) prog" where
  "await_ok p f = await p (\<lambda>r. case r of Inl e \<Rightarrow> Done (Inl e) | Inr a \<Rightarrow> f a)"

definition map_err :: "('e \<Rightarrow> 'f) \<Rightarrow> 'e + 'a \<Rightarrow> 'f + 'a" where
  "map_err f r = (case r of Inl e \<Rightarrow> Inl (f e) | Inr a \<Rightarrow> Inr a)"


section \<open>The outside\<close>

record 'w server =
  sv_system_now :: "'w \<Rightarrow> duration option \<times> 'w"
  sv_instant_now :: "'w \<Rightarrow> nat \<times> 'w"
  sv_sleep :: "'w \<Rightarrow> nat \<Rightarrow> 'w"
  sv_get_last :: "'w \<Rightarrow> string \<Rightarrow> string \<Rightarrow> last_result \<times> 'w"
  sv_publish :: "'w \<Rightarrow> string \<Rightarrow> headers \<Rightarrow> bytes \<Rightarrow> (string + (client_error + u64)) \<times> 'w"
  sv_purge :: "'w \<Rightarrow> string \<Rightarrow> string \<Rightarrow> u64 option \<Rightarrow> (string + unit) \<times> 'w"
  sv_create_consumer :: "'w \<Rightarrow> string \<Rightarrow> consumer_config \<Rightarrow> (string + string \<times> u64) \<times> 'w"
  sv_messages :: "'w \<Rightarrow> string \<Rightarrow> string \<Rightarrow> (string + next_event list) \<times> 'w"
  sv_delete_consumer :: "'w \<Rightarrow> string \<Rightarrow> string \<Rightarrow> 'w"
  sv_subjects :: "'w \<Rightarrow> string \<Rightarrow> string \<Rightarrow> (string + (string + string) list) \<times> 'w"
  sv_stream_info :: "'w \<Rightarrow> string \<Rightarrow> (string + stream_info) \<times> 'w"
  sv_kv_update :: "'w \<Rightarrow> kv_store \<Rightarrow> string \<Rightarrow> bytes \<Rightarrow> u64 \<Rightarrow> (client_error + u64) \<times> 'w"
  sv_kv_delete :: "'w \<Rightarrow> kv_store \<Rightarrow> string \<Rightarrow> (string + unit) \<times> 'w"
  sv_kv_delete_expect :: "'w \<Rightarrow> kv_store \<Rightarrow> string \<Rightarrow> u64 \<Rightarrow> (client_error + unit) \<times> 'w"
  sv_kv_keys :: "'w \<Rightarrow> kv_store \<Rightarrow> (string + (string + string) list) \<times> 'w"
  sv_kv_entry :: "'w \<Rightarrow> kv_store \<Rightarrow> string \<Rightarrow> (string + bytes option) \<times> 'w"
  sv_load_flag :: "'w \<Rightarrow> string \<Rightarrow> bool \<times> 'w"
  sv_store_flag :: "'w \<Rightarrow> string \<Rightarrow> bool \<Rightarrow> 'w"
  sv_load_text :: "'w \<Rightarrow> string \<Rightarrow> string \<times> 'w"
  sv_store_text :: "'w \<Rightarrow> string \<Rightarrow> string \<Rightarrow> 'w"
  sv_read_peers :: "'w \<Rightarrow> PeerCache \<times> 'w"
  sv_nats_publish :: "'w \<Rightarrow> string \<Rightarrow> headers option \<Rightarrow> bytes \<Rightarrow> (string + unit) \<times> 'w"
  sv_nats_flush :: "'w \<Rightarrow> (string + unit) \<times> 'w"
  sv_nats_subscribe :: "'w \<Rightarrow> string \<Rightarrow> string option \<Rightarrow> (string + nats_message list) \<times> 'w"
  sv_credentials_file :: "'w \<Rightarrow> string \<Rightarrow> (string + string) \<times> 'w"
  sv_connect :: "'w \<Rightarrow> connect_options \<Rightarrow> string list \<Rightarrow> nat \<Rightarrow> (string + unit) option \<times> 'w"
  sv_get_key_value :: "'w \<Rightarrow> js_context \<Rightarrow> string \<Rightarrow> (string + (kv_store \<times> stream_config)) \<times> 'w"
  sv_create_key_value :: "'w \<Rightarrow> js_context \<Rightarrow> kv_config \<Rightarrow> (string + kv_store) \<times> 'w"
  sv_update_stream :: "'w \<Rightarrow> js_context \<Rightarrow> stream_config \<Rightarrow> (string + unit) \<times> 'w"

fun perform_node :: "'w server \<Rightarrow> 'w \<Rightarrow> 'x node_action \<Rightarrow> 'x \<times> 'w" where
  "perform_node S w (LoadText f k) = apfst k (sv_load_text S w f)"
| "perform_node S w (StoreText f t x) = (x, sv_store_text S w f t)"
| "perform_node S w (ReadPeers k) = apfst k (sv_read_peers S w)"
| "perform_node S w (NatsPublish sj h b k) = apfst k (sv_nats_publish S w sj h b)"
| "perform_node S w (NatsFlush k) = apfst k (sv_nats_flush S w)"
| "perform_node S w (NatsSubscribe sj g k) = apfst k (sv_nats_subscribe S w sj g)"
| "perform_node S w (CredentialsFile p k) = apfst k (sv_credentials_file S w p)"
| "perform_node S w (Connect opts servers ms k) = apfst k (sv_connect S w opts servers ms)"
| "perform_node S w (GetKeyValue js n k) = apfst k (sv_get_key_value S w js n)"
| "perform_node S w (CreateKeyValue js c k) = apfst k (sv_create_key_value S w js c)"
| "perform_node S w (UpdateStream js c k) = apfst k (sv_update_stream S w js c)"

fun perform :: "'w server \<Rightarrow> 'w \<Rightarrow> 'x action \<Rightarrow> 'x \<times> 'w" where
  "perform S w (SystemNow k) = apfst k (sv_system_now S w)"
| "perform S w (InstantNow k) = apfst k (sv_instant_now S w)"
| "perform S w (Sleep d x) = (x, sv_sleep S w d)"
| "perform S w (GetLastRaw st sj k) = apfst k (sv_get_last S w st sj)"
| "perform S w (PublishWithHeaders sj h b k) = apfst k (sv_publish S w sj h b)"
| "perform S w (PurgeSubject st f n k) = apfst k (sv_purge S w st f n)"
| "perform S w (CreateConsumer st c k) = apfst k (sv_create_consumer S w st c)"
| "perform S w (ConsumerMessages st c k) = apfst k (sv_messages S w st c)"
| "perform S w (DeleteConsumer st c x) = (x, sv_delete_consumer S w st c)"
| "perform S w (InfoWithSubjects st f k) = apfst k (sv_subjects S w st f)"
| "perform S w (StreamInfo st k) = apfst k (sv_stream_info S w st)"
| "perform S w (KvUpdate st key b n k) = apfst k (sv_kv_update S w st key b n)"
| "perform S w (KvDelete st key k) = apfst k (sv_kv_delete S w st key)"
| "perform S w (KvDeleteExpect st key n k) = apfst k (sv_kv_delete_expect S w st key n)"
| "perform S w (KvKeys st k) = apfst k (sv_kv_keys S w st)"
| "perform S w (KvEntry st key k) = apfst k (sv_kv_entry S w st key)"
| "perform S w (LoadFlag f k) = apfst k (sv_load_flag S w f)"
| "perform S w (StoreFlag f b x) = (x, sv_store_flag S w f b)"
| "perform S w (Node a) = perform_node S w a"

primrec run :: "'w server \<Rightarrow> 'a prog \<Rightarrow> 'w \<Rightarrow> 'a \<times> 'w" where
  "run S (Done a) = (\<lambda>w. (a, w))"
| "run S (Do act) = (\<lambda>w. case perform S w (map_action (run S) act) of (g, w') \<Rightarrow> g w')"


section \<open>Running with interference\<close>

text \<open>
  \<open>wpr S R G p Q w\<close>: started in \<open>w\<close>, with the world changed by steps of \<open>R\<close> before
  every call, each call of \<open>p\<close> changes the world within \<open>G\<close>, and the result and the
  world at the last call satisfy \<open>Q\<close>.
\<close>

primrec wpr ::
  "'w server \<Rightarrow> ('w \<Rightarrow> 'w \<Rightarrow> bool) \<Rightarrow> ('w \<Rightarrow> 'w \<Rightarrow> bool) \<Rightarrow> 'a prog \<Rightarrow>
   ('a \<Rightarrow> 'w \<Rightarrow> bool) \<Rightarrow> 'w \<Rightarrow> bool" where
  "wpr S R G (Done a) = (\<lambda>Q w. Q a w)"
| "wpr S R G (Do act) = (\<lambda>Q w. \<forall>w1. R\<^sup>*\<^sup>* w w1 \<longrightarrow>
     (case perform S w1 (map_action (wpr S R G) act) of (g, w2) \<Rightarrow> G w1 w2 \<and> g Q w2))"

text \<open>
  Several clients at once: a pool of programs over one world, each step one call of one of
  them. A client that has finished stays.
\<close>

inductive pool_step ::
  "'w server \<Rightarrow> ('c \<Rightarrow> 'a prog) \<times> 'w \<Rightarrow> ('c \<Rightarrow> 'a prog) \<times> 'w \<Rightarrow> bool" for S where
  call: "ps c = Do act \<Longrightarrow> perform S w act = (p', w') \<Longrightarrow>
     pool_step S (ps, w) (ps(c := p'), w')"

inductive_cases pool_stepE: "pool_step S (ps, w) (ps', w')"


section \<open>Lemmas\<close>

lemma perform_node_map: "perform_node S w (map_node_action f act) = apfst f (perform_node S w act)"
  by (cases act) (simp_all add: apfst_def map_prod_def comp_def split: prod.splits)

lemma perform_map [simp]: "perform S w (map_action f act) = apfst f (perform S w act)"
  by (cases act) (simp_all add: perform_node_map apfst_def map_prod_def comp_def split: prod.splits)

lemma case_apfst [simp]: "(case apfst f x of (a, b) \<Rightarrow> h a b) = (case x of (a, b) \<Rightarrow> h (f a) b)"
  by (cases x) simp

lemma perform_node_in_set: "perform_node S w act = (p, w') \<Longrightarrow> p \<in> set_node_action act"
  by (cases act) (auto simp: apfst_def map_prod_def split: prod.splits)

lemma perform_in_set: "perform S w act = (p, w') \<Longrightarrow> p \<in> set_action act"
  by (cases act) (auto simp: apfst_def map_prod_def split: prod.splits dest: perform_node_in_set)

lemma run_Do: "run S (Do act) w = (case perform S w act of (p, w') \<Rightarrow> run S p w')"
  by simp

lemma wpr_Do: "wpr S R G (Do act) Q w \<longleftrightarrow>
   (\<forall>w1. R\<^sup>*\<^sup>* w w1 \<longrightarrow> (case perform S w1 act of (p, w2) \<Rightarrow> G w1 w2 \<and> wpr S R G p Q w2))"
  by simp

declare run.simps(2) [simp del] wpr.simps(2) [simp del]

lemma await_assoc: "await (await p f) g = await p (\<lambda>a. await (f a) g)"
proof (induction p)
  case (Do act)
  then show ?case by (simp add: action.map_comp comp_def cong: action.map_cong)
qed simp

lemma run_await [simp]: "run S (await p f) w = (case run S p w of (a, w') \<Rightarrow> run S (f a) w')"
proof (induction p arbitrary: w)
  case (Do act)
  obtain p' w' where pw: "perform S w act = (p', w')"
    by fastforce
  with Do perform_in_set [OF pw] show ?case
    by (simp add: run_Do)
qed simp

lemma wpr_await: "wpr S R G (await p f) Q w \<longleftrightarrow> wpr S R G p (\<lambda>a. wpr S R G (f a) Q) w"
proof (induction p arbitrary: w)
  case (Do act)
  have "wpr S R G (await p' f) Q w2 = wpr S R G p' (\<lambda>a. wpr S R G (f a) Q) w2"
    if "perform S w1 act = (p', w2)" for w1 p' w2
    using perform_in_set [OF that] by (rule Do.IH)
  then show ?case
    by (simp add: wpr_Do split_beta)
qed simp

lemma wpr_mono:
  "wpr S R G p Q w \<Longrightarrow> (\<And>a w. Q a w \<Longrightarrow> Q' a w) \<Longrightarrow> wpr S R G p Q' w"
proof (induction p arbitrary: w)
  case (Do act)
  show ?case
    unfolding wpr_Do
  proof (intro allI impI)
    fix w1 assume R: "R\<^sup>*\<^sup>* w w1"
    obtain p' w2 where pw: "perform S w1 act = (p', w2)"
      by fastforce
    then have mem: "p' \<in> set_action act"
      by (rule perform_in_set)
    from Do.prems(1) R pw have "G w1 w2" "wpr S R G p' Q w2"
      by (auto simp: wpr_Do)
    with Do.IH [OF mem] Do.prems(2) pw
    show "case perform S w1 act of (p, w2) \<Rightarrow> G w1 w2 \<and> wpr S R G p Q' w2"
      by auto
  qed
qed simp

lemma wpr_guarantee:
  "wpr S R G p Q w \<Longrightarrow> (\<And>a b. G a b \<Longrightarrow> G' a b) \<Longrightarrow> wpr S R G' p Q w"
proof (induction p arbitrary: w)
  case (Do act)
  then show ?case
    by (fastforce simp: wpr_Do dest: perform_in_set split: prod.splits)
qed simp

lemma wpr_env:
  assumes "wpr S R G p Q w" and "R w w'" and "\<And>a. Q a w \<Longrightarrow> Q a w'"
  shows "wpr S R G p Q w'"
proof (cases p)
  case (Do act)
  with assms show ?thesis
    by (simp add: wpr_Do) (meson converse_rtranclp_into_rtranclp)
qed (use assms in simp)

text \<open>
  The rule for pools: when what every client guarantees is within what every other one relies
  on, each client's specification survives every interleaving.
\<close>

definition pool_ok ::
  "'w server \<Rightarrow> ('c \<Rightarrow> 'w \<Rightarrow> 'w \<Rightarrow> bool) \<Rightarrow> ('c \<Rightarrow> 'w \<Rightarrow> 'w \<Rightarrow> bool) \<Rightarrow>
   ('c \<Rightarrow> 'a \<Rightarrow> 'w \<Rightarrow> bool) \<Rightarrow> ('c \<Rightarrow> 'a prog) \<times> 'w \<Rightarrow> bool" where
  "pool_ok S R G Q pw \<longleftrightarrow> (\<forall>c. wpr S (R c) (G c) (fst pw c) (Q c) (snd pw))"

lemma pool_step_ok:
  assumes ok: "pool_ok S R G Q pw" and step: "pool_step S pw pw'"
    and compat: "\<And>c d w w'. c \<noteq> d \<Longrightarrow> G c w w' \<Longrightarrow> R d w w'"
    and stable: "\<And>c a w w'. R c w w' \<Longrightarrow> Q c a w \<Longrightarrow> Q c a w'"
  shows "pool_ok S R G Q pw' \<and> (\<exists>c. G c (snd pw) (snd pw'))"
  using step
proof cases
  case (call ps c act w p' w')
  have "wpr S (R c) (G c) (Do act) (Q c) w"
    using ok call unfolding pool_ok_def by (metis fst_conv snd_conv)
  with call have G: "G c w w'" and p': "wpr S (R c) (G c) p' (Q c) w'"
    by (auto simp: wpr_Do)
  have "wpr S (R d) (G d) (ps d) (Q d) w'" if "d \<noteq> c" for d
  proof (rule wpr_env)
    show "wpr S (R d) (G d) (ps d) (Q d) w"
      using ok call by (simp add: pool_ok_def)
    show R: "R d w w'"
      using compat [of c d] G that by auto
    show "Q d a w'" if "Q d a w" for a
      using stable [OF R that] .
  qed
  with p' G call show ?thesis
    by (auto simp: pool_ok_def)
qed

lemma pool_run_ok:
  assumes "(pool_step S)\<^sup>*\<^sup>* pw pw'" and "pool_ok S R G Q pw"
    and compat: "\<And>c d w w'. c \<noteq> d \<Longrightarrow> G c w w' \<Longrightarrow> R d w w'"
    and stable: "\<And>c a w w'. R c w w' \<Longrightarrow> Q c a w \<Longrightarrow> Q c a w'"
  shows "pool_ok S R G Q pw' \<and> (\<lambda>w w'. \<exists>c. G c w w')\<^sup>*\<^sup>* (snd pw) (snd pw')"
  using assms(1)
proof (induction rule: rtranclp_induct)
  case base
  then show ?case using assms(2) by simp
next
  case (step y z)
  then have "pool_ok S R G Q z \<and> (\<exists>c. G c (snd y) (snd z))"
    using pool_step_ok [of S R G Q y z] compat stable by blast
  with step show ?case
    by (auto intro: rtranclp.rtrancl_into_rtrancl)
qed


section \<open>Single calls\<close>

definition system_now :: "duration option prog" where
  "system_now = Do (SystemNow Done)"

definition instant_now :: "nat prog" where
  "instant_now = Do (InstantNow Done)"

definition sleep :: "nat \<Rightarrow> unit prog" where
  "sleep d = Do (Sleep d (Done ()))"

definition get_last_raw :: "string \<Rightarrow> string \<Rightarrow> last_result prog" where
  "get_last_raw st sj = Do (GetLastRaw st sj Done)"

definition publish_with_headers :: "string \<Rightarrow> headers \<Rightarrow> bytes \<Rightarrow> (string + (client_error + u64)) prog" where
  "publish_with_headers sj h b = Do (PublishWithHeaders sj h b Done)"

definition purge_subject :: "string \<Rightarrow> string \<Rightarrow> u64 option \<Rightarrow> (string + unit) prog" where
  "purge_subject st f n = Do (PurgeSubject st f n Done)"

definition create_consumer :: "string \<Rightarrow> consumer_config \<Rightarrow> (string + string \<times> u64) prog" where
  "create_consumer st c = Do (CreateConsumer st c Done)"

definition consumer_messages :: "string \<Rightarrow> string \<Rightarrow> (string + next_event list) prog" where
  "consumer_messages st c = Do (ConsumerMessages st c Done)"

definition delete_consumer :: "string \<Rightarrow> string \<Rightarrow> unit prog" where
  "delete_consumer st c = Do (DeleteConsumer st c (Done ()))"

definition info_with_subjects :: "string \<Rightarrow> string \<Rightarrow> (string + (string + string) list) prog" where
  "info_with_subjects st f = Do (InfoWithSubjects st f Done)"

definition stream_info_call :: "string \<Rightarrow> (string + stream_info) prog" where
  "stream_info_call st = Do (StreamInfo st Done)"

definition kv_update :: "kv_store \<Rightarrow> string \<Rightarrow> bytes \<Rightarrow> u64 \<Rightarrow> (client_error + u64) prog" where
  "kv_update st k b n = Do (KvUpdate st k b n Done)"

definition kv_delete_key :: "kv_store \<Rightarrow> string \<Rightarrow> (string + unit) prog" where
  "kv_delete_key st k = Do (KvDelete st k Done)"

definition kv_delete_expect :: "kv_store \<Rightarrow> string \<Rightarrow> u64 \<Rightarrow> (client_error + unit) prog" where
  "kv_delete_expect st k n = Do (KvDeleteExpect st k n Done)"

definition kv_keys :: "kv_store \<Rightarrow> (string + (string + string) list) prog" where
  "kv_keys st = Do (KvKeys st Done)"

definition kv_entry :: "kv_store \<Rightarrow> string \<Rightarrow> (string + bytes option) prog" where
  "kv_entry st k = Do (KvEntry st k Done)"

definition load_flag :: "string \<Rightarrow> bool prog" where
  "load_flag f = Do (LoadFlag f Done)"

definition store_flag :: "string \<Rightarrow> bool \<Rightarrow> unit prog" where
  "store_flag f b = Do (StoreFlag f b (Done ()))"

definition load_text :: "string \<Rightarrow> string prog" where
  "load_text f = Do (Node (LoadText f Done))"

definition store_text :: "string \<Rightarrow> string \<Rightarrow> unit prog" where
  "store_text f t = Do (Node (StoreText f t (Done ())))"

definition read_peers :: "PeerCache prog" where
  "read_peers = Do (Node (ReadPeers Done))"

definition nats_publish :: "string \<Rightarrow> headers option \<Rightarrow> bytes \<Rightarrow> (string + unit) prog" where
  "nats_publish sj h b = Do (Node (NatsPublish sj h b Done))"

definition nats_flush :: "(string + unit) prog" where
  "nats_flush = Do (Node (NatsFlush Done))"

definition nats_subscribe :: "string \<Rightarrow> string option \<Rightarrow> (string + nats_message list) prog" where
  "nats_subscribe sj g = Do (Node (NatsSubscribe sj g Done))"

definition credentials_file :: "string \<Rightarrow> (string + string) prog" where
  "credentials_file p = Do (Node (CredentialsFile p Done))"

definition connect_within :: "connect_options \<Rightarrow> string list \<Rightarrow> nat \<Rightarrow> (string + unit) option prog" where
  "connect_within opts servers ms = Do (Node (Connect opts servers ms Done))"

definition get_key_value :: "js_context \<Rightarrow> string \<Rightarrow> (string + (kv_store \<times> stream_config)) prog" where
  "get_key_value js n = Do (Node (GetKeyValue js n Done))"

definition create_key_value :: "js_context \<Rightarrow> kv_config \<Rightarrow> (string + kv_store) prog" where
  "create_key_value js c = Do (Node (CreateKeyValue js c Done))"

definition update_stream :: "js_context \<Rightarrow> stream_config \<Rightarrow> (string + unit) prog" where
  "update_stream js c = Do (Node (UpdateStream js c Done))"

lemmas call_defs = system_now_def instant_now_def sleep_def get_last_raw_def
  publish_with_headers_def purge_subject_def create_consumer_def consumer_messages_def
  delete_consumer_def info_with_subjects_def stream_info_call_def kv_update_def
  kv_delete_key_def kv_delete_expect_def kv_keys_def kv_entry_def load_flag_def store_flag_def
  load_text_def store_text_def read_peers_def nats_publish_def nats_flush_def nats_subscribe_def
  credentials_file_def connect_within_def get_key_value_def create_key_value_def update_stream_def

lemma case_pair_Done [simp]: "(case x of (a, b) \<Rightarrow> (a, b)) = x"
  by (cases x) simp

lemma run_calls [simp]:
  "run S system_now w = sv_system_now S w"
  "run S instant_now w = sv_instant_now S w"
  "run S (sleep d) w = ((), sv_sleep S w d)"
  "run S (get_last_raw st sj) w = sv_get_last S w st sj"
  "run S (publish_with_headers sj h b) w = sv_publish S w sj h b"
  "run S (purge_subject st sj n) w = sv_purge S w st sj n"
  "run S (create_consumer st c) w = sv_create_consumer S w st c"
  "run S (consumer_messages st cn) w = sv_messages S w st cn"
  "run S (delete_consumer st cn) w = ((), sv_delete_consumer S w st cn)"
  "run S (info_with_subjects st sj) w = sv_subjects S w st sj"
  "run S (stream_info_call st) w = sv_stream_info S w st"
  "run S (kv_update ks k b m) w = sv_kv_update S w ks k b m"
  "run S (kv_delete_key ks k) w = sv_kv_delete S w ks k"
  "run S (kv_delete_expect ks k m) w = sv_kv_delete_expect S w ks k m"
  "run S (kv_keys ks) w = sv_kv_keys S w ks"
  "run S (kv_entry ks k) w = sv_kv_entry S w ks k"
  "run S (load_flag f) w = sv_load_flag S w f"
  "run S (store_flag f fl) w = ((), sv_store_flag S w f fl)"
  "run S (load_text f) w = sv_load_text S w f"
  "run S (store_text f t) w = ((), sv_store_text S w f t)"
  "run S read_peers w = sv_read_peers S w"
  "run S (nats_publish sj hs b) w = sv_nats_publish S w sj hs b"
  "run S nats_flush w = sv_nats_flush S w"
  "run S (nats_subscribe sj g) w = sv_nats_subscribe S w sj g"
  "run S (credentials_file f) w = sv_credentials_file S w f"
  "run S (connect_within opts servers ms) w = sv_connect S w opts servers ms"
  "run S (get_key_value js sj) w = sv_get_key_value S w js sj"
  "run S (create_key_value js kc) w = sv_create_key_value S w js kc"
  "run S (update_stream js sc) w = sv_update_stream S w js sc"
  by (simp_all add: call_defs run_Do)

lemma run_await_ok [simp]:
  "run S (await_ok p f) w =
     (case run S p w of (r, w') \<Rightarrow> (case r of Inl e \<Rightarrow> (Inl e, w') | Inr a \<Rightarrow> run S (f a) w'))"
  by (auto simp: await_ok_def split: prod.splits sum.splits)

lemma await_ok_assoc: "await_ok (await_ok p f) g = await_ok p (\<lambda>a. await_ok (f a) g)"
  unfolding await_ok_def await_assoc
  by (rule arg_cong [where f = "await p"]) (auto simp: fun_eq_iff split: sum.splits)

lemma await_ok_Done [simp]: "await_ok (Done (Inr a)) f = f a" "await_ok (Done (Inl e)) f = Done (Inl e)"
  by (simp_all add: await_ok_def)

lemma wpr_await_ok:
  "wpr S R G (await_ok p f) Q w \<longleftrightarrow>
     wpr S R G p (\<lambda>r. case r of Inl e \<Rightarrow> Q (Inl e) | Inr a \<Rightarrow> wpr S R G (f a) Q) w"
  unfolding await_ok_def wpr_await by (rule arg_cong [where f = "\<lambda>q. wpr S R G p q w"])
    (auto simp: fun_eq_iff split: sum.splits)

text \<open>One call under interference: the world may change first, then the call is answered.\<close>

lemma wpr_calls:
  "wpr S R G system_now Q w \<longleftrightarrow> (\<forall>w1. R\<^sup>*\<^sup>* w w1 \<longrightarrow>
     (case sv_system_now S w1 of (r, w2) \<Rightarrow> G w1 w2 \<and> Q r w2))"
  "wpr S R G instant_now Q0 w \<longleftrightarrow> (\<forall>w1. R\<^sup>*\<^sup>* w w1 \<longrightarrow>
     (case sv_instant_now S w1 of (r, w2) \<Rightarrow> G w1 w2 \<and> Q0 r w2))"
  "wpr S R G (sleep d) Qu w \<longleftrightarrow> (\<forall>w1. R\<^sup>*\<^sup>* w w1 \<longrightarrow>
     G w1 (sv_sleep S w1 d) \<and> Qu () (sv_sleep S w1 d))"
  "wpr S R G (get_last_raw st sj) Q2 w \<longleftrightarrow> (\<forall>w1. R\<^sup>*\<^sup>* w w1 \<longrightarrow>
     (case sv_get_last S w1 st sj of (r, w2) \<Rightarrow> G w1 w2 \<and> Q2 r w2))"
  "wpr S R G (publish_with_headers sj h b) Q3 w \<longleftrightarrow> (\<forall>w1. R\<^sup>*\<^sup>* w w1 \<longrightarrow>
     (case sv_publish S w1 sj h b of (r, w2) \<Rightarrow> G w1 w2 \<and> Q3 r w2))"
  "wpr S R G (purge_subject st sj n) Q4 w \<longleftrightarrow> (\<forall>w1. R\<^sup>*\<^sup>* w w1 \<longrightarrow>
     (case sv_purge S w1 st sj n of (r, w2) \<Rightarrow> G w1 w2 \<and> Q4 r w2))"
  "wpr S R G (create_consumer st c) Q5 w \<longleftrightarrow> (\<forall>w1. R\<^sup>*\<^sup>* w w1 \<longrightarrow>
     (case sv_create_consumer S w1 st c of (r, w2) \<Rightarrow> G w1 w2 \<and> Q5 r w2))"
  "wpr S R G (consumer_messages st cn) Q6 w \<longleftrightarrow> (\<forall>w1. R\<^sup>*\<^sup>* w w1 \<longrightarrow>
     (case sv_messages S w1 st cn of (r, w2) \<Rightarrow> G w1 w2 \<and> Q6 r w2))"
  "wpr S R G (delete_consumer st cn) Qu w \<longleftrightarrow> (\<forall>w1. R\<^sup>*\<^sup>* w w1 \<longrightarrow>
     G w1 (sv_delete_consumer S w1 st cn) \<and> Qu () (sv_delete_consumer S w1 st cn))"
  "wpr S R G (info_with_subjects st sj) Q8 w \<longleftrightarrow> (\<forall>w1. R\<^sup>*\<^sup>* w w1 \<longrightarrow>
     (case sv_subjects S w1 st sj of (r, w2) \<Rightarrow> G w1 w2 \<and> Q8 r w2))"
  "wpr S R G (stream_info_call st) Q9 w \<longleftrightarrow> (\<forall>w1. R\<^sup>*\<^sup>* w w1 \<longrightarrow>
     (case sv_stream_info S w1 st of (r, w2) \<Rightarrow> G w1 w2 \<and> Q9 r w2))"
  "wpr S R G (kv_update ks k b m) Q10 w \<longleftrightarrow> (\<forall>w1. R\<^sup>*\<^sup>* w w1 \<longrightarrow>
     (case sv_kv_update S w1 ks k b m of (r, w2) \<Rightarrow> G w1 w2 \<and> Q10 r w2))"
  "wpr S R G (kv_delete_key ks k) Q11 w \<longleftrightarrow> (\<forall>w1. R\<^sup>*\<^sup>* w w1 \<longrightarrow>
     (case sv_kv_delete S w1 ks k of (r, w2) \<Rightarrow> G w1 w2 \<and> Q11 r w2))"
  "wpr S R G (kv_delete_expect ks k m) Q12 w \<longleftrightarrow> (\<forall>w1. R\<^sup>*\<^sup>* w w1 \<longrightarrow>
     (case sv_kv_delete_expect S w1 ks k m of (r, w2) \<Rightarrow> G w1 w2 \<and> Q12 r w2))"
  "wpr S R G (kv_keys ks) Q13 w \<longleftrightarrow> (\<forall>w1. R\<^sup>*\<^sup>* w w1 \<longrightarrow>
     (case sv_kv_keys S w1 ks of (r, w2) \<Rightarrow> G w1 w2 \<and> Q13 r w2))"
  "wpr S R G (kv_entry ks k) Q14 w \<longleftrightarrow> (\<forall>w1. R\<^sup>*\<^sup>* w w1 \<longrightarrow>
     (case sv_kv_entry S w1 ks k of (r, w2) \<Rightarrow> G w1 w2 \<and> Q14 r w2))"
  "wpr S R G (load_flag f) Q15 w \<longleftrightarrow> (\<forall>w1. R\<^sup>*\<^sup>* w w1 \<longrightarrow>
     (case sv_load_flag S w1 f of (r, w2) \<Rightarrow> G w1 w2 \<and> Q15 r w2))"
  "wpr S R G (store_flag f fl) Qu w \<longleftrightarrow> (\<forall>w1. R\<^sup>*\<^sup>* w w1 \<longrightarrow>
     G w1 (sv_store_flag S w1 f fl) \<and> Qu () (sv_store_flag S w1 f fl))"
  "wpr S R G (store_text f t) Qu w \<longleftrightarrow> (\<forall>w1. R\<^sup>*\<^sup>* w w1 \<longrightarrow>
     G w1 (sv_store_text S w1 f t) \<and> Qu () (sv_store_text S w1 f t))"
  "wpr S R G (load_text f) Qt w \<longleftrightarrow> (\<forall>w1. R\<^sup>*\<^sup>* w w1 \<longrightarrow>
     (case sv_load_text S w1 f of (r, w2) \<Rightarrow> G w1 w2 \<and> Qt r w2))"
  "wpr S R G read_peers Q16 w \<longleftrightarrow> (\<forall>w1. R\<^sup>*\<^sup>* w w1 \<longrightarrow>
     (case sv_read_peers S w1 of (r, w2) \<Rightarrow> G w1 w2 \<and> Q16 r w2))"
  "wpr S R G (nats_publish sj hs b) Q17 w \<longleftrightarrow> (\<forall>w1. R\<^sup>*\<^sup>* w w1 \<longrightarrow>
     (case sv_nats_publish S w1 sj hs b of (r, w2) \<Rightarrow> G w1 w2 \<and> Q17 r w2))"
  "wpr S R G nats_flush Q18 w \<longleftrightarrow> (\<forall>w1. R\<^sup>*\<^sup>* w w1 \<longrightarrow>
     (case sv_nats_flush S w1 of (r, w2) \<Rightarrow> G w1 w2 \<and> Q18 r w2))"
  "wpr S R G (nats_subscribe sj g) Q19 w \<longleftrightarrow> (\<forall>w1. R\<^sup>*\<^sup>* w w1 \<longrightarrow>
     (case sv_nats_subscribe S w1 sj g of (r, w2) \<Rightarrow> G w1 w2 \<and> Q19 r w2))"
  "wpr S R G (credentials_file f) Q20 w \<longleftrightarrow> (\<forall>w1. R\<^sup>*\<^sup>* w w1 \<longrightarrow>
     (case sv_credentials_file S w1 f of (r, w2) \<Rightarrow> G w1 w2 \<and> Q20 r w2))"
  "wpr S R G (connect_within opts servers ms) Q21 w \<longleftrightarrow> (\<forall>w1. R\<^sup>*\<^sup>* w w1 \<longrightarrow>
     (case sv_connect S w1 opts servers ms of (r, w2) \<Rightarrow> G w1 w2 \<and> Q21 r w2))"
  "wpr S R G (get_key_value js sj) Q22 w \<longleftrightarrow> (\<forall>w1. R\<^sup>*\<^sup>* w w1 \<longrightarrow>
     (case sv_get_key_value S w1 js sj of (r, w2) \<Rightarrow> G w1 w2 \<and> Q22 r w2))"
  "wpr S R G (create_key_value js kc) Q23 w \<longleftrightarrow> (\<forall>w1. R\<^sup>*\<^sup>* w w1 \<longrightarrow>
     (case sv_create_key_value S w1 js kc of (r, w2) \<Rightarrow> G w1 w2 \<and> Q23 r w2))"
  "wpr S R G (update_stream js sc) Q24 w \<longleftrightarrow> (\<forall>w1. R\<^sup>*\<^sup>* w w1 \<longrightarrow>
     (case sv_update_stream S w1 js sc of (r, w2) \<Rightarrow> G w1 w2 \<and> Q24 r w2))"
  by (simp_all add: call_defs wpr_Do)

text \<open>
  Every call a program can make, whatever the answers, satisfies \<open>P\<close>; the calls are given
  without what follows them.
\<close>

primrec all_calls :: "(unit action \<Rightarrow> bool) \<Rightarrow> 'a prog \<Rightarrow> bool" where
  "all_calls P (Done a) = True"
| "all_calls P (Do act) =
     (P (map_action (\<lambda>_. ()) act) \<and> (\<forall>b\<in>set_action (map_action (all_calls P) act). b))"

lemma all_calls_Do:
  "all_calls P (Do act) \<longleftrightarrow> P (map_action (\<lambda>_. ()) act) \<and> (\<forall>p\<in>set_action act. all_calls P p)"
  by (simp add: action.set_map)

lemma all_calls_await [intro]:
  "all_calls P p \<Longrightarrow> (\<And>a. all_calls P (f a)) \<Longrightarrow> all_calls P (await p f)"
proof (induction p)
  case (Do act)
  then show ?case
    by (auto simp: action.set_map action.map_comp comp_def)
qed simp

lemma all_calls_await_ok [intro]:
  "all_calls P p \<Longrightarrow> (\<And>a. all_calls P (f a)) \<Longrightarrow> all_calls P (await_ok p f)"
  unfolding await_ok_def by (rule all_calls_await) (auto split: sum.splits)

text \<open>Every result a program can have satisfies \<open>P\<close>.\<close>

primrec all_results :: "('a \<Rightarrow> bool) \<Rightarrow> 'a prog \<Rightarrow> bool" where
  "all_results P (Done a) = P a"
| "all_results P (Do act) = (\<forall>b\<in>set_action (map_action (all_results P) act). b)"

text \<open>The results a program can have.\<close>

primrec results :: "'a prog \<Rightarrow> 'a set" where
  "results (Done a) = {a}"
| "results (Do act) = \<Union> (set_action (map_action results act))"

lemma all_results_iff: "all_results P p \<longleftrightarrow> (\<forall>a\<in>results p. P a)"
  by (induction p) (auto simp: action.set_map)

lemma all_results_Do: "all_results P (Do act) \<longleftrightarrow> (\<forall>p\<in>set_action act. all_results P p)"
  by (simp add: action.set_map)

lemma all_results_True [simp]: "all_results (\<lambda>_. True) p"
  by (induction p) (auto simp: action.set_map)

lemma all_results_await:
  "all_results Q p \<Longrightarrow> (\<And>a. Q a \<Longrightarrow> all_results P (f a)) \<Longrightarrow> all_results P (await p f)"
  by (induction p) (auto simp: action.set_map)

lemma all_results_await_ok:
  "all_results Q p \<Longrightarrow> (\<And>e. Q (Inl e) \<Longrightarrow> P (Inl e)) \<Longrightarrow> (\<And>a. Q (Inr a) \<Longrightarrow> all_results P (f a)) \<Longrightarrow>
   all_results P (await_ok p f)"
  unfolding await_ok_def by (rule all_results_await [of Q]) (auto split: sum.splits)

lemma all_calls_then:
  "all_calls P p \<Longrightarrow> all_results Q p \<Longrightarrow> (\<And>a. Q a \<Longrightarrow> all_calls P (f a)) \<Longrightarrow> all_calls P (await p f)"
proof (induction p)
  case (Do act)
  then show ?case
    by (auto simp: action.set_map action.map_comp comp_def)
qed simp

lemma pool_steps: "pool_step S x y \<Longrightarrow> (pool_step S)\<^sup>*\<^sup>* y z \<Longrightarrow> (pool_step S)\<^sup>*\<^sup>* x z"
  by (rule converse_rtranclp_into_rtranclp)

text \<open>One client of a pool can run to its end.\<close>

lemma pool_run_one:
  "run S p w = (a, w') \<Longrightarrow> ps c = p \<Longrightarrow> (pool_step S)\<^sup>*\<^sup>* (ps, w) (ps(c := Done a), w')"
proof (induction p arbitrary: w ps)
  case (Done x)
  then show ?case
    by (auto simp: fun_upd_idem)
next
  case (Do act)
  obtain p' w1 where pw: "perform S w act = (p', w1)"
    by fastforce
  have "pool_step S (ps, w) (ps(c := p'), w1)"
    using Do.prems(2) pw by (rule pool_step.call)
  moreover have "(pool_step S)\<^sup>*\<^sup>* (ps(c := p'), w1) ((ps(c := p'))(c := Done a), w')"
    by (rule Do.IH [OF perform_in_set [OF pw]]) (use Do.prems(1) pw in \<open>simp_all add: run_Do\<close>)
  ultimately show ?case
    unfolding fun_upd_upd by (rule converse_rtranclp_into_rtranclp)
qed

lemma wpr_weaken:
  "wpr S R G p Q w \<Longrightarrow> (\<And>a b. R' a b \<Longrightarrow> R a b) \<Longrightarrow> wpr S R' (\<lambda>_ _. True) p Q w"
proof (induction p arbitrary: w)
  case (Do act)
  have R: "R\<^sup>*\<^sup>* a b" if "R'\<^sup>*\<^sup>* a b" for a b
    using that by (induction rule: rtranclp_induct) (auto intro: rtranclp.rtrancl_into_rtrancl Do.prems(2))
  show ?case
    unfolding wpr_Do
  proof (intro allI impI)
    fix w1 assume "R'\<^sup>*\<^sup>* w w1"
    then have "case perform S w1 act of (p, w2) \<Rightarrow> G w1 w2 \<and> wpr S R G p Q w2"
      using Do.prems(1) R by (simp add: wpr_Do)
    moreover obtain p' w2 where pw: "perform S w1 act = (p', w2)"
      by fastforce
    ultimately show "case perform S w1 act of (p, w2) \<Rightarrow> True \<and> wpr S R' (\<lambda>_ _. True) p Q w2"
      using Do.IH [OF perform_in_set [OF pw] _ Do.prems(2)] by simp
  qed
qed simp

text \<open>A program that runs alone is one whose interference does nothing.\<close>

lemma run_of_wpr:
  "wpr S (=) (\<lambda>_ _. True) p Q w \<Longrightarrow> run S p w = (a, w') \<Longrightarrow> Q a w'"
proof (induction p arbitrary: w)
  case (Do act)
  obtain p' w1 where pw: "perform S w act = (p', w1)"
    by fastforce
  then have "p' \<in> set_action act"
    by (rule perform_in_set)
  moreover have "wpr S (=) (\<lambda>_ _. True) p' Q w1"
    using Do.prems(1) pw by (auto simp: wpr_Do)
  moreover have "run S p' w1 = (a, w')"
    using Do.prems(2) pw by (simp add: run_Do)
  ultimately show ?case
    by (rule Do.IH)
qed simp

end
