(* ===== verification/Nats_Record.thy ===== *)
theory Nats_Record
  imports Effects
begin

text \<open>
  Reading the last record of a key from the stream's leader (\<^verbatim>\<open>src/src/record.rs\<close>) and
  recognising a lost compare-and-set (\<^verbatim>\<open>src/src/error.rs\<close>). How a
  \<^verbatim>\<open>KV-Operation\<close> header value is parsed is the client library's business: it is the
  parameter \<open>parse_op\<close>, and \<open>parse_op_ok\<close> states what its documentation says of the
  three values.
\<close>

section \<open>The model\<close>

datatype Operation = Put | Delete | Purge

definition KV_OPERATION_HEADER :: string where
  "KV_OPERATION_HEADER = ''KV-Operation''"

definition NATS_MARKER_REASON :: string where
  "NATS_MARKER_REASON = ''Nats-Marker-Reason''"

definition leader_record_operation :: "(string \<Rightarrow> Operation option) \<Rightarrow> headers \<Rightarrow> Operation" where
  "leader_record_operation parse_op h =
     (case hdr_get h KV_OPERATION_HEADER of
        Some operation \<Rightarrow> (case parse_op operation of None \<Rightarrow> Put | Some op \<Rightarrow> op)
      | None \<Rightarrow>
          (case hdr_get h NATS_MARKER_REASON of
             None \<Rightarrow> Put
           | Some reason \<Rightarrow>
               if reason = ''MaxAge'' \<or> reason = ''Purge'' then Purge
               else if reason = ''Remove'' then Delete
               else Put))"

record Record =
  revision :: u64
  operation :: Operation
  payload :: bytes

definition last_record ::
  "(string \<Rightarrow> Operation option) \<Rightarrow> kv_store \<Rightarrow> string \<Rightarrow> (string + Record option) prog" where
  "last_record parse_op st key =
     await (get_last_raw (st_stream st) (st_prefix st @ key)) (\<lambda>r.
       case r of
         LastMessage m \<Rightarrow>
           Done (Inr (Some \<lparr>revision = raw_seq m,
                            operation = leader_record_operation parse_op (raw_headers m),
                            payload = raw_payload m\<rparr>))
       | NoMessageFound \<Rightarrow> Done (Inr None)
       | LastFailed e \<Rightarrow> Done (Inl e))"

definition STREAM_WRONG_LAST_SEQUENCE :: nat where
  "STREAM_WRONG_LAST_SEQUENCE = 10071"

definition STREAM_WRONG_LAST_SEQUENCE_CONSTANT :: nat where
  "STREAM_WRONG_LAST_SEQUENCE_CONSTANT = 10164"

text \<open>The walk along the source chain stops at the first JetStream error.\<close>

fun is_wrong_last_sequence :: "nat option list \<Rightarrow> bool" where
  "is_wrong_last_sequence [] = False"
| "is_wrong_last_sequence (Some code # _) =
     (code = STREAM_WRONG_LAST_SEQUENCE \<or> code = STREAM_WRONG_LAST_SEQUENCE_CONSTANT)"
| "is_wrong_last_sequence (None # chain) = is_wrong_last_sequence chain"

text \<open>\<^verbatim>\<open>e.kind() == ... || is_wrong_last_sequence(&e)\<close>, the test every write makes.\<close>

definition lost_cas :: "client_error \<Rightarrow> bool" where
  "lost_cas e \<longleftrightarrow> ce_wrong_kind e \<or> is_wrong_last_sequence (ce_chain e)"


section \<open>What the code relies on\<close>

definition parse_op_ok :: "(string \<Rightarrow> Operation option) \<Rightarrow> bool" where
  "parse_op_ok parse_op \<longleftrightarrow>
     parse_op ''DEL'' = Some Delete \<and> parse_op ''PURGE'' = Some Purge \<and> parse_op ''PUT'' = Some Put"

lemma leader_record_operation_put [simp]:
  "hdr_get h KV_OPERATION_HEADER = None \<Longrightarrow> hdr_get h NATS_MARKER_REASON = None \<Longrightarrow>
   leader_record_operation parse_op h = Put"
  by (simp add: leader_record_operation_def)

lemma leader_record_operation_del:
  "parse_op_ok parse_op \<Longrightarrow> hdr_get h KV_OPERATION_HEADER = Some ''DEL'' \<Longrightarrow>
   leader_record_operation parse_op h = Delete"
  by (simp add: leader_record_operation_def parse_op_ok_def)


section \<open>Properties\<close>

text \<open>
  C26. A failed write counts as a lost compare-and-set under either server code, wherever the
  JetStream error sits in the chain of sources, and a chain whose first JetStream error has
  another code does not.
\<close>

theorem is_wrong_last_sequence_iff:
  "is_wrong_last_sequence chain \<longleftrightarrow>
     (\<exists>n code rest. chain = replicate n None @ Some code # rest \<and> code \<in> {10071, 10164})"
proof (induction chain rule: is_wrong_last_sequence.induct)
  case (3 chain)
  show ?case
  proof
    assume "is_wrong_last_sequence (None # chain)"
    with 3 obtain n code rest
      where "chain = replicate n None @ Some code # rest" "code \<in> {10071, 10164}"
      by auto
    then have "None # chain = replicate (Suc n) None @ Some code # rest \<and> code \<in> {10071, 10164}"
      by simp
    then show "\<exists>n code rest. None # chain = replicate n None @ Some code # rest \<and> code \<in> {10071, 10164}"
      by blast
  next
    assume "\<exists>n code rest. None # chain = replicate n None @ Some code # rest \<and> code \<in> {10071, 10164}"
    then obtain n code rest
      where eq: "None # chain = replicate n None @ Some code # rest" and code: "code \<in> {10071, 10164}"
      by blast
    then obtain n' where "n = Suc n'"
      by (cases n) auto
    with eq code 3 show "is_wrong_last_sequence (None # chain)"
      by auto
  qed
next
  case (2 code r)
  have "n = 0 \<and> c = code" if "Some code # r = replicate n None @ Some c # rest" for n c rest
    using that by (cases n) auto
  moreover have "Some code # r = replicate 0 None @ Some code # r"
    by simp
  ultimately show ?case
    unfolding is_wrong_last_sequence.simps STREAM_WRONG_LAST_SEQUENCE_def
      STREAM_WRONG_LAST_SEQUENCE_CONSTANT_def
    by blast
qed simp

end
