(* ===== verification/Value_Codec.thy ===== *)
theory Value_Codec
  imports Effects
begin

text \<open>
  The value envelope of the state buckets and the expiry arithmetic
  (\<^verbatim>\<open>src/src/state/kv.rs\<close>): a value with a time to live is stored behind a marker and its
  absolute expiry; one without is stored as it is.
\<close>

section \<open>The model\<close>

definition TTL_ENVELOPE_MAGIC :: bytes where
  "TTL_ENVELOPE_MAGIC = CHR 0x00 # ''mcpg-kv-ttl'' @ [CHR 0x01]"

definition now_unix_secs :: "u64 prog" where
  "now_unix_secs = await system_now (\<lambda>d. Done (case d of None \<Rightarrow> 0 | Some d \<Rightarrow> dur_secs d))"

text \<open>The sum is a plain addition on \<^verbatim>\<open>u64\<close>: it wraps in a release build.\<close>

definition expires_at_from :: "duration option \<Rightarrow> u64 option prog" where
  "expires_at_from ttl =
     (case ttl of
        None \<Rightarrow> Done None
      | Some d \<Rightarrow> await now_unix_secs (\<lambda>now. Done (Some (now + max (dur_secs d) 1))))"

definition encode_value :: "bytes \<Rightarrow> u64 option \<Rightarrow> bytes" where
  "encode_value v expires_at_secs =
     (case expires_at_secs of
        Some secs \<Rightarrow> TTL_ENVELOPE_MAGIC @ u64_to_be_bytes secs @ v
      | None \<Rightarrow> v)"

definition decode_value :: "bytes \<Rightarrow> bytes \<times> u64 option" where
  "decode_value stored =
     (let off = length TTL_ENVELOPE_MAGIC; header = off + 8 in
      if header \<le> length stored \<and> prefix TTL_ENVELOPE_MAGIC stored
      then (drop header stored, Some (u64_from_be_bytes (take 8 (drop off stored))))
      else (stored, None))"

definition expired_at :: "u64 \<Rightarrow> u64 option \<Rightarrow> bool" where
  "expired_at now expires_at_secs \<longleftrightarrow>
     (case expires_at_secs of None \<Rightarrow> False | Some s \<Rightarrow> s \<le> now)"

definition is_expired :: "u64 option \<Rightarrow> bool prog" where
  "is_expired expires_at_secs =
     (case expires_at_secs of
        None \<Rightarrow> Done False
      | Some s \<Rightarrow> await now_unix_secs (\<lambda>now. Done (expired_at now (Some s))))"

text \<open>The pause is in nanoseconds; \<open>u64\<close> microseconds times 1000.\<close>

definition cas_backoff :: "u32 \<Rightarrow> unit prog" where
  "cas_backoff attempt =
     await system_now (\<lambda>d.
       let nanos = (case d of None \<Rightarrow> 0 | Some d \<Rightarrow> dur_nanos d)
       in sleep ((unat attempt * 500 + nanos mod 700) * 1000))"


section \<open>Lemmas\<close>

lemma length_TTL_ENVELOPE_MAGIC [simp]: "length TTL_ENVELOPE_MAGIC = 13"
  by (simp add: TTL_ENVELOPE_MAGIC_def)

lemma decode_value_Some [simp]: "decode_value (encode_value v (Some secs)) = (v, Some secs)"
  by (simp add: decode_value_def encode_value_def)

lemma decode_value_None: "\<not> prefix TTL_ENVELOPE_MAGIC v \<Longrightarrow> decode_value (encode_value v None) = (v, None)"
  by (simp add: decode_value_def encode_value_def)

lemma decode_value_Nil [simp]: "decode_value [] = ([], None)"
  by (simp add: decode_value_def)

lemma expired_at_simps [simp]: "\<not> expired_at now None" "expired_at now (Some s) \<longleftrightarrow> s \<le> now"
  by (simp_all add: expired_at_def)


section \<open>Properties\<close>

text \<open>
  C25. A stored value reads back as what was stored, with its expiry, in every case but one: a
  value stored without a time to live that itself starts with the envelope marker and is
  long enough to hold a whole header is read back as an enveloped value.
\<close>

theorem value_roundtrip:
  "decode_value (encode_value v e) = (v, e) \<longleftrightarrow>
     \<not> (e = None \<and> prefix TTL_ENVELOPE_MAGIC v \<and> 21 \<le> length v)"
  by (cases e) (auto simp: decode_value_def encode_value_def)

end
