(* ===== verification/Jetstream.thy ===== *)
theory Jetstream
  imports Nats_Record Value_Codec Nats_Subject
begin

text \<open>
  What the crate relies on of the NATS server and client. A KV bucket \<open>b\<close> is a stream
  that keeps the last message of each subject. A \<open>view\<close> \<open>V\<close> says how to read a
  world: \<open>cell V w b k\<close> is the last message of key \<open>k\<close>, \<open>top V w b\<close> the stream's
  last sequence and \<open>clock V w\<close> the Unix time. The locale
  \<open>jetstream\<close> states the documented behaviour of the calls in these terms: a publish with
  an expected last sequence stores exactly when the subject's last sequence is the expected
  one, a stored message gets a sequence above all earlier ones, a purge removes what it
  names, a read returns the last message, and a failed write may or may not have happened
  unless it reports a lost compare-and-set. Nothing is assumed about when calls fail. The
  wall clock is one clock for all clients and does not go back.
\<close>

section \<open>Buckets, subjects, expectations\<close>

definition kv_stream :: "string \<Rightarrow> string" where
  "kv_stream b = ''KV_'' @ b"

definition kv_subject :: "string \<Rightarrow> string \<Rightarrow> string" where
  "kv_subject b k = ''$KV.'' @ b @ ''.'' @ k"

definition bucket_ok :: "string \<Rightarrow> bool" where
  "bucket_ok b \<longleftrightarrow> CHR ''.'' \<notin> set b"

definition plain_key :: "string \<Rightarrow> bool" where
  "plain_key k \<longleftrightarrow> CHR ''*'' \<notin> set k \<and> CHR ''>'' \<notin> set k"

text \<open>The handle the client returns for bucket \<open>b\<close> on a connection without a domain.\<close>

definition store_of :: "string \<Rightarrow> kv_store" where
  "store_of b = \<lparr>st_name = b, st_stream = kv_stream b, st_prefix = kv_subject b [],
     st_put_prefix = None, st_use_jetstream_prefix = False\<rparr>"

definition EXPECTED_LAST_SUBJECT_SEQUENCE :: string where
  "EXPECTED_LAST_SUBJECT_SEQUENCE = ''Nats-Expected-Last-Subject-Sequence''"

definition expects :: "headers \<Rightarrow> u64 option" where
  "expects h = Option.bind (hdr_get h EXPECTED_LAST_SUBJECT_SEQUENCE) parse_u64"

definition last_seq :: "raw_message option \<Rightarrow> u64" where
  "last_seq c = (case c of None \<Rightarrow> 0 | Some m \<Rightarrow> raw_seq m)"

definition meets :: "headers \<Rightarrow> raw_message option \<Rightarrow> bool" where
  "meets h c \<longleftrightarrow> (case expects h of None \<Rightarrow> True | Some e \<Rightarrow> last_seq c = e)"

type_synonym cells = "string \<Rightarrow> string \<Rightarrow> raw_message option"

definition set_cell :: "cells \<Rightarrow> string \<Rightarrow> string \<Rightarrow> raw_message option \<Rightarrow> cells" where
  "set_cell c b k v = c(b := (c b)(k := v))"

lemma set_cell_apply [simp]:
  "set_cell c b k v b' k' = (if b' = b \<and> k' = k then v else c b' k')"
  by (simp add: set_cell_def)

lemma st_of_simps [simp]:
  "st_name (store_of b) = b" "st_stream (store_of b) = kv_stream b"
  "st_prefix (store_of b) = kv_subject b []" "st_put_prefix (store_of b) = None"
  "st_use_jetstream_prefix (store_of b) = False"
  by (simp_all add: store_of_def)

lemma kv_subject_append [simp]: "kv_subject b [] @ k = kv_subject b k"
  by (simp add: kv_subject_def)

lemma last_seq_simps [simp]: "last_seq None = 0" "last_seq (Some m) = raw_seq m"
  by (simp_all add: last_seq_def)


section \<open>The laws\<close>

record 'w view =
  cell :: "'w \<Rightarrow> cells"
  top :: "'w \<Rightarrow> string \<Rightarrow> u64"
  clock :: "'w \<Rightarrow> u64"

text \<open>A call that changes no bucket.\<close>

definition quiet :: "'w view \<Rightarrow> 'w \<Rightarrow> 'w \<Rightarrow> bool" where
  "quiet V w w' \<longleftrightarrow> cell V w' = cell V w \<and> top V w' = top V w \<and> clock V w \<le> clock V w'"

text \<open>
  What anybody can do to the world: sequences only grow, and a message that was not there
  before has a sequence of its own.
\<close>

definition evolves :: "'w view \<Rightarrow> 'w \<Rightarrow> 'w \<Rightarrow> bool" where
  "evolves V w w' \<longleftrightarrow> clock V w \<le> clock V w' \<and> (\<forall>b. top V w b \<le> top V w' b)
     \<and> (\<forall>b k m. cell V w' b k = Some m \<longrightarrow> cell V w b k = Some m \<or> top V w b < raw_seq m)"

text \<open>A message stored under a key, at sequence \<open>n\<close>, where its expectation was met.\<close>

definition stored ::
  "'w view \<Rightarrow> 'w \<Rightarrow> 'w \<Rightarrow> string \<Rightarrow> string \<Rightarrow> headers \<Rightarrow> bytes \<Rightarrow> u64 \<Rightarrow> bool" where
  "stored V w w' b k h p n \<longleftrightarrow> meets h (cell V w b k) \<and> top V w b < n
     \<and> cell V w' = set_cell (cell V w) b k (Some \<lparr>raw_seq = n, raw_headers = h, raw_payload = p\<rparr>)
     \<and> top V w' = (top V w)(b := n) \<and> clock V w \<le> clock V w'"

text \<open>The messages of a key up to a sequence (all of them without one) removed.\<close>

definition purged :: "'w view \<Rightarrow> 'w \<Rightarrow> 'w \<Rightarrow> string \<Rightarrow> string \<Rightarrow> u64 option \<Rightarrow> bool" where
  "purged V w w' b k n \<longleftrightarrow>
     cell V w' = set_cell (cell V w) b k
       (case cell V w b k of
          None \<Rightarrow> None
        | Some m \<Rightarrow> (case n of None \<Rightarrow> None | Some x \<Rightarrow> if raw_seq m < x then None else Some m))
     \<and> top V w' = top V w \<and> clock V w \<le> clock V w'"

definition put_headers :: "headers \<Rightarrow> u64 \<Rightarrow> bool" where
  "put_headers h e \<longleftrightarrow> expects h = Some e \<and> hdr_get h KV_OPERATION_HEADER = None
     \<and> hdr_get h NATS_MARKER_REASON = None"

definition del_headers :: "headers \<Rightarrow> u64 option \<Rightarrow> bool" where
  "del_headers h e \<longleftrightarrow> expects h = e \<and> hdr_get h KV_OPERATION_HEADER = Some ''DEL''"

locale jetstream =
  fixes S :: "'w server" and V :: "'w view"
  assumes seq_bounds: "cell V w b k = Some m \<Longrightarrow> 0 < raw_seq m \<and> raw_seq m \<le> top V w b"
    and now_law: "sv_system_now S w = (now, w') \<Longrightarrow>
           quiet V w w' \<and> (\<exists>x. now = Some x \<and> dur_secs x = clock V w)"
    and instant_law: "sv_instant_now S w = (ins, w') \<Longrightarrow> quiet V w w'"
    and sleep_law: "quiet V w (sv_sleep S w d)"
    and get_law: "bucket_ok b \<Longrightarrow> sv_get_last S w (kv_stream b) (kv_subject b k) = (rg, w') \<Longrightarrow>
           quiet V w w' \<and> (case rg of LastMessage m \<Rightarrow> cell V w b k = Some m
                         | NoMessageFound \<Rightarrow> cell V w b k = None | LastFailed _ \<Rightarrow> True)"
    and publish_law: "bucket_ok b \<Longrightarrow> sv_publish S w (kv_subject b k) h p = (rp, w') \<Longrightarrow>
           (case rp of
              Inl _ \<Rightarrow> quiet V w w'
            | Inr (Inr n) \<Rightarrow> stored V w w' b k h p n
            | Inr (Inl e) \<Rightarrow> if lost_cas e then quiet V w w' \<and> \<not> meets h (cell V w b k)
                             else quiet V w w' \<or> (\<exists>n. stored V w w' b k h p n))"
    and purge_law: "bucket_ok b \<Longrightarrow> plain_key k \<Longrightarrow>
           sv_purge S w (kv_stream b) (kv_subject b k) x = (rx, w') \<Longrightarrow>
           (case rx of Inr _ \<Rightarrow> purged V w w' b k x
            | Inl _ \<Rightarrow> quiet V w w' \<or> purged V w w' b k x)"
    and update_law: "bucket_ok b \<Longrightarrow> sv_kv_update S w (store_of b) k p e = (ru, w') \<Longrightarrow>
           (case ru of
              Inr n \<Rightarrow> \<exists>h. put_headers h e \<and> stored V w w' b k h p n
            | Inl err \<Rightarrow> if lost_cas err then quiet V w w' \<and> last_seq (cell V w b k) \<noteq> e
                        else quiet V w w' \<or> (\<exists>h n. put_headers h e \<and> stored V w w' b k h p n))"
    and delete_expect_law: "bucket_ok b \<Longrightarrow>
           sv_kv_delete_expect S w (store_of b) k e = (rd, w') \<Longrightarrow>
           (case rd of
              Inr _ \<Rightarrow> \<exists>h n. del_headers h (Some e) \<and> stored V w w' b k h [] n
            | Inl err \<Rightarrow> if lost_cas err then quiet V w w' \<and> last_seq (cell V w b k) \<noteq> e
                        else quiet V w w' \<or> (\<exists>h n. del_headers h (Some e) \<and> stored V w w' b k h [] n))"
    and delete_law: "bucket_ok b \<Longrightarrow> sv_kv_delete S w (store_of b) k = (rk, w') \<Longrightarrow>
           (case rk of
              Inr _ \<Rightarrow> \<exists>h n. del_headers h None \<and> stored V w w' b k h [] n
            | Inl _ \<Rightarrow> quiet V w w' \<or> (\<exists>h n. del_headers h None \<and> stored V w w' b k h [] n))"
    and info_law: "sv_stream_info S w st = (ri, w') \<Longrightarrow> quiet V w w'"
    and load_flag_law: "sv_load_flag S w f = (rf, w') \<Longrightarrow> quiet V w w'"
    and store_flag_law: "quiet V w (sv_store_flag S w f fl)"
    and node_law: "perform_node S w (nact :: unit node_action) = (pn, w') \<Longrightarrow> quiet V w w'"
    and evolve_law: "perform S w (act :: unit action) = (pa, w') \<Longrightarrow> evolves V w w'"
begin

text \<open>A sequence names a message: while it stands, the cell is the one that was read.\<close>

lemma same_seq_same_message:
  assumes "evolves V w w'" "cell V w b k = Some m" "cell V w' b k = Some m'" "raw_seq m' = raw_seq m"
  shows "m' = m"
proof -
  have "raw_seq m \<le> top V w b"
    using seq_bounds assms(2) by blast
  with assms show ?thesis
    unfolding evolves_def by (metis leD option.inject)
qed

lemma evolve: "perform S w act = (x, w') \<Longrightarrow> evolves V w w'"
  using evolve_law [of w "map_action (\<lambda>_. ()) act"] by simp

lemma node_quiet: "perform_node S w nact = (x, w') \<Longrightarrow> quiet V w w'"
  using node_law [of w "map_node_action (\<lambda>_. ()) nact"] by (simp add: perform_node_map)

lemma store_text_law: "quiet V w (sv_store_text S w f t)"
  using node_law [of w "StoreText f t ()"] by simp

lemma last_seq_zero: "last_seq (cell V w b k) = 0 \<longleftrightarrow> cell V w b k = None"
  using seq_bounds [of w b k] by (cases "cell V w b k") auto

end

lemma quietD:
  assumes "quiet V w w'"
  shows "cell V w' = cell V w" "top V w' = top V w" "clock V w \<le> clock V w'"
  using assms by (simp_all add: quiet_def)

lemma quiet_refl [simp]: "quiet V w w"
  by (simp add: quiet_def)

lemma quiet_trans: "quiet V w w1 \<Longrightarrow> quiet V w1 w2 \<Longrightarrow> quiet V w w2"
  by (auto simp: quiet_def)

lemma evolves_refl: "evolves V w w"
  by (simp add: evolves_def)

lemma evolves_trans: "evolves V w w1 \<Longrightarrow> evolves V w1 w2 \<Longrightarrow> evolves V w w2"
  unfolding evolves_def by (meson le_less_trans order.trans)

lemma evolves_rtrancl: "(evolves V)\<^sup>*\<^sup>* w w' \<Longrightarrow> evolves V w w'"
  by (induction rule: rtranclp_induct) (auto intro: evolves_refl evolves_trans)

lemma storedD:
  assumes "stored V w w' b k h p n"
  shows "cell V w' b k = Some \<lparr>raw_seq = n, raw_headers = h, raw_payload = p\<rparr>"
    and "b' \<noteq> b \<or> k' \<noteq> k \<Longrightarrow> cell V w' b' k' = cell V w b' k'"
    and "meets h (cell V w b k)" and "clock V w \<le> clock V w'"
  using assms by (auto simp: stored_def)

lemma quiet_evolves: "quiet V w w' \<Longrightarrow> evolves V w w'"
  by (simp add: quiet_def evolves_def)

lemma stored_evolves: "stored V w w' b k h p n \<Longrightarrow> evolves V w w'"
  by (auto simp: stored_def evolves_def)

lemma purged_evolves: "purged V w w' b k n \<Longrightarrow> evolves V w w'"
  by (auto simp: purged_def evolves_def split: option.splits if_splits)

text \<open>What can happen between two calls of a client: interference, and quiet calls of its own.\<close>

definition reach :: "'w view \<Rightarrow> ('w \<Rightarrow> 'w \<Rightarrow> bool) \<Rightarrow> 'w \<Rightarrow> 'w \<Rightarrow> bool" where
  "reach V R = (\<lambda>a b. R a b \<or> quiet V a b)\<^sup>*\<^sup>*"

lemma reach_refl [simp]: "reach V R w w"
  by (simp add: reach_def)

lemma reach_trans: "reach V R w w1 \<Longrightarrow> reach V R w1 w2 \<Longrightarrow> reach V R w w2"
  by (simp add: reach_def)

lemma reach_env: "R\<^sup>*\<^sup>* w w1 \<Longrightarrow> reach V R w w1"
  unfolding reach_def by (rule rtranclp_mono [THEN predicate2D]) auto

lemma reach_quiet: "quiet V w w1 \<Longrightarrow> reach V R w w1"
  unfolding reach_def by (rule r_into_rtranclp) simp

lemma reach_step: "R\<^sup>*\<^sup>* w w1 \<Longrightarrow> quiet V w1 w2 \<Longrightarrow> reach V R w w2"
  by (blast intro: reach_env reach_quiet reach_trans)

lemma reach_alone: "reach V (=) w w' \<longleftrightarrow> quiet V w w'"
proof
  show "reach V (=) w w' \<Longrightarrow> quiet V w w'"
    unfolding reach_def by (induction rule: rtranclp_induct) (auto intro: quiet_trans)
qed (rule reach_quiet)

lemma reach_evolves:
  assumes "reach V R w w'" and "\<And>a b. R a b \<Longrightarrow> evolves V a b"
  shows "evolves V w w'"
  using assms(1) unfolding reach_def
  by (induction rule: rtranclp_induct) (auto intro: assms(2) evolves_refl evolves_trans quiet_evolves)

text \<open>A step that changes no record outside the keys \<open>K\<close> of bucket \<open>b\<close>.\<close>

definition only :: "'w view \<Rightarrow> string \<Rightarrow> string set \<Rightarrow> 'w \<Rightarrow> 'w \<Rightarrow> bool" where
  "only V b K w w' \<longleftrightarrow> evolves V w w'
     \<and> (\<forall>b' k'. b' \<noteq> b \<or> k' \<notin> K \<longrightarrow> cell V w' b' k' = cell V w b' k')"

lemma only_quiet: "quiet V w w' \<Longrightarrow> only V b K w w'"
  by (simp add: only_def quiet_evolves quietD)

lemma only_stored: "stored V w w' b k h p n \<Longrightarrow> k \<in> K \<Longrightarrow> only V b K w w'"
  by (auto simp: only_def stored_evolves) (auto simp: stored_def)

lemma only_purged: "purged V w w' b k n \<Longrightarrow> k \<in> K \<Longrightarrow> only V b K w w'"
  by (auto simp: only_def purged_evolves) (auto simp: purged_def)

lemma only_trans: "only V b K w w1 \<Longrightarrow> only V b K w1 w2 \<Longrightarrow> only V b K w w2"
  by (auto simp: only_def intro: evolves_trans)

lemma only_then_quiet: "only V b K w w1 \<Longrightarrow> quiet V w1 w2 \<Longrightarrow> only V b K w w2"
  by (rule only_trans [OF _ only_quiet])

lemma quiet_then_only: "quiet V w w1 \<Longrightarrow> only V b K w1 w2 \<Longrightarrow> only V b K w w2"
  by (rule only_trans [OF only_quiet])

lemma only_refl [simp]: "only V b K w w"
  by (simp add: only_def evolves_refl)

lemma only_mono: "only V b K w w' \<Longrightarrow> K \<subseteq> K' \<Longrightarrow> only V b K' w w'"
  by (auto simp: only_def)

lemma only_evolves: "only V b K w w' \<Longrightarrow> evolves V w w'"
  by (simp add: only_def)

lemma only_clock: "only V b K w w' \<Longrightarrow> clock V w \<le> clock V w'"
  by (simp add: only_def evolves_def)

lemma only_cell: "only V b K w w' \<Longrightarrow> k \<notin> K \<Longrightarrow> cell V w' b k = cell V w b k"
  by (simp add: only_def)

definition reach_only ::
  "'w view \<Rightarrow> ('w \<Rightarrow> 'w \<Rightarrow> bool) \<Rightarrow> string \<Rightarrow> string set \<Rightarrow> 'w \<Rightarrow> 'w \<Rightarrow> bool" where
  "reach_only V R b K = (\<lambda>w w'. R w w' \<or> only V b K w w')\<^sup>*\<^sup>*"

lemma reach_only_refl [simp]: "reach_only V R b K w w"
  by (simp add: reach_only_def)

lemma reach_only_trans:
  "reach_only V R b K w w1 \<Longrightarrow> reach_only V R b K w1 w2 \<Longrightarrow> reach_only V R b K w w2"
  by (simp add: reach_only_def)

lemma reach_only_step: "only V b K w w' \<Longrightarrow> reach_only V R b K w w'"
  unfolding reach_only_def by (rule r_into_rtranclp) simp

lemma reach_only_mono: "reach_only V R b K w w' \<Longrightarrow> K \<subseteq> K' \<Longrightarrow> reach_only V R b K' w w'"
  unfolding reach_only_def
  by (rule rtranclp_mono [THEN predicate2D]) (auto intro: only_mono)

lemma reach_only_reach: "reach V R w w' \<Longrightarrow> reach_only V R b K w w'"
  unfolding reach_def reach_only_def
  by (rule rtranclp_mono [THEN predicate2D]) (auto intro: only_quiet)

lemma reach_only_alone: "reach_only V (=) b K w w' \<Longrightarrow> only V b K w w'"
  unfolding reach_only_def by (induction rule: rtranclp_induct) (auto intro: only_trans)

lemma reach_only_alone_iff: "reach_only V (=) b K w w' \<longleftrightarrow> only V b K w w'"
  by (rule iffI [OF reach_only_alone reach_only_step])

lemma reach_only_evolves:
  assumes "reach_only V R b K w w'" and "\<And>a c. R a c \<Longrightarrow> evolves V a c"
  shows "evolves V w w'"
  using assms(1) unfolding reach_only_def
  by (induction rule: rtranclp_induct) (auto intro: assms(2) evolves_refl evolves_trans only_evolves)


section \<open>Calls under interference\<close>

text \<open>
  The rules for single calls: whatever happened before the call, what the law says of it
  establishes the postcondition.
\<close>

definition get_outcome :: "'w view \<Rightarrow> 'w \<Rightarrow> string \<Rightarrow> string \<Rightarrow> last_result \<Rightarrow> bool" where
  "get_outcome V w b k r \<longleftrightarrow>
     (case r of LastMessage m \<Rightarrow> cell V w b k = Some m
      | NoMessageFound \<Rightarrow> cell V w b k = None | LastFailed _ \<Rightarrow> True)"

definition publish_outcome ::
  "'w view \<Rightarrow> 'w \<Rightarrow> 'w \<Rightarrow> string \<Rightarrow> string \<Rightarrow> headers \<Rightarrow> bytes \<Rightarrow> client_error + u64 \<Rightarrow> bool" where
  "publish_outcome V w w' b k h p r \<longleftrightarrow>
     (case r of
        Inr n \<Rightarrow> stored V w w' b k h p n
      | Inl e \<Rightarrow> if lost_cas e then quiet V w w' \<and> \<not> meets h (cell V w b k)
                else quiet V w w' \<or> (\<exists>n. stored V w w' b k h p n))"

definition purge_outcome ::
  "'w view \<Rightarrow> 'w \<Rightarrow> 'w \<Rightarrow> string \<Rightarrow> string \<Rightarrow> u64 option \<Rightarrow> 'e + 'a \<Rightarrow> bool" where
  "purge_outcome V w w' b k x r \<longleftrightarrow>
     (case r of Inr _ \<Rightarrow> purged V w w' b k x | Inl _ \<Rightarrow> quiet V w w' \<or> purged V w w' b k x)"

lemma publish_outcome_only:
  "publish_outcome V w w' b k h p r \<Longrightarrow> k \<in> K \<Longrightarrow> only V b K w w'"
  by (auto simp: publish_outcome_def only_quiet only_stored split: sum.splits if_splits)

lemma purge_outcome_only:
  "purge_outcome V w w' b k n r \<Longrightarrow> k \<in> K \<Longrightarrow> only V b K w w'"
  by (auto simp: purge_outcome_def only_quiet only_purged split: sum.splits if_splits)

context jetstream
begin

lemma wpr_system_now:
  assumes "\<And>w1 w2 x. R\<^sup>*\<^sup>* w w1 \<Longrightarrow> quiet V w1 w2 \<Longrightarrow> dur_secs x = clock V w1 \<Longrightarrow>
             G w1 w2 \<and> Q (Some x) w2"
  shows "wpr S R G system_now Q w"
  unfolding wpr_calls
proof (intro allI impI)
  fix w1 assume R: "R\<^sup>*\<^sup>* w w1"
  obtain r w2 where e: "sv_system_now S w1 = (r, w2)"
    by fastforce
  with assms [OF R] now_law [OF e] show "case sv_system_now S w1 of (r, w2) \<Rightarrow> G w1 w2 \<and> Q r w2"
    by auto
qed

lemma wpr_sleep:
  assumes "\<And>w1 w2. R\<^sup>*\<^sup>* w w1 \<Longrightarrow> quiet V w1 w2 \<Longrightarrow> G w1 w2 \<and> Q () w2"
  shows "wpr S R G (sleep d) Q w"
  unfolding wpr_calls using assms sleep_law by blast

lemma wpr_get_last_raw:
  assumes "bucket_ok b"
    and "\<And>w1 w2 r. R\<^sup>*\<^sup>* w w1 \<Longrightarrow> quiet V w1 w2 \<Longrightarrow> get_outcome V w1 b k r \<Longrightarrow> G w1 w2 \<and> Q r w2"
  shows "wpr S R G (get_last_raw (kv_stream b) (kv_subject b k)) Q w"
  unfolding wpr_calls
proof (intro allI impI)
  fix w1 assume R: "R\<^sup>*\<^sup>* w w1"
  obtain r w2 where e: "sv_get_last S w1 (kv_stream b) (kv_subject b k) = (r, w2)"
    by fastforce
  with assms(2) [OF R, of w2 r] get_law [OF assms(1) e]
  show "case sv_get_last S w1 (kv_stream b) (kv_subject b k) of (r, w2) \<Rightarrow> G w1 w2 \<and> Q r w2"
    by (simp add: get_outcome_def)
qed

lemma wpr_publish_with_headers:
  assumes "bucket_ok b"
    and "\<And>w1 w2 e. R\<^sup>*\<^sup>* w w1 \<Longrightarrow> quiet V w1 w2 \<Longrightarrow> G w1 w2 \<and> Q (Inl e) w2"
    and "\<And>w1 w2 r. R\<^sup>*\<^sup>* w w1 \<Longrightarrow> publish_outcome V w1 w2 b k h p r \<Longrightarrow> G w1 w2 \<and> Q (Inr r) w2"
  shows "wpr S R G (publish_with_headers (kv_subject b k) h p) Q w"
  unfolding wpr_calls
proof (intro allI impI)
  fix w1 assume R: "R\<^sup>*\<^sup>* w w1"
  obtain r w2 where e: "sv_publish S w1 (kv_subject b k) h p = (r, w2)"
    by fastforce
  show "case sv_publish S w1 (kv_subject b k) h p of (r, w2) \<Rightarrow> G w1 w2 \<and> Q r w2"
  proof (cases r)
    case (Inl a)
    with publish_law [OF assms(1) e] e assms(2) [OF R, of w2] show ?thesis
      by simp
  next
    case (Inr a)
    with publish_law [OF assms(1) e] have "publish_outcome V w1 w2 b k h p a"
      by (simp add: publish_outcome_def)
    with assms(3) [OF R] e Inr show ?thesis
      by simp
  qed
qed

lemma wpr_purge_subject:
  assumes "bucket_ok b" "plain_key k"
    and "\<And>w1 w2 r. R\<^sup>*\<^sup>* w w1 \<Longrightarrow> purge_outcome V w1 w2 b k n r \<Longrightarrow> G w1 w2 \<and> Q r w2"
  shows "wpr S R G (purge_subject (kv_stream b) (kv_subject b k) n) Q w"
  unfolding wpr_calls
proof (intro allI impI)
  fix w1 assume R: "R\<^sup>*\<^sup>* w w1"
  obtain r w2 where e: "sv_purge S w1 (kv_stream b) (kv_subject b k) n = (r, w2)"
    by fastforce
  with assms(3) [OF R, of w2 r] purge_law [OF assms(1,2) e]
  show "case sv_purge S w1 (kv_stream b) (kv_subject b k) n of (r, w2) \<Rightarrow> G w1 w2 \<and> Q r w2"
    by (simp add: purge_outcome_def split: sum.splits)
qed

lemma wpr_conj_evolves:
  assumes "wpr S R G p Q w" "\<And>a c. R a c \<Longrightarrow> evolves V a c" "evolves V w0 w"
  shows "wpr S R G p (\<lambda>a w'. Q a w' \<and> evolves V w0 w') w"
  using assms(1,3)
proof (induction p arbitrary: w)
  case (Do act)
  show ?case
    unfolding wpr_Do
  proof (intro allI impI)
    fix w1 assume R1: "R\<^sup>*\<^sup>* w w1"
    obtain p' w2 where pw: "perform S w1 act = (p', w2)"
      by fastforce
    have "evolves V w0 w2"
      using evolves_trans [OF evolves_trans [OF Do.prems(2) reach_evolves [OF reach_env [OF R1] assms(2)]] evolve [OF pw]] .
    with Do.IH [OF perform_in_set [OF pw]] Do.prems(1) R1 pw
    show "case perform S w1 act of (p, w2) \<Rightarrow> G w1 w2 \<and> wpr S R G p (\<lambda>a w'. Q a w' \<and> evolves V w0 w') w2"
      by (auto simp: wpr_Do)
  qed
qed simp

lemma wpr_now:
  assumes "\<And>w1 w2. R\<^sup>*\<^sup>* w w1 \<Longrightarrow> quiet V w1 w2 \<Longrightarrow> G w1 w2 \<and> Q (clock V w1) w2"
  shows "wpr S R G now_unix_secs Q w"
  unfolding now_unix_secs_def wpr_await
  by (rule wpr_system_now) (use assms in auto)

lemma wpr_last_record:
  assumes "bucket_ok b" and "st = store_of b"
    and "\<And>w1 w2 e. R\<^sup>*\<^sup>* w w1 \<Longrightarrow> quiet V w1 w2 \<Longrightarrow> G w1 w2 \<and> Q (Inl e) w2"
    and "\<And>w1 w2. R\<^sup>*\<^sup>* w w1 \<Longrightarrow> quiet V w1 w2 \<Longrightarrow>
           G w1 w2 \<and> Q (Inr (map_option (\<lambda>m. \<lparr>revision = raw_seq m,
             operation = leader_record_operation po (raw_headers m), payload = raw_payload m\<rparr>)
               (cell V w1 b k))) w2"
  shows "wpr S R G (last_record po st k) Q w"
  unfolding last_record_def assms(2) st_of_simps kv_subject_append wpr_await
proof (rule wpr_get_last_raw [OF assms(1)])
  fix w1 w2 r
  assume R: "R\<^sup>*\<^sup>* w w1" and q: "quiet V w1 w2" and g: "get_outcome V w1 b k r"
  show "G w1 w2 \<and> wpr S R G (case r of
          LastMessage m \<Rightarrow> Done (Inr (Some \<lparr>revision = raw_seq m,
             operation = leader_record_operation po (raw_headers m), payload = raw_payload m\<rparr>))
        | NoMessageFound \<Rightarrow> Done (Inr None) | LastFailed e \<Rightarrow> Done (Inl e)) Q w2"
    using assms(3,4) [OF R q] g by (cases r) (auto simp: get_outcome_def)
qed

end


section \<open>The monotonic clock\<close>

text \<open>A clock that never goes back, and that a pause moves by its length.\<close>

locale steady_clock =
  fixes S :: "'w server" and nanos :: "'w \<Rightarrow> nat"
  assumes instant_reads: "sv_instant_now S w = (t, w') \<Longrightarrow> t = nanos w"
    and sleep_passes: "nanos w + d \<le> nanos (sv_sleep S w d)"
    and steady_law: "perform S w (act :: unit action) = (x, w') \<Longrightarrow> nanos w \<le> nanos w'"
begin

lemma steady: "perform S w act = (x, w') \<Longrightarrow> nanos w \<le> nanos w'"
  using steady_law [of w "map_action (\<lambda>_. ()) act"] by simp

abbreviation passes :: "'w \<Rightarrow> 'w \<Rightarrow> bool" where
  "passes a b \<equiv> nanos a \<le> nanos b"

lemma passes_rtranclp: "passes\<^sup>*\<^sup>* w w' \<Longrightarrow> nanos w \<le> nanos w'"
  by (induction rule: rtranclp_induct) auto

lemma wpr_passes: "n \<le> nanos w \<Longrightarrow> wpr S passes (\<lambda>_ _. True) p (\<lambda>_ w'. n \<le> nanos w') w"
proof (induction p arbitrary: w)
  case (Do act)
  show ?case
    unfolding wpr_Do
  proof (intro allI impI)
    fix w1 assume w1: "passes\<^sup>*\<^sup>* w w1"
    obtain p' w2 where pw: "perform S w1 act = (p', w2)"
      by fastforce
    have "n \<le> nanos w2"
      using Do.prems passes_rtranclp [OF w1] steady [OF pw] by simp
    with Do.IH [OF perform_in_set [OF pw]] pw
    show "case perform S w1 act of (p, w2) \<Rightarrow> True \<and> wpr S passes (\<lambda>_ _. True) p (\<lambda>_ w'. n \<le> nanos w') w2"
      by simp
  qed
qed simp

end

end
