(* ===== verification/Kv_Store.thy ===== *)
theory Kv_Store
  imports Key_Index Jetstream
begin

text \<open>
  The building blocks of the state store (\<^verbatim>\<open>src/src/state/kv.rs\<close>): the handle, reading a
  key as a slot, publishing data, marker and index records, purging them, and the index state
  record. The operations of the store are in \<open>Kv_Ops\<close>, its scans in \<open>Kv_Scan\<close>.
\<close>

section \<open>The model\<close>

text \<open>
  Functions of \<^verbatim>\<open>mcpg_cluster_api\<close> and of the client library that the store calls,
  parameters of the operations that use them.
\<close>

record externals =
  ext_parse_op :: "string \<Rightarrow> Operation option"
  ext_parse_counter :: "bytes \<Rightarrow> i64 res"
  ext_floor_add :: "i64 \<Rightarrow> i64 \<Rightarrow> i64 \<Rightarrow> i64 res"
  ext_counter_overflow :: ClusterError

text \<open>
  The connection and the JetStream context are what the calls go to. The
  \<^verbatim>\<open>index_ready\<close> cell is the flag named after the bucket.
\<close>

record NatsKv =
  store :: kv_store
  write_prefix :: string
  kv_purge_reads_every_block :: bool

fun split_non_digits :: "string \<Rightarrow> string list" where
  "split_non_digits [] = [[]]"
| "split_non_digits (c # s) =
     (if is_ascii_digit c
      then (case split_non_digits s of [] \<Rightarrow> [[c]] | t # ts \<Rightarrow> (c # t) # ts)
      else [] # split_non_digits s)"

definition purge_reads_every_block :: "string \<Rightarrow> bool" where
  "purge_reads_every_block version =
     (case map parse_u32 (split_non_digits version) of
        Some major # Some minor # _ \<Rightarrow> major < 2 \<or> major = 2 \<and> minor < 14
      | _ \<Rightarrow> True)"

text \<open>\<open>server_version\<close> is the version the connected server announced.\<close>

definition NatsKv_new :: "kv_store \<Rightarrow> string \<Rightarrow> string \<Rightarrow> NatsKv" where
  "NatsKv_new st api_prefix server_version =
     (let subject_prefix = (case st_put_prefix st of Some p \<Rightarrow> p | None \<Rightarrow> st_prefix st)
      in \<lparr>store = st,
          write_prefix = (if st_use_jetstream_prefix st
                          then api_prefix @ ''.'' @ subject_prefix else subject_prefix),
          kv_purge_reads_every_block = purge_reads_every_block server_version\<rparr>)"

definition bucket :: "NatsKv \<Rightarrow> string" where
  "bucket kv = st_name (store kv)"

definition set_index_ready :: "NatsKv \<Rightarrow> bool \<Rightarrow> unit prog" where
  "set_index_ready kv ready = store_flag (bucket kv) ready"

definition index_ready :: "NatsKv \<Rightarrow> bool prog" where
  "index_ready kv = load_flag (bucket kv)"

definition EXPIRES_HEADER :: string where
  "EXPIRES_HEADER = ''Mcpg-Expires''"

datatype Slot = Empty | Dead u64 | Live bytes "u64 option" u64

datatype Expect = Anything | Nothing | Revision u64

datatype WriteError = Conflict | Failed ClusterError

text \<open>The ack a record on its way will get.\<close>

type_synonym PendingWrite = "client_error + u64"

definition pending_done :: "PendingWrite \<Rightarrow> WriteError + u64" where
  "pending_done p =
     (case p of
        Inr sequence \<Rightarrow> Inr sequence
      | Inl e \<Rightarrow> if lost_cas e then Inl Conflict
                else Inl (Failed (BackendUnavailable (''nats kv write: '' @ ce_text e))))"

definition slot :: "externals \<Rightarrow> NatsKv \<Rightarrow> string \<Rightarrow> string \<Rightarrow> Slot res prog" where
  "slot x kv encoded key =
     await (last_record (ext_parse_op x) (store kv) encoded) (\<lambda>r.
       case r of
         Inl e \<Rightarrow> Done (Inl (BackendUnavailable (''nats kv entry `'' @ key @ ''`: '' @ e)))
       | Inr None \<Rightarrow> Done (Inr Empty)
       | Inr (Some rec) \<Rightarrow>
           if operation rec \<noteq> Put then Done (Inr (Dead (revision rec)))
           else
             (case decode_value (payload rec) of (val, expires_at_secs) \<Rightarrow>
                await (is_expired expires_at_secs) (\<lambda>expired.
                  Done (Inr (if expired then Dead (revision rec)
                             else Live val expires_at_secs (revision rec))))))"

definition publish_record :: "NatsKv \<Rightarrow> string \<Rightarrow> headers \<Rightarrow> bytes \<Rightarrow> PendingWrite res prog" where
  "publish_record kv encoded h pl =
     await (publish_with_headers (write_prefix kv @ encoded) h pl) (\<lambda>r.
       Done (map_err (\<lambda>e. BackendUnavailable (''nats kv write: '' @ e)) r))"

definition publish_headers :: "u64 option \<Rightarrow> Expect \<Rightarrow> headers" where
  "publish_headers expires_at_secs expect =
     (let h = hdr_insert EXPIRES_HEADER
                (u64_to_string (case expires_at_secs of None \<Rightarrow> 0 | Some s \<Rightarrow> s)) []
      in case expect of
           Anything \<Rightarrow> h
         | Nothing \<Rightarrow> hdr_insert EXPECTED_LAST_SUBJECT_SEQUENCE (u64_to_string 0) h
         | Revision seq \<Rightarrow> hdr_insert EXPECTED_LAST_SUBJECT_SEQUENCE (u64_to_string seq) h)"

definition publish ::
  "NatsKv \<Rightarrow> string \<Rightarrow> bytes \<Rightarrow> u64 option \<Rightarrow> Expect \<Rightarrow> PendingWrite res prog" where
  "publish kv encoded val expires_at_secs expect =
     publish_record kv encoded (publish_headers expires_at_secs expect)
       (encode_value val expires_at_secs)"

definition kv_write ::
  "NatsKv \<Rightarrow> string \<Rightarrow> bytes \<Rightarrow> u64 option \<Rightarrow> Expect \<Rightarrow> (WriteError + u64) prog" where
  "kv_write kv encoded val expires_at_secs expect =
     await (publish kv encoded val expires_at_secs expect) (\<lambda>r.
       case r of Inl e \<Rightarrow> Done (Inl (Failed e)) | Inr pending \<Rightarrow> Done (pending_done pending))"

definition publish_marker :: "NatsKv \<Rightarrow> string \<Rightarrow> PendingWrite res prog" where
  "publish_marker kv encoded =
     publish_record kv encoded (hdr_insert ''KV-Operation'' ''DEL'' []) []"

definition publish_index :: "NatsKv \<Rightarrow> string \<Rightarrow> PendingWrite res prog" where
  "publish_index kv key = publish kv (index_key key) [] None Nothing"

definition index_done :: "PendingWrite \<Rightarrow> u64 option res" where
  "index_done pending =
     (case pending_done pending of
        Inr seq \<Rightarrow> Inr (Some seq)
      | Inl Conflict \<Rightarrow> Inr None
      | Inl (Failed e) \<Rightarrow> Inl e)"

definition purge_through :: "NatsKv \<Rightarrow> string \<Rightarrow> u64 \<Rightarrow> unit res prog" where
  "purge_through kv subject seq =
     await (purge_subject (st_stream (store kv)) subject (Some (seq + 1))) (\<lambda>r.
       Done (map_err (\<lambda>e. BackendUnavailable (''nats kv purge: '' @ e)) r))"

definition write_index :: "NatsKv \<Rightarrow> string \<Rightarrow> unit res prog" where
  "write_index kv key =
     await_ok (publish_index kv key) (\<lambda>pending.
       Done (case index_done pending of Inl e \<Rightarrow> Inl e | Inr _ \<Rightarrow> Inr ()))"

definition purge_index :: "NatsKv \<Rightarrow> string \<Rightarrow> unit res prog" where
  "purge_index kv key =
     await (purge_subject (st_stream (store kv)) (st_prefix (store kv) @ index_key key) None) (\<lambda>r.
       Done (map_err (\<lambda>e. BackendUnavailable (''nats kv index purge `'' @ key @ ''`: '' @ e)) r))"

definition is_live :: "Slot \<Rightarrow> bool" where
  "is_live s = (case s of Live _ _ _ \<Rightarrow> True | _ \<Rightarrow> False)"

definition reindex_if_live :: "externals \<Rightarrow> NatsKv \<Rightarrow> string \<Rightarrow> unit res prog" where
  "reindex_if_live x kv key =
     await_ok (slot x kv (encode_key key) key) (\<lambda>s.
       if is_live s then await_ok (write_index kv key) (\<lambda>_. Done (Inr ()))
       else Done (Inr ()))"

definition unindex :: "externals \<Rightarrow> NatsKv \<Rightarrow> string \<Rightarrow> unit res prog" where
  "unindex x kv key = await_ok (purge_index kv key) (\<lambda>_. reindex_if_live x kv key)"

definition mark_index_complete :: "NatsKv \<Rightarrow> u64 \<Rightarrow> unit res prog" where
  "mark_index_complete kv started_at_ms =
     await (kv_write kv INDEX_STATE_KEY (u64_to_string started_at_ms) None Anything) (\<lambda>r.
       Done (case r of
               Inr _ \<Rightarrow> Inr ()
             | Inl (Failed e) \<Rightarrow> Inl e
             | Inl Conflict \<Rightarrow>
                 Inl (Internal ''nats kv index state: an unconditional write reported a conflict'')))"

definition index_completed_at :: "externals \<Rightarrow> NatsKv \<Rightarrow> u64 option res prog" where
  "index_completed_at x kv =
     await_ok (slot x kv INDEX_STATE_KEY ''index state'') (\<lambda>s.
       Done (Inr (case s of
                    Live val _ _ \<Rightarrow> Option.bind (from_utf8_ok val) parse_u64
                  | Empty \<Rightarrow> None
                  | Dead _ \<Rightarrow> None)))"

definition invalidate_index :: "externals \<Rightarrow> NatsKv \<Rightarrow> unit res prog" where
  "invalidate_index x kv =
     await (set_index_ready kv False) (\<lambda>_.
     await_ok (index_completed_at x kv) (\<lambda>at.
       if at \<noteq> None then
         await (kv_delete_key (store kv) INDEX_STATE_KEY) (\<lambda>r.
           Done (map_err (\<lambda>e. BackendUnavailable (''nats kv index invalidate: '' @ e)) r))
       else Done (Inr ())))"

record BucketUsage =
  bu_bytes :: u64
  bu_messages :: u64
  bu_max_bytes :: i64

definition usage :: "NatsKv \<Rightarrow> BucketUsage res prog" where
  "usage kv =
     await (stream_info_call (st_stream (store kv))) (\<lambda>r.
       Done (case r of
               Inl e \<Rightarrow> Inl (BackendUnavailable (''nats kv usage: '' @ e))
             | Inr info \<Rightarrow> Inr \<lparr>bu_bytes = si_bytes info, bu_messages = si_messages info,
                               bu_max_bytes = si_max_bytes info\<rparr>))"

definition complete_index_if_empty :: "NatsKv \<Rightarrow> unit res prog" where
  "complete_index_if_empty kv =
     await_ok (usage kv) (\<lambda>u.
       if bu_messages u = 0 then
         await system_now (\<lambda>d.
           mark_index_complete kv
             (case d of None \<Rightarrow> 0 | Some d \<Rightarrow> u64_try_from_or_max (as_millis d)))
       else Done (Inr ()))"


section \<open>Reading a key\<close>

text \<open>What a key holds at a time, as a function of its last message.\<close>

definition slot_at :: "externals \<Rightarrow> u64 \<Rightarrow> raw_message option \<Rightarrow> Slot" where
  "slot_at x now c =
     (case c of
        None \<Rightarrow> Empty
      | Some m \<Rightarrow>
          if leader_record_operation (ext_parse_op x) (raw_headers m) \<noteq> Put then Dead (raw_seq m)
          else (case decode_value (raw_payload m) of (v, e) \<Rightarrow>
                  if expired_at now e then Dead (raw_seq m) else Live v e (raw_seq m)))"

text \<open>A handle on bucket \<open>b\<close>, opened on a connection without a JetStream domain.\<close>

definition kv_ok :: "NatsKv \<Rightarrow> string \<Rightarrow> bool" where
  "kv_ok kv b \<longleftrightarrow> bucket_ok b \<and> store kv = store_of b \<and> write_prefix kv = kv_subject b []"

lemma kv_okD:
  assumes "kv_ok kv b"
  shows "bucket_ok b" "store kv = store_of b" "write_prefix kv = kv_subject b []"
  using assms by (simp_all add: kv_ok_def)

lemma NatsKv_new_ok: "bucket_ok b \<Longrightarrow> kv_ok (NatsKv_new (store_of b) api v) b"
  by (simp add: kv_ok_def NatsKv_new_def)

lemma slot_at_Live:
  "slot_at x now c = Live v e n \<longleftrightarrow>
     (\<exists>m. c = Some m \<and> raw_seq m = n \<and> leader_record_operation (ext_parse_op x) (raw_headers m) = Put
        \<and> decode_value (raw_payload m) = (v, e) \<and> \<not> expired_at now e)"
  by (auto simp: slot_at_def split: option.splits prod.splits if_splits)

lemma slot_at_Dead:
  "slot_at x now c = Dead n \<longleftrightarrow>
     (\<exists>m. c = Some m \<and> raw_seq m = n \<and> (leader_record_operation (ext_parse_op x) (raw_headers m) \<noteq> Put
        \<or> expired_at now (snd (decode_value (raw_payload m)))))"
  by (auto simp: slot_at_def split: option.splits prod.splits if_splits)

lemma slot_at_Empty: "slot_at x now c = Empty \<longleftrightarrow> c = None"
  by (auto simp: slot_at_def split: option.splits prod.splits if_splits)

lemma is_live_slot_at: "is_live (slot_at x now c) \<longleftrightarrow> (\<exists>v e n. slot_at x now c = Live v e n)"
  by (auto simp: is_live_def split: Slot.splits)

lemma slot_at_later:
  assumes "now \<le> now'" and "is_live (slot_at x now' c)"
  shows "slot_at x now c = slot_at x now' c"
  using assms by (auto simp: slot_at_def is_live_def expired_at_def
      split: option.splits prod.splits if_splits)

lemma slot_at_dead_later:
  "now \<le> now' \<Longrightarrow> \<not> is_live (slot_at x now c) \<Longrightarrow> \<not> is_live (slot_at x now' c)"
  using slot_at_later by metis

context jetstream
begin

lemma wpr_slot:
  assumes kv: "kv_ok kv b"
    and G: "\<And>a b. quiet V a b \<Longrightarrow> G a b"
    and R: "\<And>a b. R a b \<Longrightarrow> evolves V a b"
    and err: "\<And>w1 e. reach V R w w1 \<Longrightarrow> Q (Inl (BackendUnavailable e)) w1"
    and ok: "\<And>w1 w2 t. reach V R w w1 \<Longrightarrow> reach V R w1 w2 \<Longrightarrow> clock V w1 \<le> t \<Longrightarrow> t \<le> clock V w2 \<Longrightarrow>
               Q (Inr (slot_at x t (cell V w1 b k))) w2"
  shows "wpr S R G (slot x kv k key) Q w"
  unfolding slot_def wpr_await
proof (rule wpr_last_record [OF kv_okD(1,2) [OF kv]], goal_cases)
  case (1 w1 w2 e)
  then show ?case
    using G err [OF reach_step] by simp
next
  case (2 w1 w2)
  have w2: "reach V R w w2" and w12: "reach V R w1 w2" and w1: "reach V R w w1"
    using reach_step [OF 2] reach_quiet [OF 2(2)] reach_env [OF 2(1)] .
  have c12: "clock V w1 \<le> clock V w2"
    using 2 by (simp add: quiet_def)
  note at = ok [OF w1 w12 order.refl c12]
  show ?case
  proof (cases "cell V w1 b k")
    case None
    with at G 2 show ?thesis by (simp add: slot_at_def)
  next
    case (Some m)
    obtain v e where ve: "decode_value (raw_payload m) = (v, e)"
      by fastforce
    show ?thesis
    proof (cases "leader_record_operation (ext_parse_op x) (raw_headers m) = Put \<and> e \<noteq> None")
      case False
      with Some at G 2 ve show ?thesis
        by (auto simp: slot_at_def is_expired_def)
    next
      case True
      then obtain s where s: "e = Some s" by blast
      have "wpr S R G now_unix_secs (\<lambda>now. Q (Inr (if expired_at now (Some s) then Dead (raw_seq m)
              else Live v (Some s) (raw_seq m)))) w2"
      proof (rule wpr_now)
        fix w3 w4 assume R34: "R\<^sup>*\<^sup>* w2 w3" "quiet V w3 w4"
        have r14: "reach V R w1 w4"
          by (rule reach_trans [OF w12 reach_step [OF R34]])
        have "evolves V w1 w3"
          using reach_trans [OF w12 reach_env [OF R34(1)]] R by (rule reach_evolves)
        then have "clock V w1 \<le> clock V w3"
          by (simp add: evolves_def)
        moreover have "clock V w3 \<le> clock V w4"
          using R34 by (simp add: quiet_def)
        ultimately show "G w3 w4 \<and> Q (Inr (if expired_at (clock V w3) (Some s) then Dead (raw_seq m)
              else Live v (Some s) (raw_seq m))) w4"
          using ok [OF w1 r14, of "clock V w3"] G [OF R34(2)] Some True ve s
          by (simp add: slot_at_def)
      qed
      with Some True ve s G 2 show ?thesis
        by (simp add: is_expired_def wpr_await cong: if_cong)
    qed
  qed
qed

end


section \<open>Keys and headers\<close>

lemma hdr_get_insert [simp]:
  "hdr_get (hdr_insert n v h) m = (if m = n then Some v else hdr_get h m)"
proof -
  have "map_of (filter (\<lambda>nv. fst nv \<noteq> n) h) m = map_of h m" if "m \<noteq> n"
    using that by (induction h) auto
  then show ?thesis
    by (simp add: hdr_get_def hdr_insert_def)
qed

lemma hdr_get_Nil [simp]: "hdr_get [] m = None"
  by (simp add: hdr_get_def)

lemma header_names [simp]:
  "EXPIRES_HEADER \<noteq> EXPECTED_LAST_SUBJECT_SEQUENCE" "EXPECTED_LAST_SUBJECT_SEQUENCE \<noteq> EXPIRES_HEADER"
  "KV_OPERATION_HEADER \<noteq> EXPECTED_LAST_SUBJECT_SEQUENCE" "KV_OPERATION_HEADER \<noteq> EXPIRES_HEADER"
  "NATS_MARKER_REASON \<noteq> EXPECTED_LAST_SUBJECT_SEQUENCE" "NATS_MARKER_REASON \<noteq> EXPIRES_HEADER"
  "EXPECTED_LAST_SUBJECT_SEQUENCE \<noteq> KV_OPERATION_HEADER"
  by (simp_all add: EXPIRES_HEADER_def EXPECTED_LAST_SUBJECT_SEQUENCE_def KV_OPERATION_HEADER_def
      NATS_MARKER_REASON_def)

lemma expects_publish_headers [simp]:
  "expects (publish_headers e ex) =
     (case ex of Anything \<Rightarrow> None | Nothing \<Rightarrow> Some 0 | Revision n \<Rightarrow> Some n)"
  by (auto simp: expects_def publish_headers_def Let_def split: Expect.splits)

lemma publish_headers_names [simp]:
  "hdr_get (publish_headers e ex) KV_OPERATION_HEADER = None"
  "hdr_get (publish_headers e ex) NATS_MARKER_REASON = None"
  "hdr_get (publish_headers e ex) EXPIRES_HEADER = Some (u64_to_string (case e of None \<Rightarrow> 0 | Some s \<Rightarrow> s))"
  by (auto simp: publish_headers_def Let_def split: Expect.splits)

lemma meets_publish_headers [simp]:
  "meets (publish_headers e ex) c \<longleftrightarrow>
     (case ex of Anything \<Rightarrow> True | Nothing \<Rightarrow> last_seq c = 0 | Revision n \<Rightarrow> last_seq c = n)"
  by (auto simp: meets_def split: Expect.splits)

lemma encode_key_no_dot: "CHR ''.'' \<notin> set (encode_key key)"
  using encode_key_chars by blast

lemma index_key_dot: "CHR ''.'' \<in> set (index_key key)"
  by (simp add: index_key_eq join_dots_Cons index_tokens_nonempty)

lemma index_key_neq_encode_key [simp]: "index_key a \<noteq> encode_key b" "encode_key b \<noteq> index_key a"
  using encode_key_no_dot [of b] index_key_dot [of a] by auto

lemma plain_encode_key [simp]: "plain_key (encode_key key)"
  using encode_key_chars [of "CHR ''*''" key] encode_key_chars [of "CHR ''>''" key]
  by (auto simp: plain_key_def kv_key_char_def is_ascii_alphanumeric_def)

lemma plain_key_index_state [simp]: "plain_key INDEX_STATE_KEY"
  by (simp add: plain_key_def INDEX_STATE_KEY_def)

lemma index_key_chars:
  assumes "c \<in> set (index_key key)"
  shows "is_ascii_alphanumeric c \<or> c \<in> set ''-_=.''"
proof -
  have "\<forall>t\<in>set ts. \<forall>c\<in>set t. P c \<Longrightarrow> P CHR ''.'' \<Longrightarrow> \<forall>c\<in>set (join_dots ts). P c" for ts P
    by (induction ts rule: join_dots.induct) auto
  from this [of "INDEX_TOKEN # index_tokens key" "\<lambda>c. is_ascii_alphanumeric c \<or> c \<in> set ''-_=.''"]
  show ?thesis
    using assms esc_piece_chars
    by (fastforce simp: index_key_eq index_tokens_def INDEX_TOKEN_def END_TOKEN_def split: if_splits)
qed

lemma plain_index_key [simp]: "plain_key (index_key key)"
  using index_key_chars [of "CHR ''*''" key] index_key_chars [of "CHR ''>''" key]
  by (auto simp: plain_key_def is_ascii_alphanumeric_def)

lemma index_key_inj:
  assumes "index_key a = index_key b"
  shows "a = b"
proof -
  have split: "split_on CHR ''.'' (join_dots (INDEX_TOKEN # index_tokens key)) = INDEX_TOKEN # index_tokens key"
    for key
    by (rule split_on_join_dots) (auto simp: index_tokens_no_dot INDEX_TOKEN_def)
  have "decode_tokens (index_tokens key) = Some key" for key
    using decode_tokens_pieces [of "pieces key" "key = [] \<or> is_separator (last key)"]
    by (simp add: index_tokens_def)
  with split [of a] split [of b] assms show ?thesis
    by (metis index_key_eq list.inject option.inject)
qed


section \<open>Records on their way\<close>

lemma pending_done_simps [simp]:
  "pending_done (Inr n) = Inr n"
  "lost_cas e \<Longrightarrow> pending_done (Inl e) = Inl Conflict"
  "\<not> lost_cas e \<Longrightarrow> pending_done (Inl e) = Inl (Failed (BackendUnavailable (''nats kv write: '' @ ce_text e)))"
  by (simp_all add: pending_done_def)

lemma index_done_simps [simp]:
  "index_done (Inr n) = Inr (Some n)"
  "lost_cas e \<Longrightarrow> index_done (Inl e) = Inr None"
  "\<not> lost_cas e \<Longrightarrow> index_done (Inl e) = Inl (BackendUnavailable (''nats kv write: '' @ ce_text e))"
  by (simp_all add: index_done_def)

text \<open>The three ways a publish can end.\<close>

lemma publish_outcome_cases [consumes 1, case_names stored lost unknown]:
  assumes "publish_outcome V w w' b k h p r"
  obtains n where "r = Inr n" "stored V w w' b k h p n"
  | e where "r = Inl e" "lost_cas e" "quiet V w w'" "\<not> meets h (cell V w b k)"
  | e where "r = Inl e" "\<not> lost_cas e" "quiet V w w' \<or> (\<exists>n. stored V w w' b k h p n)"
  using assms by (auto simp: publish_outcome_def split: sum.splits if_splits)

context jetstream
begin

lemma wpr_publish_record:
  assumes kv: "kv_ok kv b"
    and G: "\<And>a c. quiet V a c \<Longrightarrow> G a c"
    and err: "\<And>w1 e. reach V R w w1 \<Longrightarrow> Q (Inl (BackendUnavailable e)) w1"
    and ok: "\<And>w1 w2 r. reach V R w w1 \<Longrightarrow> publish_outcome V w1 w2 b k h p r \<Longrightarrow> G w1 w2 \<and> Q (Inr r) w2"
  shows "wpr S R G (publish_record kv k h p) Q w"
  unfolding publish_record_def kv_okD(3) [OF kv] kv_subject_append wpr_await
proof (rule wpr_publish_with_headers [OF kv_okD(1) [OF kv]], goal_cases)
  case (1 w1 w2 e)
  then show ?case
    using G err [OF reach_step [OF 1]] by (simp add: map_err_def)
next
  case (2 w1 w2 r)
  then show ?case
    using ok [OF reach_env [OF 2(1)] 2(2)] by (simp add: map_err_def)
qed

lemmas wpr_publish = wpr_publish_record
  [where h = "publish_headers e ex" and p = "encode_value v e" for e ex v, folded publish_def]

lemmas wpr_publish_index = wpr_publish
  [where k = "index_key key" and v = "[]" and e = None and ex = Nothing for key, folded publish_index_def]

lemma wpr_purge_index:
  assumes kv: "kv_ok kv b"
    and "\<And>w1 w2 e. reach V R w w1 \<Longrightarrow> quiet V w1 w2 \<or> purged V w1 w2 b (index_key key) None \<Longrightarrow>
           G w1 w2 \<and> Q (Inl (BackendUnavailable e)) w2"
    and "\<And>w1 w2. reach V R w w1 \<Longrightarrow> purged V w1 w2 b (index_key key) None \<Longrightarrow>
           G w1 w2 \<and> Q (Inr ()) w2"
  shows "wpr S R G (purge_index kv key) Q w"
  unfolding purge_index_def kv_okD(2) [OF kv] st_of_simps kv_subject_append wpr_await
proof (rule wpr_purge_subject [OF kv_okD(1) [OF kv] plain_index_key], goal_cases)
  case (1 w1 w2 r)
  then show ?case
    using assms(2,3) [OF reach_env [OF 1(1)], of w2] by (cases r) (auto simp: purge_outcome_def map_err_def)
qed

lemma wpr_purge_through:
  assumes kv: "kv_ok kv b" and k: "plain_key k" and sj: "sj = kv_subject b k"
    and "\<And>w1 w2 e. reach V R w w1 \<Longrightarrow> quiet V w1 w2 \<or> purged V w1 w2 b k (Some (n + 1)) \<Longrightarrow>
           G w1 w2 \<and> Q (Inl (BackendUnavailable e)) w2"
    and "\<And>w1 w2. reach V R w w1 \<Longrightarrow> purged V w1 w2 b k (Some (n + 1)) \<Longrightarrow>
           G w1 w2 \<and> Q (Inr ()) w2"
  shows "wpr S R G (purge_through kv sj n) Q w"
  unfolding purge_through_def sj kv_okD(2) [OF kv] st_of_simps wpr_await
proof (rule wpr_purge_subject [OF kv_okD(1) [OF kv] k], goal_cases)
  case (1 w1 w2 r)
  then show ?case
    using assms(4,5) [OF reach_env [OF 1(1)], of w2] by (cases r) (auto simp: purge_outcome_def map_err_def)
qed

lemma wpr_write_index:
  assumes kv: "kv_ok kv b"
    and G: "\<And>a c. only V b {index_key key} a c \<Longrightarrow> G a c"
    and err: "\<And>w1 e. reach_only V R b {index_key key} w w1 \<Longrightarrow> Q (Inl (BackendUnavailable e)) w1"
    and ok: "\<And>w1 w2. reach V R w w1 \<Longrightarrow> only V b {index_key key} w1 w2 \<Longrightarrow>
               cell V w2 b (index_key key) \<noteq> None \<Longrightarrow>
               (cell V w1 b (index_key key) \<noteq> None \<longrightarrow> cell V w2 b (index_key key) = cell V w1 b (index_key key)) \<Longrightarrow>
               Q (Inr ()) w2"
  shows "wpr S R G (write_index kv key) Q w"
  unfolding write_index_def wpr_await_ok
proof (rule wpr_publish_index [OF kv], goal_cases)
  case (1 a c)
  then show ?case by (rule G [OF only_quiet])
next
  case (2 w1 e)
  then show ?case using err [OF reach_only_reach [OF 2]] by simp
next
  case (3 w1 w2 r)
  have only: "only V b {index_key key} w1 w2"
    using 3(2) by (rule publish_outcome_only) simp
  have reach: "reach_only V R b {index_key key} w w2"
    using reach_only_reach [OF 3(1)] reach_only_step [OF only] by (rule reach_only_trans)
  from 3(2) show ?case
  proof (cases rule: publish_outcome_cases)
    case (stored n)
    then have "cell V w1 b (index_key key) = None"
      using storedD(3) last_seq_zero by fastforce
    with stored G [OF only] ok [OF 3(1) only] show ?thesis
      by (simp add: storedD)
  next
    case (lost e)
    with G [OF only] ok [OF 3(1) only] last_seq_zero show ?thesis
      by (simp add: quietD)
  next
    case (unknown e)
    with G [OF only] err [OF reach] show ?thesis
      by simp
  qed
qed

lemma wpr_reindex_if_live:
  assumes kv: "kv_ok kv b"
    and R: "\<And>a c. R a c \<Longrightarrow> evolves V a c"
    and G: "\<And>a c. only V b {index_key key} a c \<Longrightarrow> G a c"
    and err: "\<And>w1 e. reach_only V R b {index_key key} w w1 \<Longrightarrow> Q (Inl (BackendUnavailable e)) w1"
    and dead: "\<And>w1 w2 t. reach V R w w1 \<Longrightarrow> reach V R w1 w2 \<Longrightarrow> clock V w1 \<le> t \<Longrightarrow> t \<le> clock V w2 \<Longrightarrow>
               \<not> is_live (slot_at x t (cell V w1 b (encode_key key))) \<Longrightarrow> Q (Inr ()) w2"
    and live: "\<And>w1 w2. reach V R w w1 \<Longrightarrow> only V b {index_key key} w1 w2 \<Longrightarrow>
               cell V w2 b (index_key key) \<noteq> None \<Longrightarrow> Q (Inr ()) w2"
  shows "wpr S R G (reindex_if_live x kv key) Q w"
  unfolding reindex_if_live_def wpr_await_ok
proof (rule wpr_slot [OF kv], goal_cases)
  case (1 a c)
  then show ?case by (rule G [OF only_quiet])
next
  case (2 a c)
  then show ?case by (rule R)
next
  case (3 w1 e)
  then show ?case using err [OF reach_only_reach [OF 3]] by simp
next
  case (4 w1 w2 t)
  have w2: "reach V R w w2"
    using 4(1,2) by (rule reach_trans)
  have "wpr S R G (write_index kv key) (\<lambda>r. case r of Inl e \<Rightarrow> Q (Inl e) | Inr _ \<Rightarrow> Q (Inr ())) w2"
  proof (rule wpr_write_index [OF kv G], goal_cases)
    case (1 a c)
    then show ?case .
  next
    case (2 w3 e)
    show ?case
      using err [OF reach_only_trans [OF reach_only_reach [OF w2] 2]] by simp
  next
    case (3 w3 w4)
    show ?case
      using live [OF reach_trans [OF w2 3(1)] 3(2,3)] by simp
  qed
  then show ?case
    using dead [OF 4] by (simp add: wpr_await_ok cong del: sum.case_cong_weak)
qed

lemma wpr_unindex:
  assumes kv: "kv_ok kv b"
    and R: "\<And>a c. R a c \<Longrightarrow> evolves V a c"
    and G: "\<And>a c. only V b {index_key key} a c \<Longrightarrow> G a c"
    and post: "\<And>w1 r. reach_only V R b {index_key key} w w1 \<Longrightarrow> Q r w1"
  shows "wpr S R G (unindex x kv key) Q w"
  unfolding unindex_def wpr_await_ok
proof (rule wpr_purge_index [OF kv], goal_cases)
  case (1 w1 w2 e)
  then have only: "only V b {index_key key} w1 w2"
    by (auto intro: only_quiet only_purged)
  show ?case
    using post [OF reach_only_trans [OF reach_only_reach [OF 1(1)] reach_only_step [OF only]]] G [OF only]
    by simp
next
  case (2 w1 w2)
  then have only: "only V b {index_key key} w1 w2"
    by (auto intro: only_purged)
  have reach: "reach_only V R b {index_key key} w w2"
    by (rule reach_only_trans [OF reach_only_reach [OF 2(1)] reach_only_step [OF only]])
  have "wpr S R G (reindex_if_live x kv key) Q w2"
  proof (rule wpr_reindex_if_live [OF kv R G], goal_cases)
    case (3 w3 e)
    show ?case by (rule post [OF reach_only_trans [OF reach 3]])
  next
    case (4 w3 w4 t)
    show ?case
      by (rule post [OF reach_only_trans [OF reach reach_only_reach [OF reach_trans [OF 4(1,2)]]]])
  next
    case (5 w3 w4)
    show ?case
      by (rule post [OF reach_only_trans [OF reach reach_only_trans
              [OF reach_only_reach [OF 5(1)] reach_only_step [OF 5(2)]]]])
  qed
  then show ?case
    using G [OF only] by simp
qed

lemma wpr_expires_at_from:
  assumes "\<And>a c. quiet V a c \<Longrightarrow> G a c" and R: "\<And>a c. R a c \<Longrightarrow> evolves V a c"
    and "\<And>w1 t. reach V R w w1 \<Longrightarrow> clock V w \<le> t \<Longrightarrow> t \<le> clock V w1 \<Longrightarrow>
           Q (map_option (\<lambda>d. t + max (dur_secs d) 1) ttl) w1"
  shows "wpr S R G (expires_at_from ttl) Q w"
proof (cases ttl)
  case None
  then show ?thesis
    using assms(3) [OF reach_refl, of "clock V w"] by (simp add: expires_at_from_def)
next
  case (Some d)
  have "wpr S R G now_unix_secs (\<lambda>now. Q (Some (now + max (dur_secs d) 1))) w"
  proof (rule wpr_now)
    fix w1 w2 assume s: "R\<^sup>*\<^sup>* w w1" "quiet V w1 w2"
    have "clock V w \<le> clock V w1"
      using reach_evolves [OF reach_env [OF s(1)] R] by (simp add: evolves_def)
    then show "G w1 w2 \<and> Q (Some (clock V w1 + max (dur_secs d) 1)) w2"
      using assms(1) [OF s(2)] assms(3) [OF reach_step [OF s], of "clock V w1"] s(2) Some
      by (simp add: quiet_def)
  qed
  then show ?thesis
    by (simp add: expires_at_from_def wpr_await Some)
qed

lemma wpr_cas_backoff:
  assumes "\<And>a c. quiet V a c \<Longrightarrow> G a c" and "\<And>w1. reach V R w w1 \<Longrightarrow> Q () w1"
  shows "wpr S R G (cas_backoff attempt) Q w"
  unfolding cas_backoff_def wpr_await
proof (rule wpr_system_now, goal_cases)
  case (1 w1 w2 x)
  have "wpr S R G (sleep d) Q w2" for d
  proof (rule wpr_sleep)
    fix w3 w4 assume s: "R\<^sup>*\<^sup>* w2 w3" "quiet V w3 w4"
    show "G w3 w4 \<and> Q () w4"
      using assms(1) [OF s(2)] assms(2) [OF reach_trans [OF reach_step [OF 1(1,2)] reach_step [OF s]]]
      by simp
  qed
  then show ?case
    using assms(1) [OF 1(2)] by (simp add: Let_def)
qed

end

end
