(* ===== verification/Kv_Ops.thy ===== *)
theory Kv_Ops
  imports Kv_Store
begin

text \<open>
  The operations of the state store, \<^verbatim>\<open>impl KeyValueStore for NatsKv\<close> of
  \<^verbatim>\<open>src/src/state/kv.rs\<close> without the listing: \<open>get\<close>, \<open>put\<close>, \<open>put_if_absent\<close>,
  \<open>delete\<close>, \<open>expire\<close> and the counters. An expiry is kept in Unix seconds. A retry
  loop takes the rounds left and the number of the round.
\<close>

section \<open>The model\<close>

record Entry =
  entry_bytes :: bytes
  expires_at :: "u64 option"

definition CAS_WRITE_ATTEMPTS :: nat where
  "CAS_WRITE_ATTEMPTS = 8"

definition CAS_ATTEMPTS :: nat where
  "CAS_ATTEMPTS = 64"

definition get :: "externals \<Rightarrow> NatsKv \<Rightarrow> string \<Rightarrow> Entry option res prog" where
  "get x kv key =
     await_ok (slot x kv (encode_key key) key) (\<lambda>s.
       Done (Inr (case s of
                    Live val expires_at_secs _ \<Rightarrow>
                      Some \<lparr>entry_bytes = val, expires_at = expires_at_secs\<rparr>
                  | Empty \<Rightarrow> None
                  | Dead _ \<Rightarrow> None)))"

text \<open>\<^verbatim>\<open>matches!(indexed, Ok(Some(_)))\<close>\<close>

definition stored_index :: "u64 option res \<Rightarrow> bool" where
  "stored_index indexed = (case indexed of Inr (Some _) \<Rightarrow> True | _ \<Rightarrow> False)"

definition undo_index :: "externals \<Rightarrow> NatsKv \<Rightarrow> string \<Rightarrow> u64 option res \<Rightarrow> unit prog" where
  "undo_index x kv key indexed =
     (if stored_index indexed then await (unindex x kv key) (\<lambda>_. Done ()) else Done ())"

definition put :: "externals \<Rightarrow> NatsKv \<Rightarrow> string \<Rightarrow> bytes \<Rightarrow> duration option \<Rightarrow> unit res prog" where
  "put x kv key val ttl =
     await (expires_at_from ttl) (\<lambda>e.
     await_ok (publish kv (encode_key key) val e Anything) (\<lambda>data.
     await_ok (publish_index kv key) (\<lambda>index.
       let written = pending_done data; indexed = index_done index in
       case written of
         Inr _ \<Rightarrow> Done (case indexed of Inl err \<Rightarrow> Inl err | Inr _ \<Rightarrow> Inr ())
       | Inl (Failed err) \<Rightarrow> await (undo_index x kv key indexed) (\<lambda>_. Done (Inl err))
       | Inl Conflict \<Rightarrow>
           Done (Inl (CasConflict key
                   ''nats kv put: an unconditional write reported a conflict'')))))"

primrec put_if_absent_loop ::
  "externals \<Rightarrow> NatsKv \<Rightarrow> string \<Rightarrow> bytes \<Rightarrow> u64 option \<Rightarrow> nat \<Rightarrow> u32 \<Rightarrow> Expect \<Rightarrow> bool res prog" where
  "put_if_absent_loop x kv key val expires_at_secs 0 = (\<lambda>attempt expect.
     Done (Inl (CasConflict key
       (''nats kv put_if_absent: revision CAS lost '' @ dec_of_nat CAS_WRITE_ATTEMPTS @ '' rounds''))))"
| "put_if_absent_loop x kv key val expires_at_secs (Suc left) = (\<lambda>attempt expect.
     await (if 1 < attempt then cas_backoff attempt else Done ()) (\<lambda>_.
     await_ok (publish kv (encode_key key) val expires_at_secs expect) (\<lambda>claim.
     await_ok (publish_index kv key) (\<lambda>index.
       let claimed = pending_done claim; indexed = index_done index in
       case claimed of
         Inr _ \<Rightarrow> Done (case indexed of Inl err \<Rightarrow> Inl err | Inr _ \<Rightarrow> Inr True)
       | Inl (Failed err) \<Rightarrow> await (undo_index x kv key indexed) (\<lambda>_. Done (Inl err))
       | Inl Conflict \<Rightarrow>
           await_ok (slot x kv (encode_key key) key) (\<lambda>s.
             case s of
               Live _ _ _ \<Rightarrow> Done (Inr False)
             | Dead seq \<Rightarrow>
                 put_if_absent_loop x kv key val expires_at_secs left (attempt + 1) (Revision seq)
             | Empty \<Rightarrow>
                 put_if_absent_loop x kv key val expires_at_secs left (attempt + 1) Nothing)))))"

definition put_if_absent ::
  "externals \<Rightarrow> NatsKv \<Rightarrow> string \<Rightarrow> bytes \<Rightarrow> duration option \<Rightarrow> bool res prog" where
  "put_if_absent x kv key val ttl =
     await (expires_at_from ttl) (\<lambda>e.
       put_if_absent_loop x kv key val e CAS_WRITE_ATTEMPTS 0 Nothing)"

definition delete :: "externals \<Rightarrow> NatsKv \<Rightarrow> string \<Rightarrow> bool res prog" where
  "delete x kv key =
     await_ok (slot x kv (encode_key key) key) (\<lambda>s.
     await_ok (publish_marker kv (encode_key key)) (\<lambda>pending.
       Done (case pending_done pending of
               Inr _ \<Rightarrow> Inr (is_live s)
             | Inl Conflict \<Rightarrow> Inr (is_live s)
             | Inl (Failed e) \<Rightarrow> Inl e)))"

primrec expire_loop ::
  "externals \<Rightarrow> NatsKv \<Rightarrow> string \<Rightarrow> duration option \<Rightarrow> nat \<Rightarrow> u32 \<Rightarrow> bool res prog" where
  "expire_loop x kv key ttl 0 = (\<lambda>attempt.
     Done (Inl (CasConflict key
       (''nats kv expire: revision CAS lost '' @ dec_of_nat CAS_WRITE_ATTEMPTS @ '' rounds''))))"
| "expire_loop x kv key ttl (Suc left) = (\<lambda>attempt.
     await (if 0 < attempt then cas_backoff attempt else Done ()) (\<lambda>_.
     await_ok (slot x kv (encode_key key) key) (\<lambda>s.
       case s of
         Live val _ seq \<Rightarrow>
           await (expires_at_from ttl) (\<lambda>e.
           await (kv_write kv (encode_key key) val e (Revision seq)) (\<lambda>r.
             case r of
               Inr _ \<Rightarrow> Done (Inr True)
             | Inl Conflict \<Rightarrow> expire_loop x kv key ttl left (attempt + 1)
             | Inl (Failed err) \<Rightarrow> Done (Inl err)))
       | Empty \<Rightarrow> Done (Inr False)
       | Dead _ \<Rightarrow> Done (Inr False))))"

definition expire :: "externals \<Rightarrow> NatsKv \<Rightarrow> string \<Rightarrow> duration option \<Rightarrow> bool res prog" where
  "expire x kv key ttl = expire_loop x kv key ttl CAS_WRITE_ATTEMPTS 0"

text \<open>The counter as read: count, expiry to write, expectation, whether it comes into being.\<close>

definition counter_read ::
  "externals \<Rightarrow> duration option \<Rightarrow> Slot \<Rightarrow> (i64 \<times> u64 option \<times> Expect \<times> bool) res prog" where
  "counter_read x ttl s =
     (case s of
        Empty \<Rightarrow> await (expires_at_from ttl) (\<lambda>e. Done (Inr (0, e, Nothing, True)))
      | Dead seq \<Rightarrow> await (expires_at_from ttl) (\<lambda>e. Done (Inr (0, e, Revision seq, True)))
      | Live val expires_at_secs seq \<Rightarrow>
          await (if ttl \<noteq> None then expires_at_from ttl else Done expires_at_secs) (\<lambda>e.
            Done (case ext_parse_counter x val of
                    Inl err \<Rightarrow> Inl err
                  | Inr current \<Rightarrow> Inr (current, e, Revision seq, False))))"

primrec update_counter_loop ::
  "externals \<Rightarrow> NatsKv \<Rightarrow> string \<Rightarrow> string \<Rightarrow> duration option \<Rightarrow> (i64 \<Rightarrow> i64 res) \<Rightarrow>
   nat \<Rightarrow> u32 \<Rightarrow> i64 res prog" where
  "update_counter_loop x kv op key ttl step 0 = (\<lambda>attempt.
     Done (Inl (CasConflict key
       (''nats kv '' @ op @ '': revision CAS lost '' @ dec_of_nat CAS_ATTEMPTS @ '' rounds''))))"
| "update_counter_loop x kv op key ttl step (Suc left) = (\<lambda>attempt.
     await (if 0 < attempt then cas_backoff attempt else Done ()) (\<lambda>_.
     await_ok (slot x kv (encode_key key) key) (\<lambda>s.
     await_ok (counter_read x ttl s) (\<lambda>(current, expires_at_secs, expect, creates).
     await_ok (Done (step current)) (\<lambda>next_count.
       if next_count = current \<and> \<not> creates \<and> ttl = None then Done (Inr next_count)
       else
         await_ok (publish kv (encode_key key) (i64_to_string next_count) expires_at_secs expect)
           (\<lambda>pending.
         await_ok (if creates
                   then await_ok (publish_index kv key) (\<lambda>index. Done (Inr (Some index)))
                   else Done (Inr None)) (\<lambda>index.
           let written = pending_done pending;
               indexed = (case index of Some i \<Rightarrow> index_done i | None \<Rightarrow> Inr None) in
           case written of
             Inr _ \<Rightarrow> Done (case indexed of Inl err \<Rightarrow> Inl err | Inr _ \<Rightarrow> Inr next_count)
           | Inl Conflict \<Rightarrow> update_counter_loop x kv op key ttl step left (attempt + 1)
           | Inl (Failed err) \<Rightarrow>
               await (undo_index x kv key indexed) (\<lambda>_. Done (Inl err)))))))))"

definition update_counter ::
  "externals \<Rightarrow> NatsKv \<Rightarrow> string \<Rightarrow> string \<Rightarrow> duration option \<Rightarrow> (i64 \<Rightarrow> i64 res) \<Rightarrow> i64 res prog" where
  "update_counter x kv op key ttl step =
     update_counter_loop x kv op key ttl step CAS_ATTEMPTS 0"

definition incr :: "externals \<Rightarrow> NatsKv \<Rightarrow> string \<Rightarrow> i64 \<Rightarrow> duration option \<Rightarrow> i64 res prog" where
  "incr x kv key delta ttl =
     update_counter x kv ''incr'' key ttl (\<lambda>current.
       case i64_checked_add current delta of
         Some n \<Rightarrow> Inr n
       | None \<Rightarrow> Inl (ext_counter_overflow x))"

definition incr_floor ::
  "externals \<Rightarrow> NatsKv \<Rightarrow> string \<Rightarrow> i64 \<Rightarrow> i64 \<Rightarrow> duration option \<Rightarrow> i64 res prog" where
  "incr_floor x kv key delta floor ttl =
     update_counter x kv ''incr_floor'' key ttl (\<lambda>current. ext_floor_add x current floor delta)"


section \<open>A data record and the index record behind it\<close>

definition ttl_expiry :: "u64 \<Rightarrow> duration option \<Rightarrow> u64 option" where
  "ttl_expiry now ttl = map_option (\<lambda>d. now + max (dur_secs d) 1) ttl"

text \<open>The data record of a key, written with its expiry.\<close>

definition data_msg :: "u64 \<Rightarrow> bytes \<Rightarrow> u64 option \<Rightarrow> Expect \<Rightarrow> raw_message" where
  "data_msg n v e ex = \<lparr>raw_seq = n, raw_headers = publish_headers e ex, raw_payload = encode_value v e\<rparr>"

abbreviation keys_of :: "string \<Rightarrow> string set" where
  "keys_of key \<equiv> {encode_key key, index_key key}"

abbreviation data_outcome where
  "data_outcome V w w' b key v e ex r \<equiv>
     publish_outcome V w w' b (encode_key key) (publish_headers e ex) (encode_value v e) r"

abbreviation index_outcome where
  "index_outcome V w w' b key r \<equiv>
     publish_outcome V w w' b (index_key key) (publish_headers None Nothing) (encode_value [] None) r"

context jetstream
begin

lemma wpr_undo_index:
  assumes kv: "kv_ok kv b"
    and R: "\<And>a c. R a c \<Longrightarrow> evolves V a c"
    and G: "\<And>a c. only V b {index_key key} a c \<Longrightarrow> G a c"
    and post: "\<And>w1. reach_only V R b {index_key key} w w1 \<Longrightarrow> Q () w1"
  shows "wpr S R G (undo_index x kv key indexed) Q w"
proof -
  have "wpr S R G (unindex x kv key) (\<lambda>_. Q ()) w"
    by (rule wpr_unindex [OF kv R G]) (auto intro: post)
  then show ?thesis
    using post [OF reach_only_refl] by (simp add: undo_index_def wpr_await)
qed

lemma wpr_data_then_index:
  assumes kv: "kv_ok kv b"
    and Gq: "\<And>a c. quiet V a c \<Longrightarrow> G a c"
    and Gd: "\<And>w1 w2 r. reach V R w w1 \<Longrightarrow> data_outcome V w1 w2 b key v e ex r \<Longrightarrow> G w1 w2"
    and Gi: "\<And>a c. only V b {index_key key} a c \<Longrightarrow> G a c"
    and err1: "\<And>w1 err. reach V R w w1 \<Longrightarrow> Q (Inl (BackendUnavailable err)) w1"
    and err2: "\<And>w1 w2 w3 r err. reach V R w w1 \<Longrightarrow> data_outcome V w1 w2 b key v e ex r \<Longrightarrow>
                 reach V R w2 w3 \<Longrightarrow> Q (Inl (BackendUnavailable err)) w3"
    and ok: "\<And>w1 w2 w3 w4 r ri. reach V R w w1 \<Longrightarrow> data_outcome V w1 w2 b key v e ex r \<Longrightarrow>
               reach V R w2 w3 \<Longrightarrow> index_outcome V w3 w4 b key ri \<Longrightarrow> wpr S R G (f r ri) Q w4"
  shows "wpr S R G (await_ok (publish kv (encode_key key) v e ex) (\<lambda>data.
           await_ok (publish_index kv key) (f data))) Q w"
  unfolding wpr_await_ok
proof (rule wpr_publish [OF kv Gq], goal_cases)
  case (1 a c)
  then show ?case .
next
  case (2 w1 e)
  then show ?case using err1 [OF 2] by simp
next
  case (3 w1 w2 r)
  have "wpr S R G (publish_index kv key)
          (\<lambda>r'. case r' of Inl e \<Rightarrow> Q (Inl e) | Inr a \<Rightarrow> wpr S R G (f r a) Q) w2"
  proof (rule wpr_publish_index [OF kv Gq], goal_cases)
    case (1 a c)
    then show ?case .
  next
    case (2 w3 e')
    then show ?case using err2 [OF 3 2] by simp
  next
    case (3 w3 w4 ri)
    have "only V b {index_key key} w3 w4"
      using 3(2) by (rule publish_outcome_only) simp
    then show ?case
      using Gi ok [OF \<open>reach V R w w1\<close> \<open>data_outcome V w1 w2 b key v e ex r\<close> 3] by simp
  qed
  then show ?case
    using Gd [OF 3] by simp
qed

lemma index_outcome_ok:
  assumes "index_outcome V w w' b key ri" "index_done ri = Inr i"
  shows "cell V w' b (index_key key) \<noteq> None"
  using assms(1)
proof (cases rule: publish_outcome_cases)
  case (lost e)
  then show ?thesis using last_seq_zero by (simp add: quietD)
qed (use assms(2) in \<open>auto simp: storedD\<close>)

end


section \<open>Reading and putting\<close>

lemma decode_data_msg:
  "decode_value (raw_payload (data_msg n v e ex)) =
     (if e = None \<and> prefix TTL_ENVELOPE_MAGIC v then decode_value v else (v, e))"
  using decode_value_None [of v] by (cases e) (simp_all add: data_msg_def, simp add: encode_value_def)

context jetstream
begin

lemma put_alone:
  assumes kv: "kv_ok kv b" and run: "run S (put x kv key v ttl) w = (r, w')"
  shows "only V b (keys_of key) w w'"
    and "r = Inr () \<Longrightarrow> \<exists>t n. clock V w \<le> t \<and> t \<le> clock V w' \<and> top V w b < n
           \<and> cell V w' b (encode_key key) = Some (data_msg n v (ttl_expiry t ttl) Anything)
           \<and> cell V w' b (index_key key) \<noteq> None"
proof -
  let ?Q = "\<lambda>r w'. only V b (keys_of key) w w' \<and> (r = Inr () \<longrightarrow> (\<exists>t n. clock V w \<le> t \<and> t \<le> clock V w'
           \<and> top V w b < n \<and> cell V w' b (encode_key key) = Some (data_msg n v (ttl_expiry t ttl) Anything)
           \<and> cell V w' b (index_key key) \<noteq> None))"
  have "wpr S (=) (\<lambda>_ _. True) (put x kv key v ttl) ?Q w"
    unfolding put_def wpr_await
  proof (rule wpr_expires_at_from, goal_cases)
    case (3 w0 t)
    then have q0: "quiet V w w0" by (simp add: reach_alone)
    show ?case
      unfolding ttl_expiry_def [symmetric]
    proof (rule wpr_data_then_index [OF kv], goal_cases)
      case (4 w1 err)
      then show ?case using q0 by (auto simp: reach_alone intro: only_quiet quiet_trans)
    next
      case (5 w1 w2 w3 rd err)
      then have "only V b (keys_of key) w1 w2"
        by (intro publish_outcome_only [OF 5(2)]) simp
      then have "only V b (keys_of key) w w3"
        using 5 q0 quiet_then_only only_then_quiet unfolding reach_alone by meson
      then show ?case by simp
    next
      case (6 w1 w2 w3 w4 rd ri)
      have o2: "only V b (keys_of key) w w2"
        using publish_outcome_only [OF 6(2), of "keys_of key"] 6(1) q0 quiet_then_only
        unfolding reach_alone by (meson insertI1)
      have o34: "only V b {index_key key} w3 w4"
        by (rule publish_outcome_only [OF 6(4)]) simp
      have o4: "only V b (keys_of key) w w4"
        using only_trans [OF only_then_quiet [OF o2] only_mono [OF o34]] 6(3)
        by (simp add: reach_alone)
      have undo: "wpr S (=) (\<lambda>_ _. True) (undo_index x kv key i) (\<lambda>_. ?Q (Inl err)) w4" for i err
      proof (rule wpr_undo_index [OF kv], goal_cases)
        case (3 w5)
        then show ?case
          using o4 only_mono [of V b "{index_key key}" w4 w5 "keys_of key"]
          by (auto simp: reach_only_alone_iff intro: only_trans)
      qed (auto intro: evolves_refl)
      from 6(2) show ?case
      proof (cases rule: publish_outcome_cases)
        case (stored n)
        have "top V w0 b < n" "clock V w0 \<le> clock V w1" "clock V w1 \<le> clock V w2"
          using stored 6(1) by (auto simp: stored_def reach_alone quiet_def)
        moreover have "cell V w4 b (encode_key key) = Some (data_msg n v (ttl_expiry t ttl) Anything)"
          using stored 6(3) only_cell [OF o34] by (auto simp: reach_alone quietD storedD data_msg_def)
        moreover have "clock V w2 \<le> clock V w4"
          using 6(3) only_clock [OF o34] by (auto simp: reach_alone quiet_def)
        ultimately have "index_done ri = Inr i \<Longrightarrow> ?Q (Inr ()) w4" for i
          using o4 index_outcome_ok [OF 6(4), of i] 3 q0
          by (fastforce simp: quiet_def)
        then show ?thesis
          using stored o4 by (auto split: sum.splits)
      next
        case (lost e)
        then show ?thesis using o4 by simp
      next
        case (unknown e)
        then show ?thesis using undo by (simp add: wpr_await)
      qed
    qed auto
  qed (auto intro: evolves_refl)
  from run_of_wpr [OF this run] show "only V b (keys_of key) w w'"
    and "r = Inr () \<Longrightarrow> \<exists>t n. clock V w \<le> t \<and> t \<le> clock V w' \<and> top V w b < n
           \<and> cell V w' b (encode_key key) = Some (data_msg n v (ttl_expiry t ttl) Anything)
           \<and> cell V w' b (index_key key) \<noteq> None"
    by auto
qed

lemma get_alone:
  assumes kv: "kv_ok kv b" and run: "run S (get x kv key) w = (r, w')"
  shows "quiet V w w'"
    and "r = Inr en \<Longrightarrow> \<exists>t. clock V w \<le> t \<and> t \<le> clock V w' \<and>
           en = (case slot_at x t (cell V w b (encode_key key)) of
                   Live v e _ \<Rightarrow> Some \<lparr>entry_bytes = v, expires_at = e\<rparr> | _ \<Rightarrow> None)"
proof -
  let ?E = "\<lambda>s. case s of Live v e _ \<Rightarrow> Some \<lparr>entry_bytes = v, expires_at = e\<rparr> | _ \<Rightarrow> None"
  let ?Q = "\<lambda>r w'. quiet V w w' \<and> (\<forall>en. r = Inr en \<longrightarrow> (\<exists>t. clock V w \<le> t \<and> t \<le> clock V w' \<and>
           en = ?E (slot_at x t (cell V w b (encode_key key)))))"
  have "wpr S (=) (\<lambda>_ _. True) (get x kv key) ?Q w"
    unfolding get_def wpr_await_ok
  proof (rule wpr_slot [OF kv], goal_cases)
    case (4 w1 w2 t)
    then have "quiet V w w2" "clock V w \<le> clock V w1" "cell V w1 = cell V w"
      by (auto simp: reach_alone quietD intro: quiet_trans)
    with 4 show ?case
      by (auto intro!: exI [of _ t] split: Slot.splits)
  qed (auto simp: reach_alone intro: evolves_refl)
  from run_of_wpr [OF this run] show "quiet V w w'"
    and "r = Inr en \<Longrightarrow> \<exists>t. clock V w \<le> t \<and> t \<le> clock V w' \<and>
           en = ?E (slot_at x t (cell V w b (encode_key key)))"
    by auto
qed

end


section \<open>Claiming a key\<close>

text \<open>A step that leaves every live value of the bucket as it is.\<close>

definition spares :: "externals \<Rightarrow> 'w view \<Rightarrow> string \<Rightarrow> 'w \<Rightarrow> 'w \<Rightarrow> bool" where
  "spares x V b w w' \<longleftrightarrow> evolves V w w'
     \<and> (\<forall>key. is_live (slot_at x (clock V w) (cell V w b (encode_key key))) \<longrightarrow>
          cell V w' b (encode_key key) = cell V w b (encode_key key))"

text \<open>
  An expectation that a claim may carry: no record, or a record that is dead and stays so.
\<close>

definition claimable :: "externals \<Rightarrow> 'w view \<Rightarrow> string \<Rightarrow> string \<Rightarrow> Expect \<Rightarrow> 'w \<Rightarrow> bool" where
  "claimable x V b key ex w \<longleftrightarrow>
     (case ex of
        Anything \<Rightarrow> False
      | Nothing \<Rightarrow> True
      | Revision n \<Rightarrow> \<forall>w' m. evolves V w w' \<longrightarrow> cell V w' b (encode_key key) = Some m \<longrightarrow> raw_seq m = n \<longrightarrow>
          \<not> is_live (slot_at x (clock V w') (Some m)))"

lemma claimable_evolves: "claimable x V b key ex w \<Longrightarrow> evolves V w w' \<Longrightarrow> claimable x V b key ex w'"
  by (auto simp: claimable_def split: Expect.splits intro: evolves_trans)

lemma only_index_spares: "only V b {index_key key} w w' \<Longrightarrow> spares x V b w w'"
  by (auto simp: spares_def only_evolves only_cell)

lemma quiet_spares: "quiet V w w' \<Longrightarrow> spares x V b w w'"
  by (simp add: spares_def quiet_evolves quietD)

lemma stored_spares:
  assumes "stored V w w' b (encode_key key) h p n"
    and "\<not> is_live (slot_at x (clock V w) (cell V w b (encode_key key)))"
  shows "spares x V b w w'"
  unfolding spares_def
proof (intro conjI allI impI)
  fix k assume "is_live (slot_at x (clock V w) (cell V w b (encode_key k)))"
  with assms(2) have "encode_key k \<noteq> encode_key key"
    by metis
  with assms(1) show "cell V w' b (encode_key k) = cell V w b (encode_key k)"
    by (simp add: stored_def)
qed (rule stored_evolves [OF assms(1)])

context jetstream
begin

lemma claimable_meets:
  assumes "claimable x V b key ex w" "meets (publish_headers e ex) (cell V w b (encode_key key))"
  shows "\<not> is_live (slot_at x (clock V w) (cell V w b (encode_key key)))"
proof (cases ex)
  case (Revision n)
  with assms evolves_refl [of V w] show ?thesis
    by (cases "cell V w b (encode_key key)") (auto simp: claimable_def slot_at_def is_live_def)
next
  case Nothing
  with assms show ?thesis
    by (simp add: last_seq_zero slot_at_def is_live_def)
qed (use assms in \<open>simp add: claimable_def\<close>)

lemma claimable_dead:
  assumes "evolves V w1 w2" "t \<le> clock V w2" "slot_at x t (cell V w1 b (encode_key key)) = Dead n"
  shows "claimable x V b key (Revision n) w2"
  unfolding claimable_def Expect.case
proof (intro allI impI)
  fix w' m
  assume e: "evolves V w2 w'" and m: "cell V w' b (encode_key key) = Some m" "raw_seq m = n"
  from assms(3) obtain m1 where m1: "cell V w1 b (encode_key key) = Some m1" "raw_seq m1 = n"
    unfolding slot_at_Dead by blast
  have "m = m1"
    using same_seq_same_message [OF evolves_trans [OF assms(1) e] m1(1) m(1)] m1 m by simp
  moreover have "\<not> is_live (slot_at x t (Some m1))"
    using assms(3) m1 by (simp add: is_live_def)
  moreover have "t \<le> clock V w'"
    using assms(2) e by (auto simp: evolves_def)
  ultimately show "\<not> is_live (slot_at x (clock V w') (Some m))"
    using slot_at_dead_later by blast
qed

text \<open>
  \<open>put_if_absent\<close> under interference: what each of its calls does to the bucket, and what
  each answer means.
\<close>

lemma wpr_put_if_absent_loop:
  assumes kv: "kv_ok kv b"
    and R: "\<And>a c. R a c \<Longrightarrow> evolves V a c"
    and G: "\<And>a c. spares x V b a c \<Longrightarrow> only V b (keys_of key) a c \<Longrightarrow> G a c"
    and err: "\<And>e w1. reach_only V R b (keys_of key) w0 w1 \<Longrightarrow> Q (Inl e) w1"
    and no: "\<And>w1 w2 t. reach_only V R b {index_key key} w0 w1 \<Longrightarrow> reach V R w1 w2 \<Longrightarrow>
               clock V w1 \<le> t \<Longrightarrow> t \<le> clock V w2 \<Longrightarrow>
               is_live (slot_at x t (cell V w1 b (encode_key key))) \<Longrightarrow> Q (Inr False) w2"
    and yes: "\<And>w1 w2 w3 w4 n ex. reach_only V R b {index_key key} w0 w1 \<Longrightarrow>
               \<not> is_live (slot_at x (clock V w1) (cell V w1 b (encode_key key))) \<Longrightarrow>
               stored V w1 w2 b (encode_key key) (publish_headers e ex) (encode_value v e) n \<Longrightarrow>
               reach V R w2 w3 \<Longrightarrow> only V b {index_key key} w3 w4 \<Longrightarrow>
               cell V w4 b (index_key key) \<noteq> None \<Longrightarrow> Q (Inr True) w4"
    and start: "reach_only V R b {index_key key} w0 w" and claim: "claimable x V b key ex w"
  shows "wpr S R G (put_if_absent_loop x kv key v e left attempt ex) Q w"
  using start claim
proof (induction left arbitrary: attempt ex w)
  case 0
  then show ?case using err [OF reach_only_mono [OF 0(1)]] by simp
next
  case (Suc left)
  have Gi: "G a c" if "only V b {index_key key} a c" for a c
    using G only_index_spares [OF that] only_mono [OF that] by blast
  have w0: "reach_only V R b (keys_of key) w0 w"
    using reach_only_mono [OF Suc.prems(1)] by simp
  have Gq: "G a c" if "quiet V a c" for a c
    by (rule Gi [OF only_quiet [OF that]])
  let ?round = "await_ok (publish kv (encode_key key) v e ex) (\<lambda>claim.
     await_ok (publish_index kv key) (\<lambda>index.
       let claimed = pending_done claim; indexed = index_done index in
       case claimed of
         Inr _ \<Rightarrow> Done (case indexed of Inl err \<Rightarrow> Inl err | Inr _ \<Rightarrow> Inr True)
       | Inl (Failed err) \<Rightarrow> await (undo_index x kv key indexed) (\<lambda>_. Done (Inl err))
       | Inl Conflict \<Rightarrow>
           await_ok (slot x kv (encode_key key) key) (\<lambda>s.
             case s of
               Live _ _ _ \<Rightarrow> Done (Inr False)
             | Dead seq \<Rightarrow> put_if_absent_loop x kv key v e left (attempt + 1) (Revision seq)
             | Empty \<Rightarrow> put_if_absent_loop x kv key v e left (attempt + 1) Nothing)))"
  have after_data: "reach_only V R b (keys_of key) w0 w3"
    if "reach V R w w'" "reach V R w' w1" "data_outcome V w1 w2 b key v e ex r" "reach V R w2 w3"
    for w' w1 w2 w3 r
  proof -
    have "only V b (keys_of key) w1 w2"
      by (rule publish_outcome_only [OF that(3)]) simp
    then show ?thesis
      using reach_only_trans [OF w0 reach_only_trans [OF reach_only_reach
            [OF reach_trans [OF that(1,2)]] reach_only_trans [OF reach_only_step reach_only_reach [OF that(4)]]]]
      by blast
  qed
  have round: "wpr S R G ?round Q w'" if w': "reach V R w w'" for w'
  proof (rule wpr_data_then_index [OF kv Gq _ Gi], goal_cases)
    case (1 a c)
    then show ?case .
  next
    case (2 w1 w2 r)
    have ev: "evolves V w w1"
      by (rule reach_evolves [OF reach_trans [OF w' 2(1)] R])
    note cl = claimable_evolves [OF Suc.prems(2) ev]
    have "spares x V b w1 w2" if "stored V w1 w2 b (encode_key key) (publish_headers e ex) (encode_value v e) n"
      for n
      by (rule stored_spares [OF that claimable_meets [OF cl storedD(3) [OF that]]])
    with 2(2) have "spares x V b w1 w2"
      by (cases rule: publish_outcome_cases) (auto intro: quiet_spares)
    then show ?case
      using G publish_outcome_only [OF 2(2), of "keys_of key"] by simp
  next
    case (3 a c)
    then show ?case .
  next
    case (4 w1 er)
    show ?case
      by (rule err [OF reach_only_trans [OF w0 reach_only_reach [OF reach_trans [OF w' 4]]]])
  next
    case (5 w1 w2 w3 r er)
    show ?case
      by (rule err [OF after_data [OF w' 5(1-3)]])
  next
    case (6 w1 w2 w3 w4 r ri)
    have o34: "only V b {index_key key} w3 w4"
      by (rule publish_outcome_only [OF 6(4)]) simp
    have w4: "reach_only V R b (keys_of key) w0 w4"
      using reach_only_trans [OF after_data [OF w' 6(1-3)] reach_only_step [OF only_mono [OF o34]]] by simp
    from 6(2) show ?case
    proof (cases rule: publish_outcome_cases)
      case (stored n)
      have "reach_only V R b {index_key key} w0 w1"
        using reach_only_trans [OF Suc.prems(1) reach_only_reach [OF reach_trans [OF w' 6(1)]]] .
      moreover have "\<not> is_live (slot_at x (clock V w1) (cell V w1 b (encode_key key)))"
        using claimable_meets [OF _ storedD(3) [OF stored(2)]]
          claimable_evolves [OF Suc.prems(2) reach_evolves [OF reach_trans [OF w' 6(1)] R]] by blast
      ultimately have "index_done ri = Inr i \<Longrightarrow> Q (Inr True) w4" for i
        using yes [OF _ _ stored(2) 6(3) o34] index_outcome_ok [OF 6(4), of i] by blast
      then show ?thesis
        using stored err [OF w4] by (auto split: sum.splits)
    next
      case (unknown er)
      have "wpr S R G (undo_index x kv key (index_done ri)) (\<lambda>_. Q (Inl er')) w4" for er'
      proof (rule wpr_undo_index [OF kv R Gi])
        show "Q (Inl er') w5" if "reach_only V R b {index_key key} w4 w5" for w5
          by (rule err [OF reach_only_trans [OF w4 reach_only_mono [OF that]]]) simp
      qed
      then show ?thesis
        using unknown by (simp add: wpr_await)
    next
      case (lost er)
      have i4: "reach_only V R b {index_key key} w0 w4"
        by (rule reach_only_trans [OF Suc.prems(1) reach_only_trans [OF reach_only_reach [OF reach_trans
                [OF reach_trans [OF w' 6(1)] reach_trans [OF reach_quiet [OF lost(3)] 6(3)]]]
              reach_only_step [OF o34]]])
      have "wpr S R G (slot x kv (encode_key key) key) (\<lambda>r. case r of Inl e \<Rightarrow> Q (Inl e) | Inr s \<Rightarrow>
              wpr S R G (case s of Live _ _ _ \<Rightarrow> Done (Inr False)
               | Dead seq \<Rightarrow> put_if_absent_loop x kv key v e left (attempt + 1) (Revision seq)
               | Empty \<Rightarrow> put_if_absent_loop x kv key v e left (attempt + 1) Nothing) Q) w4"
      proof (rule wpr_slot [OF kv Gq R], goal_cases)
        case (3 w5 e')
        show ?case
          using err [OF reach_only_trans [OF w4 reach_only_reach [OF 3]]] by simp
      next
        case (4 w5 w6 t)
        note w5 = reach_only_trans [OF i4 reach_only_reach [OF 4(1)]]
        note w6 = reach_only_trans [OF w5 reach_only_reach [OF 4(2)]]
        show ?case
        proof (cases "slot_at x t (cell V w5 b (encode_key key))")
          case Empty
          have "claimable x V b key Nothing w6"
            by (simp add: claimable_def)
          with Empty Suc.IH [OF w6] show ?thesis by simp
        next
          case (Dead n)
          have "claimable x V b key (Revision n) w6"
            by (rule claimable_dead [OF reach_evolves [OF 4(2) R] 4(4) Dead])
          with Dead Suc.IH [OF w6] show ?thesis by simp
        next
          case (Live v' e' n)
          with no [OF w5 4(2-4)] show ?thesis by (simp add: is_live_def)
        qed
      qed
      with lost show ?thesis
        by (simp add: wpr_await_ok)
    qed
  qed
  have "wpr S R G (cas_backoff attempt) (\<lambda>_. wpr S R G ?round Q) w"
    by (rule wpr_cas_backoff [OF Gq round])
  with round [OF reach_refl] show ?case
    by (simp add: wpr_await)
qed

end


section \<open>Replacing a record\<close>

definition expect_of :: "Slot \<Rightarrow> Expect" where
  "expect_of s = (case s of Empty \<Rightarrow> Nothing | Dead n \<Rightarrow> Revision n | Live _ _ n \<Rightarrow> Revision n)"

lemma expect_of_simps [simp]:
  "expect_of Empty = Nothing" "expect_of (Dead n) = Revision n" "expect_of (Live v e n) = Revision n"
  by (simp_all add: expect_of_def)

text \<open>
  A step of an operation on \<open>key\<close> that leaves its data record or replaces it with one that
  was computed from it.
\<close>

definition replaces ::
  "'w view \<Rightarrow> string \<Rightarrow> string \<Rightarrow> (u64 \<Rightarrow> raw_message option \<Rightarrow> raw_message \<Rightarrow> bool) \<Rightarrow> 'w \<Rightarrow> 'w \<Rightarrow> bool" where
  "replaces V b key P w w' \<longleftrightarrow> only V b (keys_of key) w w'
     \<and> (cell V w' b (encode_key key) = cell V w b (encode_key key)
        \<or> (\<exists>m. cell V w' b (encode_key key) = Some m \<and> P (clock V w) (cell V w b (encode_key key)) m))"

lemma only_index_replaces: "only V b {index_key key} w w' \<Longrightarrow> replaces V b key P w w'"
  by (auto simp: replaces_def only_cell intro: only_mono)

lemma data_outcome_replaces:
  assumes "data_outcome V w w' b key v e ex r"
    and "\<And>n. stored V w w' b (encode_key key) (publish_headers e ex) (encode_value v e) n \<Longrightarrow>
           P (clock V w) (cell V w b (encode_key key)) (data_msg n v e ex)"
  shows "replaces V b key P w w'"
proof -
  have "only V b (keys_of key) w w'"
    by (rule publish_outcome_only [OF assms(1)]) simp
  with assms show ?thesis
    by (cases rule: publish_outcome_cases [OF assms(1)])
      (auto simp: replaces_def quietD storedD data_msg_def)
qed

context jetstream
begin

text \<open>A write that expects what was read replaces the very record that was read.\<close>

lemma meets_expect_of:
  assumes "evolves V w1 w2" "meets (publish_headers e (expect_of (slot_at x t (cell V w1 b k)))) (cell V w2 b k)"
  shows "cell V w2 b k = cell V w1 b k"
proof (cases "cell V w1 b k")
  case None
  then have "slot_at x t (cell V w1 b k) = Empty"
    by (simp add: slot_at_def)
  with assms(2) None show ?thesis
    by (simp add: last_seq_zero)
next
  case (Some m)
  then have "expect_of (slot_at x t (cell V w1 b k)) = Revision (raw_seq m)"
    by (auto simp: slot_at_def split: prod.splits)
  with assms(2) have "last_seq (cell V w2 b k) = raw_seq m"
    by simp
  moreover have "raw_seq m \<noteq> 0"
    using seq_bounds [OF Some] by auto
  ultimately obtain m2 where "cell V w2 b k = Some m2" "raw_seq m2 = raw_seq m"
    by (cases "cell V w2 b k") auto
  with same_seq_same_message [OF assms(1) Some] Some show ?thesis
    by simp
qed

end


section \<open>Counters\<close>

definition count_of :: "externals \<Rightarrow> Slot \<Rightarrow> i64 res" where
  "count_of x s = (case s of Live v _ _ \<Rightarrow> ext_parse_counter x v | _ \<Rightarrow> Inr 0)"

definition counter_expiry :: "u64 \<Rightarrow> duration option \<Rightarrow> Slot \<Rightarrow> u64 option" where
  "counter_expiry t ttl s =
     (case s of Live _ e0 _ \<Rightarrow> if ttl = None then e0 else ttl_expiry t ttl | _ \<Rightarrow> ttl_expiry t ttl)"

text \<open>The record that comes of one step of a counter.\<close>

definition counted ::
  "externals \<Rightarrow> duration option \<Rightarrow> (i64 \<Rightarrow> i64 res) \<Rightarrow> u64 \<Rightarrow> raw_message option \<Rightarrow> raw_message \<Rightarrow> bool" where
  "counted x ttl step now old m \<longleftrightarrow>
     (\<exists>t t' cur n. t \<le> now \<and> t' \<le> now \<and> count_of x (slot_at x t old) = Inr cur \<and> step cur = Inr n
        \<and> raw_payload m = encode_value (i64_to_string n) (counter_expiry t' ttl (slot_at x t old)))"

context jetstream
begin

lemma wpr_counter_read:
  assumes Gq: "\<And>a c. quiet V a c \<Longrightarrow> G a c" and R: "\<And>a c. R a c \<Longrightarrow> evolves V a c"
    and err: "\<And>w1 e. reach V R w w1 \<Longrightarrow> Q (Inl e) w1"
    and ok: "\<And>w1 t cur. reach V R w w1 \<Longrightarrow> clock V w \<le> t \<Longrightarrow> t \<le> clock V w1 \<Longrightarrow> count_of x s = Inr cur \<Longrightarrow>
               Q (Inr (cur, counter_expiry t ttl s, expect_of s, \<not> is_live s)) w1"
  shows "wpr S R G (counter_read x ttl s) Q w"
proof -
  note at = wpr_expires_at_from [where ttl = ttl, OF Gq R, folded ttl_expiry_def]
  show ?thesis
  proof (cases s)
    case Empty
    then show ?thesis
      using ok by (auto simp: counter_read_def wpr_await count_of_def counter_expiry_def is_live_def intro!: at)
  next
    case (Dead n)
    then show ?thesis
      using ok by (auto simp: counter_read_def wpr_await count_of_def counter_expiry_def is_live_def intro!: at)
  next
    case (Live v e n)
    let ?f = "\<lambda>e'. case ext_parse_counter x v of Inl err \<Rightarrow> Inl err
                | Inr current \<Rightarrow> Inr (current, e', Revision n, False)"
    have f: "Q (?f (counter_expiry t ttl s)) w1"
      if "reach V R w w1" "clock V w \<le> t" "t \<le> clock V w1" for w1 t
      using ok [OF that] err [OF that(1)] Live
      by (auto simp: count_of_def is_live_def split: sum.splits)
    have "wpr S R G (if ttl \<noteq> None then expires_at_from ttl else Done e) (\<lambda>e'. Q (?f e')) w"
    proof (cases "ttl = None")
      case True
      then show ?thesis
        using f [OF reach_refl order.refl order.refl] Live
        by (simp add: counter_expiry_def cong del: sum.case_cong_weak)
    next
      case False
      have "wpr S R G (expires_at_from ttl) (\<lambda>e'. Q (?f e')) w"
        by (rule at) (use f Live False in \<open>simp_all add: counter_expiry_def cong del: sum.case_cong_weak\<close>)
      with False show ?thesis by simp
    qed
    then show ?thesis
      using Live by (simp add: counter_read_def wpr_await)
  qed
qed

text \<open>
  One round of a counter update, from the record read to what \<open>f\<close> makes of the acks.
\<close>

lemma wpr_counter_round:
  assumes kv: "kv_ok kv b"
    and R: "\<And>a c. R a c \<Longrightarrow> evolves V a c"
    and G: "\<And>a c. replaces V b key (counted x ttl step) a c \<Longrightarrow> G a c"
    and err: "\<And>e w1. reach_only V R b (keys_of key) w0 w1 \<Longrightarrow> Q (Inl e) w1"
    and s: "s = slot_at x t (cell V w1 b (encode_key key))"
    and w1: "reach_only V R b {index_key key} w0 w1" and w12: "reach V R w1 w2"
    and t: "clock V w1 \<le> t" "t \<le> clock V w2"
    and read: "\<And>w3 cur. reach V R w2 w3 \<Longrightarrow> ttl = None \<Longrightarrow> is_live s \<Longrightarrow> count_of x s = Inr cur \<Longrightarrow>
                 step cur = Inr cur \<Longrightarrow> Q (Inr cur) w3"
    and after: "\<And>w5 r i n. reach_only V R b (keys_of key) w0 w5 \<Longrightarrow>
        (\<And>e. r = Inl e \<Longrightarrow> lost_cas e \<Longrightarrow> reach_only V R b {index_key key} w0 w5) \<Longrightarrow>
        (\<And>q k. r = Inr q \<Longrightarrow> (case i of Some j \<Rightarrow> index_done j | None \<Rightarrow> Inr None) = Inr k \<Longrightarrow>
           \<exists>w3 w4 w4' t' cur ex. reach V R w2 w3 \<and> clock V w2 \<le> t' \<and> t' \<le> clock V w3 \<and>
             count_of x s = Inr cur \<and> step cur = Inr n \<and>
             cell V w3 b (encode_key key) = cell V w1 b (encode_key key) \<and>
             stored V w3 w4 b (encode_key key) (publish_headers (counter_expiry t' ttl s) ex)
               (encode_value (i64_to_string n) (counter_expiry t' ttl s)) q \<and>
             reach V R w4 w4' \<and> only V b {index_key key} w4' w5 \<and>
             (\<not> is_live s \<longrightarrow> cell V w5 b (index_key key) \<noteq> None)) \<Longrightarrow>
        wpr S R G (f n r i) Q w5"
  shows "wpr S R G (await_ok (counter_read x ttl s) (\<lambda>(current, expires_at_secs, expect, creates).
     await_ok (Done (step current)) (\<lambda>n.
       if n = current \<and> \<not> creates \<and> ttl = None then Done (Inr n)
       else
         await_ok (publish kv (encode_key key) (i64_to_string n) expires_at_secs expect) (\<lambda>pending.
         await_ok (if creates
                   then await_ok (publish_index kv key) (\<lambda>index. Done (Inr (Some index)))
                   else Done (Inr None)) (f n pending))))) Q w2"
  unfolding wpr_await_ok [where p = "counter_read x ttl s"]
proof (rule wpr_counter_read, goal_cases)
  case (1 a c)
  then show ?case by (intro G only_index_replaces only_quiet)
next
  case (2 a c)
  then show ?case by (rule R)
next
  case (3 w3 e)
  show ?case
    using err [OF reach_only_mono [OF reach_only_trans [OF w1 reach_only_reach [OF reach_trans [OF w12 3]]]]]
    by simp
next
  case (4 w3 t' cur)
  have i3: "reach_only V R b {index_key key} w0 w3"
    by (rule reach_only_trans [OF w1 reach_only_reach [OF reach_trans [OF w12 4(1)]]])
  have w3: "reach_only V R b (keys_of key) w0 w3"
    using reach_only_mono [OF i3] by simp
  show ?case
  proof (cases "step cur")
    case (Inl e)
    then show ?thesis using err [OF w3] by simp
  next
    case (Inr n)
    let ?e = "counter_expiry t' ttl s"
    have Gi: "G a c" if "only V b {index_key key} a c" for a c
      by (rule G [OF only_index_replaces [OF that]])
    have Gq: "G a c" if "quiet V a c" for a c
      by (rule Gi [OF only_quiet [OF that]])
    have same: "cell V wa b (encode_key key) = cell V w1 b (encode_key key)"
      if "reach V R w3 wa" "stored V wa wb b (encode_key key) (publish_headers ?e (expect_of s)) p q" for wa wb p q
      by (rule meets_expect_of [OF reach_evolves [OF reach_trans [OF w12 reach_trans [OF 4(1) that(1)]] R]
            storedD(3) [OF that(2), unfolded s]])
    have clocks: "t \<le> clock V wa" "t' \<le> clock V wa" if "reach V R w3 wa" for wa
      using reach_evolves [OF that R] reach_evolves [OF 4(1) R] t 4(3) by (auto simp: evolves_def)
    have Gd: "G wa wb" if "reach V R w3 wa" "data_outcome V wa wb b key (i64_to_string n) ?e (expect_of s) r"
      for wa wb r
      by (rule G [OF data_outcome_replaces [OF that(2)]])
        (use clocks [OF that(1)] same [OF that(1)] Inr 4(4) s in \<open>auto simp: counted_def data_msg_def\<close>)
    have after_data: "reach_only V R b (keys_of key) w0 wc"
      if "reach V R w3 wa" "data_outcome V wa wb b key (i64_to_string n) ?e (expect_of s) r" "reach V R wb wc"
      for wa wb wc r
      using reach_only_trans [OF w3 reach_only_trans [OF reach_only_reach [OF that(1)]
            reach_only_trans [OF reach_only_step [OF publish_outcome_only [OF that(2)]]
              reach_only_reach [OF that(3)]]]]
      by simp
    have ok: "wpr S R G (f n r i) Q we"
      if d: "reach V R w3 wa" "data_outcome V wa wb b key (i64_to_string n) ?e (expect_of s) r"
        and m: "reach V R wb wd" "only V b {index_key key} wd we"
        and ix: "\<And>k. (case i of Some j \<Rightarrow> index_done j | None \<Rightarrow> Inr None) = Inr k \<Longrightarrow>
                   \<not> is_live s \<longrightarrow> cell V we b (index_key key) \<noteq> None"
      for wa wb wd we r i
    proof (rule after)
      show "reach_only V R b (keys_of key) w0 we"
        using reach_only_trans [OF after_data [OF d m(1)] reach_only_step [OF only_mono [OF m(2)]]] by simp
    next
      fix e assume "r = Inl e" "lost_cas e"
      with d(2) have q: "quiet V wa wb"
        by (simp add: publish_outcome_def)
      show "reach_only V R b {index_key key} w0 we"
        by (rule reach_only_trans [OF i3 reach_only_trans [OF reach_only_reach [OF reach_trans [OF d(1)
                  reach_trans [OF reach_quiet [OF q] m(1)]]] reach_only_step [OF m(2)]]])
    next
      fix q k
      assume q: "r = Inr q" and k: "(case i of Some j \<Rightarrow> index_done j | None \<Rightarrow> Inr None) = Inr k"
      from d(2) q have st: "stored V wa wb b (encode_key key) (publish_headers ?e (expect_of s))
          (encode_value (i64_to_string n) ?e) q"
        by (simp add: publish_outcome_def)
      then show "\<exists>w3 w4 w4' t' cur ex. reach V R w2 w3 \<and> clock V w2 \<le> t' \<and> t' \<le> clock V w3 \<and>
             count_of x s = Inr cur \<and> step cur = Inr n \<and>
             cell V w3 b (encode_key key) = cell V w1 b (encode_key key) \<and>
             stored V w3 w4 b (encode_key key) (publish_headers (counter_expiry t' ttl s) ex)
               (encode_value (i64_to_string n) (counter_expiry t' ttl s)) q \<and>
             reach V R w4 w4' \<and> only V b {index_key key} w4' we \<and>
             (\<not> is_live s \<longrightarrow> cell V we b (index_key key) \<noteq> None)"
        using 4 Inr ix [OF k] same [OF d(1) st] clocks [OF d(1)] m reach_trans [OF 4(1) d(1)] by blast
    qed
    have publishing: "wpr S R G (await_ok (publish kv (encode_key key) (i64_to_string n) ?e (expect_of s)) (\<lambda>pending.
         await_ok (if \<not> is_live s
                   then await_ok (publish_index kv key) (\<lambda>index. Done (Inr (Some index)))
                   else Done (Inr None)) (f n pending))) Q w3"
    proof (cases "is_live s")
      case False
      have "wpr S R G (await_ok (publish kv (encode_key key) (i64_to_string n) ?e (expect_of s)) (\<lambda>pending.
              await_ok (publish_index kv key) (\<lambda>i. f n pending (Some i)))) Q w3"
      proof (rule wpr_data_then_index [OF kv Gq Gd Gi], goal_cases)
        case (5 wa er)
        show ?case by (rule err [OF reach_only_trans [OF w3 reach_only_reach [OF 5]]])
      next
        case (6 wa wb wc r er)
        show ?case by (rule err [OF after_data [OF 6]])
      next
        case (7 wa wb wc wd r ri)
        show ?case
        proof (rule ok [OF 7(1-3)])
          show "only V b {index_key key} wc wd"
            by (rule publish_outcome_only [OF 7(4)]) simp
          show "\<not> is_live s \<longrightarrow> cell V wd b (index_key key) \<noteq> None"
            if "(case Some ri of Some j \<Rightarrow> index_done j | None \<Rightarrow> Inr None) = Inr k" for k
            using index_outcome_ok [OF 7(4)] that by auto
        qed
      qed
      with False show ?thesis
        by (simp add: await_ok_assoc)
    next
      case True
      have "wpr S R G (publish kv (encode_key key) (i64_to_string n) ?e (expect_of s))
              (\<lambda>r. case r of Inl e \<Rightarrow> Q (Inl e) | Inr r \<Rightarrow> wpr S R G (f n r None) Q) w3"
      proof (rule wpr_publish [OF kv Gq], goal_cases)
        case (2 wa e)
        show ?case
          using err [OF reach_only_trans [OF w3 reach_only_reach [OF 2]]] by simp
      next
        case (3 wa wb r)
        show ?case
          using Gd [OF 3] ok [OF 3 reach_refl only_refl, of None] True by simp
      qed
      with True show ?thesis
        by (simp add: wpr_await_ok cong del: sum.case_cong_weak)
    qed
    show ?thesis
    proof (cases "n = cur \<and> is_live s \<and> ttl = None")
      case True
      then show ?thesis
        using read [OF 4(1) _ _ 4(4)] Inr by simp
    next
      case False
      then show ?thesis
        using publishing Inr by auto
    qed
  qed
qed

text \<open>The rounds of a counter update under interference.\<close>

lemma wpr_update_counter_loop:
  assumes kv: "kv_ok kv b"
    and R: "\<And>a c. R a c \<Longrightarrow> evolves V a c"
    and G: "\<And>a c. replaces V b key (counted x ttl step) a c \<Longrightarrow> G a c"
    and err: "\<And>e w1. reach_only V R b (keys_of key) w0 w1 \<Longrightarrow> Q (Inl e) w1"
    and read: "\<And>w1 w2 t cur. reach_only V R b {index_key key} w0 w1 \<Longrightarrow> reach V R w1 w2 \<Longrightarrow>
               clock V w1 \<le> t \<Longrightarrow> t \<le> clock V w2 \<Longrightarrow> ttl = None \<Longrightarrow>
               is_live (slot_at x t (cell V w1 b (encode_key key))) \<Longrightarrow>
               count_of x (slot_at x t (cell V w1 b (encode_key key))) = Inr cur \<Longrightarrow>
               step cur = Inr cur \<Longrightarrow> Q (Inr cur) w2"
    and wrote: "\<And>w1 w2 w3 w4 n seq t t' cur ex. reach_only V R b {index_key key} w0 w1 \<Longrightarrow>
               t \<le> clock V w1 \<Longrightarrow> t' \<le> clock V w1 \<Longrightarrow> clock V w0 \<le> t \<Longrightarrow> clock V w0 \<le> t' \<Longrightarrow>
               count_of x (slot_at x t (cell V w1 b (encode_key key))) = Inr cur \<Longrightarrow> step cur = Inr n \<Longrightarrow>
               stored V w1 w2 b (encode_key key)
                 (publish_headers (counter_expiry t' ttl (slot_at x t (cell V w1 b (encode_key key)))) ex)
                 (encode_value (i64_to_string n)
                   (counter_expiry t' ttl (slot_at x t (cell V w1 b (encode_key key))))) seq \<Longrightarrow>
               reach V R w2 w3 \<Longrightarrow> only V b {index_key key} w3 w4 \<Longrightarrow>
               (\<not> is_live (slot_at x t (cell V w1 b (encode_key key))) \<longrightarrow>
                  cell V w4 b (index_key key) \<noteq> None) \<Longrightarrow> Q (Inr n) w4"
    and start: "reach_only V R b {index_key key} w0 w"
  shows "wpr S R G (update_counter_loop x kv opn key ttl step left attempt) Q w"
  using start
proof (induction left arbitrary: attempt w)
  case 0
  then show ?case using err [OF reach_only_mono [OF 0]] by simp
next
  case (Suc left)
  have Gi: "G a c" if "only V b {index_key key} a c" for a c
    by (rule G [OF only_index_replaces [OF that]])
  have Gq: "G a c" if "quiet V a c" for a c
    by (rule Gi [OF only_quiet [OF that]])
  let ?after = "\<lambda>n pending index.
     let written = pending_done pending;
         indexed = (case index of Some i \<Rightarrow> index_done i | None \<Rightarrow> Inr None) in
     case written of
       Inr _ \<Rightarrow> Done (case indexed of Inl err \<Rightarrow> Inl err | Inr _ \<Rightarrow> Inr n)
     | Inl Conflict \<Rightarrow> update_counter_loop x kv opn key ttl step left (attempt + 1)
     | Inl (Failed err) \<Rightarrow> await (undo_index x kv key indexed) (\<lambda>_. Done (Inl err))"
  have after: "wpr S R G (?after n r i) Q w4"
    if w4: "reach_only V R b (keys_of key) w0 w4"
      and i4: "\<And>e. r = Inl e \<Longrightarrow> lost_cas e \<Longrightarrow> reach_only V R b {index_key key} w0 w4"
      and ok: "\<And>q k. r = Inr q \<Longrightarrow> (case i of Some j \<Rightarrow> index_done j | None \<Rightarrow> Inr None) = Inr k \<Longrightarrow> Q (Inr n) w4"
    for n r i w4
  proof -
    have undo: "wpr S R G (undo_index x kv key d) (\<lambda>_. Q (Inl er)) w4" for d er
    proof (rule wpr_undo_index [OF kv R Gi])
      show "Q (Inl er) w5" if "reach_only V R b {index_key key} w4 w5" for w5
        by (rule err [OF reach_only_trans [OF w4 reach_only_mono [OF that]]]) simp
    qed
    show ?thesis
    proof (cases r)
      case (Inl e)
      then show ?thesis
        using undo Suc.IH [OF i4 [OF Inl]] by (cases "lost_cas e") (simp_all add: wpr_await)
    next
      case (Inr q)
      then show ?thesis
        using ok [OF Inr] err [OF w4] by (auto split: sum.splits)
    qed
  qed
  let ?rest = "\<lambda>s. await_ok (counter_read x ttl s) (\<lambda>(current, expires_at_secs, expect, creates).
     await_ok (Done (step current)) (\<lambda>n.
       if n = current \<and> \<not> creates \<and> ttl = None then Done (Inr n)
       else
         await_ok (publish kv (encode_key key) (i64_to_string n) expires_at_secs expect) (\<lambda>pending.
         await_ok (if creates
                   then await_ok (publish_index kv key) (\<lambda>index. Done (Inr (Some index)))
                   else Done (Inr None)) (?after n pending))))"
  have rest: "wpr S R G (?rest (slot_at x t (cell V w1 b (encode_key key)))) Q w2"
    if w1: "reach_only V R b {index_key key} w0 w1" and w12: "reach V R w1 w2"
      and t: "clock V w1 \<le> t" "t \<le> clock V w2" for w1 w2 t
  proof (rule wpr_counter_round [where ?w1.0 = w1 and ?w0.0 = w0 and t = t and x = x and G = G and Q = Q,
        OF kv R G err refl w1 w12 t], goal_cases)
    case (4 w3 cur)
    have "t \<le> clock V w3"
      using reach_evolves [OF 4(1) R] t(2) by (auto simp: evolves_def)
    then show ?case
      using read [OF w1 reach_trans [OF w12 4(1)] t(1) _ 4(2-5)] by blast
  next
    case (5 w5 r i n)
    show ?case
    proof (rule after [OF 5(1,2)])
      fix q k
      assume "r = Inr q" "(case i of Some j \<Rightarrow> index_done j | None \<Rightarrow> Inr None) = Inr k"
      from 5(3) [OF this] obtain w3 w4 w4' t' cur ex where
        o: "reach V R w2 w3" "clock V w2 \<le> t'" "t' \<le> clock V w3"
          "count_of x (slot_at x t (cell V w3 b (encode_key key))) = Inr cur" "step cur = Inr n"
          "stored V w3 w4 b (encode_key key)
            (publish_headers (counter_expiry t' ttl (slot_at x t (cell V w3 b (encode_key key)))) ex)
            (encode_value (i64_to_string n) (counter_expiry t' ttl (slot_at x t (cell V w3 b (encode_key key))))) q"
          "reach V R w4 w4'" "only V b {index_key key} w4' w5"
          "\<not> is_live (slot_at x t (cell V w3 b (encode_key key))) \<longrightarrow> cell V w5 b (index_key key) \<noteq> None"
        by metis
      have "clock V w0 \<le> clock V w1" "clock V w1 \<le> clock V w2"
        using reach_only_evolves [OF w1 R] reach_evolves [OF w12 R] by (auto simp: evolves_def)
      then show "Q (Inr n) w5"
        using wrote [OF reach_only_trans [OF w1 reach_only_reach [OF reach_trans [OF w12 o(1)]]] _ o(3) _ _ o(4-9)]
          t o(2,3) by auto
    qed
  qed
  have round: "wpr S R G (await_ok (slot x kv (encode_key key) key) ?rest) Q w'"
    if w': "reach V R w w'" for w'
    unfolding wpr_await_ok [where p = "slot x kv (encode_key key) key"]
  proof (rule wpr_slot [OF kv Gq R], goal_cases)
    case (3 w1 e)
    show ?case
      using err [OF reach_only_mono [OF reach_only_trans [OF Suc.prems reach_only_reach
              [OF reach_trans [OF w' 3]]]]] by simp
  next
    case (4 w1 w2 t)
    then show ?case
      using rest [OF reach_only_trans [OF Suc.prems reach_only_reach [OF reach_trans [OF w' 4(1)]]] 4(2-4)]
      by simp
  qed
  have "wpr S R G (cas_backoff attempt) (\<lambda>_. wpr S R G (await_ok (slot x kv (encode_key key) key) ?rest) Q) w"
    by (rule wpr_cas_backoff [OF Gq round])
  with round [OF reach_refl] show ?case
    by (simp add: wpr_await)
qed

end


section \<open>Expiring and deleting\<close>

text \<open>The record that comes of setting the time to live of a live value.\<close>

definition extended ::
  "externals \<Rightarrow> duration option \<Rightarrow> u64 \<Rightarrow> raw_message option \<Rightarrow> raw_message \<Rightarrow> bool" where
  "extended x ttl now old m \<longleftrightarrow>
     (\<exists>t t' v e n. t \<le> now \<and> t' \<le> now \<and> slot_at x t old = Live v e n
        \<and> raw_payload m = encode_value v (ttl_expiry t' ttl))"

context jetstream
begin

lemma wpr_kv_write:
  assumes kv: "kv_ok kv b"
    and G: "\<And>a c. quiet V a c \<Longrightarrow> G a c"
    and err: "\<And>w1 er. reach V R w w1 \<Longrightarrow> Q (Inl (Failed (BackendUnavailable er))) w1"
    and ok: "\<And>w1 w2 r. reach V R w w1 \<Longrightarrow>
               publish_outcome V w1 w2 b k (publish_headers e ex) (encode_value v e) r \<Longrightarrow>
               G w1 w2 \<and> Q (pending_done r) w2"
  shows "wpr S R G (kv_write kv k v e ex) Q w"
  unfolding kv_write_def wpr_await
  by (rule wpr_publish [OF kv G]) (use err ok in auto)

lemma wpr_expire_loop:
  assumes kv: "kv_ok kv b"
    and R: "\<And>a c. R a c \<Longrightarrow> evolves V a c"
    and G: "\<And>a c. replaces V b key (extended x ttl) a c \<Longrightarrow> G a c"
    and err: "\<And>e w1. reach_only V R b (keys_of key) w0 w1 \<Longrightarrow> Q (Inl e) w1"
    and no: "\<And>w1 w2 t. reach V R w0 w1 \<Longrightarrow> reach V R w1 w2 \<Longrightarrow>
               clock V w1 \<le> t \<Longrightarrow> t \<le> clock V w2 \<Longrightarrow>
               \<not> is_live (slot_at x t (cell V w1 b (encode_key key))) \<Longrightarrow> Q (Inr False) w2"
    and yes: "\<And>w1 w2 t t' v e n q. reach V R w0 w1 \<Longrightarrow>
               clock V w0 \<le> t \<Longrightarrow> t \<le> clock V w1 \<Longrightarrow> clock V w0 \<le> t' \<Longrightarrow> t' \<le> clock V w1 \<Longrightarrow>
               slot_at x t (cell V w1 b (encode_key key)) = Live v e n \<Longrightarrow>
               stored V w1 w2 b (encode_key key) (publish_headers (ttl_expiry t' ttl) (Revision n))
                 (encode_value v (ttl_expiry t' ttl)) q \<Longrightarrow> Q (Inr True) w2"
    and start: "reach V R w0 w"
  shows "wpr S R G (expire_loop x kv key ttl left attempt) Q w"
  using start
proof (induction left arbitrary: attempt w)
  case 0
  then show ?case using err [OF reach_only_reach [OF 0]] by simp
next
  case (Suc left)
  have Gq: "G a c" if "quiet V a c" for a c
    by (rule G [OF only_index_replaces [OF only_quiet [OF that]]])
  let ?put = "\<lambda>v n e. await (kv_write kv (encode_key key) v e (Revision n)) (\<lambda>r.
             case r of
               Inr _ \<Rightarrow> Done (Inr True)
             | Inl Conflict \<Rightarrow> expire_loop x kv key ttl left (attempt + 1)
             | Inl (Failed err) \<Rightarrow> Done (Inl err))"
  let ?rest = "\<lambda>s. case s of
         Live val _ seq \<Rightarrow> await (expires_at_from ttl) (?put val seq)
       | Empty \<Rightarrow> Done (Inr False)
       | Dead _ \<Rightarrow> Done (Inr False)"
  have put: "wpr S R G (?put v n (ttl_expiry t' ttl)) Q w3"
    if w1: "reach V R w0 w1" and w13: "reach V R w1 w3"
      and t: "clock V w1 \<le> t" "t \<le> clock V w3" "clock V w1 \<le> t'" "t' \<le> clock V w3"
      and s: "slot_at x t (cell V w1 b (encode_key key)) = Live v e n" for w1 w3 t t' v e n
    unfolding wpr_await
  proof (rule wpr_kv_write [OF kv Gq], goal_cases)
    case (2 w4 er)
    show ?case
      using err [OF reach_only_reach [OF reach_trans [OF w1 reach_trans [OF w13 2]]]] by simp
  next
    case (3 w4 w5 r)
    have ev: "evolves V w1 w4" "evolves V w3 w4" "evolves V w0 w1"
      using reach_evolves [OF reach_trans [OF w13 3(1)] R] reach_evolves [OF 3(1) R]
        reach_evolves [OF w1 R] by simp_all
    have ok: "slot_at x t (cell V w4 b (encode_key key)) = Live v e n"
      if "stored V w4 w5 b (encode_key key) (publish_headers (ttl_expiry t' ttl) (Revision n)) p q" for p q
      using meets_expect_of [OF ev(1), of "ttl_expiry t' ttl" x t b "encode_key key"] storedD(3) [OF that] s by simp
    have clocks: "t \<le> clock V w4" "t' \<le> clock V w4" "clock V w0 \<le> t" "clock V w0 \<le> t'"
      using ev t by (auto simp: evolves_def)
    have "replaces V b key (extended x ttl) w4 w5"
      by (rule data_outcome_replaces [OF 3(2)])
        (use clocks ok in \<open>fastforce simp: extended_def data_msg_def\<close>)
    then have G45: "G w4 w5" by (rule G)
    have w4: "reach V R w0 w4"
      by (rule reach_trans [OF w1 reach_trans [OF w13 3(1)]])
    have w5: "reach_only V R b (keys_of key) w0 w5"
      by (rule reach_only_trans [OF reach_only_reach [OF w4] reach_only_step [OF publish_outcome_only [OF 3(2)]]]) simp
    from 3(2) show ?case
    proof (cases rule: publish_outcome_cases)
      case (stored q)
      then show ?thesis
        using G45 yes [OF w4 clocks(3,1,4,2) ok stored(2)] by simp
    next
      case (lost er)
      then show ?thesis using G45 Suc.IH [OF reach_trans [OF w4 reach_quiet]] by simp
    next
      case (unknown er)
      then show ?thesis using G45 err [OF w5] by simp
    qed
  qed
  have round: "wpr S R G (await_ok (slot x kv (encode_key key) key) ?rest) Q w'"
    if w': "reach V R w w'" for w'
    unfolding wpr_await_ok
  proof (rule wpr_slot [OF kv Gq R], goal_cases)
    case (3 w1 e)
    show ?case
      using err [OF reach_only_reach [OF reach_trans [OF Suc.prems reach_trans [OF w' 3]]]] by simp
  next
    case (4 w1 w2 t)
    have w1: "reach V R w0 w1"
      by (rule reach_trans [OF Suc.prems reach_trans [OF w' 4(1)]])
    show ?case
    proof (cases "slot_at x t (cell V w1 b (encode_key key))")
      case (Live v e n)
      have "wpr S R G (expires_at_from ttl) (\<lambda>e. wpr S R G (?put v n e) Q) w2"
      proof (rule wpr_expires_at_from [OF Gq R, folded ttl_expiry_def], goal_cases)
        case (3 w3 t')
        have "clock V w1 \<le> t'" "t \<le> clock V w3"
          using 3 4 reach_evolves [OF 4(2) R] reach_evolves [OF 3(1) R] by (auto simp: evolves_def)
        then show ?case
          using put [OF w1 reach_trans [OF 4(2) 3(1)] 4(3) _ _ 3(3) Live] by blast
      qed
      with Live show ?thesis by (simp add: wpr_await)
    qed (use no [OF w1 4(2-4)] in \<open>simp_all add: is_live_def\<close>)
  qed
  have "wpr S R G (cas_backoff attempt) (\<lambda>_. wpr S R G (await_ok (slot x kv (encode_key key) key) ?rest) Q) w"
    by (rule wpr_cas_backoff [OF Gq round])
  with round [OF reach_refl] show ?case
    by (simp add: wpr_await)
qed

lemma delete_alone:
  assumes kv: "kv_ok kv b" and po: "parse_op_ok (ext_parse_op x)"
    and run: "run S (delete x kv key) w = (r, w')"
  shows "only V b {encode_key key} w w'"
    and "r = Inr ex \<Longrightarrow> (\<exists>n. \<forall>t. slot_at x t (cell V w' b (encode_key key)) = Dead n)
           \<and> (\<exists>t. clock V w \<le> t \<and> t \<le> clock V w' \<and> ex = is_live (slot_at x t (cell V w b (encode_key key))))"
proof -
  let ?Q = "\<lambda>r w'. only V b {encode_key key} w w' \<and> (\<forall>ex. r = Inr ex \<longrightarrow>
      (\<exists>n. \<forall>t. slot_at x t (cell V w' b (encode_key key)) = Dead n)
      \<and> (\<exists>t. clock V w \<le> t \<and> t \<le> clock V w' \<and> ex = is_live (slot_at x t (cell V w b (encode_key key)))))"
  let ?h = "hdr_insert ''KV-Operation'' ''DEL'' []"
  have h: "hdr_get ?h KV_OPERATION_HEADER = Some ''DEL''" "meets ?h c" for c
    by (simp_all add: KV_OPERATION_HEADER_def meets_def expects_def EXPECTED_LAST_SUBJECT_SEQUENCE_def)
  have "wpr S (=) (\<lambda>_ _. True) (delete x kv key) ?Q w"
    unfolding delete_def wpr_await_ok
  proof (rule wpr_slot [OF kv], goal_cases)
    case (4 w1 w2 t)
    then have q: "quiet V w w2" "clock V w \<le> t" "cell V w1 = cell V w"
      by (auto simp: reach_alone quietD intro: quiet_trans) (auto simp: quiet_def)
    let ?live = "is_live (slot_at x t (cell V w1 b (encode_key key)))"
    have "wpr S (=) (\<lambda>_ _. True) (publish_marker kv (encode_key key)) (\<lambda>p. case p of Inl e \<Rightarrow> ?Q (Inl e)
            | Inr pending \<Rightarrow> ?Q (case pending_done pending of Inr _ \<Rightarrow> Inr ?live | Inl Conflict \<Rightarrow> Inr ?live
                 | Inl (Failed e) \<Rightarrow> Inl e)) w2"
      unfolding publish_marker_def
    proof (rule wpr_publish_record [OF kv], goal_cases)
      case (2 w3 e)
      then show ?case using q by (auto simp: reach_alone intro: only_quiet quiet_trans)
    next
      case (3 w3 w4 rp)
      have o: "only V b {encode_key key} w w4"
        using quiet_then_only [OF quiet_trans [OF q(1)] publish_outcome_only [OF 3(2)]] 3(1)
        by (simp add: reach_alone)
      have "t \<le> clock V w4"
        using 4(4) 3(1) only_clock [OF publish_outcome_only [OF 3(2), of "{encode_key key}"]]
        by (auto simp: reach_alone quiet_def)
      with q(2,3) have ex: "\<exists>t'. clock V w \<le> t' \<and> t' \<le> clock V w4 \<and>
            ?live = is_live (slot_at x t' (cell V w b (encode_key key)))"
        by (intro exI [of _ t]) simp
      from 3(2) show ?case
      proof (cases rule: publish_outcome_cases)
        case (stored n)
        have "slot_at x t' (cell V w4 b (encode_key key)) = Dead n" for t'
          using storedD(1) [OF stored(2)] leader_record_operation_del [OF po h(1)] by (simp add: slot_at_def)
        with stored o ex show ?thesis by auto
      qed (use o h in auto)
    qed auto
    then show ?case
      by (simp add: wpr_await_ok cong del: sum.case_cong_weak)
  qed (auto simp: reach_alone intro: evolves_refl only_quiet)
  from run_of_wpr [OF this run] show "only V b {encode_key key} w w'"
    and "r = Inr ex \<Longrightarrow> (\<exists>n. \<forall>t. slot_at x t (cell V w' b (encode_key key)) = Dead n)
           \<and> (\<exists>t. clock V w \<le> t \<and> t \<le> clock V w' \<and> ex = is_live (slot_at x t (cell V w b (encode_key key))))"
    by auto
qed

end

end
