(* ===== verification/Ref_Server.thy ===== *)
theory Ref_Server
  imports Kv_Ops
begin

text \<open>
  A server that satisfies the laws of \<open>Jetstream\<close>: streams as a list of messages, a clock
  that sleeping moves, and a script of faults that the next calls meet. It shows that the
  laws can hold together, and the witnesses of the properties run on it.
\<close>

named_theorems ref_eval \<open>evaluation of runs against the reference server\<close>

section \<open>The world\<close>

datatype fault = NoFault | SendFails | Refused | AckLost

record ref_world =
  rw_msgs :: "((string \<times> string) \<times> raw_message) list"
  rw_tops :: "(string \<times> u64) list"
  rw_nanos :: nat
  rw_flags :: "(string \<times> bool) list"
  rw_consumers :: "((string \<times> string) \<times> consumer_config) list"
  rw_faults :: "fault list"
  rw_texts :: "(string \<times> string) list"
  rw_sent :: "nats_message list"
  rw_buckets :: "((js_context \<times> string) \<times> stream_config) list"
  rw_peers :: PeerCache

definition rw_top :: "ref_world \<Rightarrow> string \<Rightarrow> u64" where
  "rw_top w b = (case map_of (rw_tops w) b of None \<Rightarrow> 0 | Some n \<Rightarrow> n)"

definition rw_visible :: "ref_world \<Rightarrow> ((string \<times> string) \<times> raw_message) list" where
  "rw_visible w = filter (\<lambda>((b, k), m). 0 < raw_seq m \<and> raw_seq m \<le> rw_top w b) (rw_msgs w)"

definition rw_cell :: "ref_world \<Rightarrow> cells" where
  "rw_cell w b k = map_of (rw_visible w) (b, k)"

definition rw_clock :: "ref_world \<Rightarrow> u64" where
  "rw_clock w = u64_try_from_or_max (rw_nanos w div 1000000000)"

definition ref_view :: "ref_world view" where
  "ref_view = \<lparr>cell = rw_cell, top = rw_top, clock = rw_clock\<rparr>"

definition pop_fault :: "ref_world \<Rightarrow> fault \<times> ref_world" where
  "pop_fault w = (case rw_faults w of [] \<Rightarrow> (NoFault, w) | f # fs \<Rightarrow> (f, w\<lparr>rw_faults := fs\<rparr>))"

definition store_msg :: "ref_world \<Rightarrow> string \<Rightarrow> string \<Rightarrow> headers \<Rightarrow> bytes \<Rightarrow> ref_world" where
  "store_msg w b k h p =
     w\<lparr>rw_msgs := ((b, k), \<lparr>raw_seq = rw_top w b + 1, raw_headers = h, raw_payload = p\<rparr>)
          # filter (\<lambda>(bk, m). bk \<noteq> (b, k)) (rw_visible w),
       rw_tops := (b, rw_top w b + 1) # filter (\<lambda>(b', n). b' \<noteq> b) (rw_tops w)\<rparr>"

definition drop_msg :: "ref_world \<Rightarrow> string \<Rightarrow> string \<Rightarrow> ref_world" where
  "drop_msg w b k = w\<lparr>rw_msgs := filter (\<lambda>(bk, m). bk \<noteq> (b, k)) (rw_visible w)\<rparr>"

definition stream_bucket :: "string \<Rightarrow> string option" where
  "stream_bucket st = strip_prefix ''KV_'' st"

definition subject_bucket_key :: "string \<Rightarrow> (string \<times> string) option" where
  "subject_bucket_key sj =
     (case strip_prefix ''$KV.'' sj of
        None \<Rightarrow> None
      | Some r \<Rightarrow>
          (case dropWhile (\<lambda>c. c \<noteq> CHR ''.'') r of
             [] \<Rightarrow> None
           | _ # k \<Rightarrow> Some (takeWhile (\<lambda>c. c \<noteq> CHR ''.'') r, k)))"

definition cas_error :: client_error where
  "cas_error = \<lparr>ce_wrong_kind = True, ce_chain = [None, Some 10071], ce_text = ''wrong last sequence''\<rparr>"

definition other_error :: client_error where
  "other_error = \<lparr>ce_wrong_kind = False, ce_chain = [None], ce_text = ''timed out''\<rparr>"


section \<open>The calls\<close>

text \<open>A conditional store: what publishing, updating and deleting have in common.\<close>

definition ref_store ::
  "ref_world \<Rightarrow> string \<Rightarrow> string \<Rightarrow> headers \<Rightarrow> bytes \<Rightarrow> (client_error + u64) \<times> ref_world" where
  "ref_store w b k h p =
     (case pop_fault w of (f, w1) \<Rightarrow>
        if f = Refused \<or> f = SendFails \<or> rw_top w b = u64_max then (Inl other_error, w1)
        else if \<not> meets h (rw_cell w b k) then (Inl cas_error, w1)
        else (if f = AckLost then Inl other_error else Inr (rw_top w b + 1), store_msg w1 b k h p))"

definition ref_publish ::
  "ref_world \<Rightarrow> string \<Rightarrow> headers \<Rightarrow> bytes \<Rightarrow> (string + (client_error + u64)) \<times> ref_world" where
  "ref_publish w sj h p =
     (case subject_bucket_key sj of
        None \<Rightarrow> (Inr (Inl other_error), w)
      | Some (b, k) \<Rightarrow>
          if fst (pop_fault w) = SendFails then (Inl ''not connected'', snd (pop_fault w))
          else (case ref_store w b k h p of (r, w') \<Rightarrow> (Inr r, w')))"

definition ref_get_last :: "ref_world \<Rightarrow> string \<Rightarrow> string \<Rightarrow> last_result \<times> ref_world" where
  "ref_get_last w st sj =
     (case pop_fault w of (f, w1) \<Rightarrow>
        if f \<noteq> NoFault then (LastFailed ''timed out'', w1)
        else (case (stream_bucket st, subject_bucket_key sj) of
                (Some b, Some (b', k)) \<Rightarrow>
                  if b = b' then (case rw_cell w b k of
                     None \<Rightarrow> (NoMessageFound, w1) | Some m \<Rightarrow> (LastMessage m, w1))
                  else (NoMessageFound, w1)
              | _ \<Rightarrow> (LastFailed ''no such stream'', w1)))"

definition ref_purge ::
  "ref_world \<Rightarrow> string \<Rightarrow> string \<Rightarrow> u64 option \<Rightarrow> (string + unit) \<times> ref_world" where
  "ref_purge w st sj n =
     (case pop_fault w of (f, w1) \<Rightarrow>
        case subject_bucket_key sj of
          None \<Rightarrow> (Inl ''no such stream'', w1)
        | Some (b, k) \<Rightarrow>
            if f = Refused \<or> f = SendFails then (Inl ''timed out'', w1)
            else (if f = AckLost then Inl ''timed out'' else Inr (),
                  case rw_cell w b k of
                    None \<Rightarrow> w1
                  | Some m \<Rightarrow> (case n of
                       None \<Rightarrow> drop_msg w1 b k
                     | Some x \<Rightarrow> if raw_seq m < x then drop_msg w1 b k else w1)))"

definition ref_kv_update ::
  "ref_world \<Rightarrow> kv_store \<Rightarrow> string \<Rightarrow> bytes \<Rightarrow> u64 \<Rightarrow> (client_error + u64) \<times> ref_world" where
  "ref_kv_update w st k p e =
     ref_store w (st_name st) k [(EXPECTED_LAST_SUBJECT_SEQUENCE, u64_to_string e)] p"

definition ref_kv_delete :: "ref_world \<Rightarrow> kv_store \<Rightarrow> string \<Rightarrow> (string + unit) \<times> ref_world" where
  "ref_kv_delete w st k =
     (case ref_store w (st_name st) k [(KV_OPERATION_HEADER, ''DEL'')] [] of
        (Inl e, w') \<Rightarrow> (Inl (ce_text e), w') | (Inr _, w') \<Rightarrow> (Inr (), w'))"

definition ref_kv_delete_expect ::
  "ref_world \<Rightarrow> kv_store \<Rightarrow> string \<Rightarrow> u64 \<Rightarrow> (client_error + unit) \<times> ref_world" where
  "ref_kv_delete_expect w st k e =
     (case ref_store w (st_name st) k
             [(KV_OPERATION_HEADER, ''DEL''), (EXPECTED_LAST_SUBJECT_SEQUENCE, u64_to_string e)] [] of
        (Inl err, w') \<Rightarrow> (Inl err, w') | (Inr _, w') \<Rightarrow> (Inr (), w'))"

text \<open>The messages of a bucket in sequence order.\<close>

definition bucket_msgs :: "ref_world \<Rightarrow> string \<Rightarrow> (string \<times> raw_message) list" where
  "bucket_msgs w b =
     sort_key (\<lambda>(k, m). raw_seq m)
       (map (\<lambda>k. (k, the (rw_cell w b k)))
          (remdups (map (snd \<circ> fst) (filter (\<lambda>((b', k), m). b' = b) (rw_visible w)))))"

definition start_of :: "deliver_policy \<Rightarrow> u64" where
  "start_of p = (case p of DeliverAll \<Rightarrow> 0 | ByStartSequence n \<Rightarrow> n)"

definition scan_msgs :: "ref_world \<Rightarrow> string \<Rightarrow> consumer_config \<Rightarrow> (string \<times> raw_message) list" where
  "scan_msgs w b c =
     filter (\<lambda>(k, m). subject_matches (cc_filter_subject c) (kv_subject b k)
                    \<and> start_of (cc_deliver_policy c) \<le> raw_seq m) (bucket_msgs w b)"

definition ref_create_consumer ::
  "ref_world \<Rightarrow> string \<Rightarrow> consumer_config \<Rightarrow> (string + string \<times> u64) \<times> ref_world" where
  "ref_create_consumer w st c =
     (case pop_fault w of (f, w1) \<Rightarrow>
        case stream_bucket st of
          None \<Rightarrow> (Inl ''no such stream'', w1)
        | Some b \<Rightarrow>
            if f \<noteq> NoFault then (Inl ''timed out'', w1)
            else let name = cc_description c in
                 (Inr (name, u64_try_from_or_max (length (scan_msgs w b c))),
                  w1\<lparr>rw_consumers := ((st, name), c) # rw_consumers w1\<rparr>))"

fun deliveries :: "string \<Rightarrow> (string \<times> raw_message) list \<Rightarrow> next_event list" where
  "deliveries b [] = []"
| "deliveries b ((k, m) # ms) =
     NextRecord \<lparr>dl_subject = kv_subject b k, dl_headers = Some (raw_headers m),
       dl_info = Inr \<lparr>di_sequence = raw_seq m, di_pending = u64_try_from_or_max (length ms),
                      di_published = 0\<rparr>\<rparr> # deliveries b ms"

definition ref_messages :: "ref_world \<Rightarrow> string \<Rightarrow> string \<Rightarrow> (string + next_event list) \<times> ref_world" where
  "ref_messages w st name =
     (case pop_fault w of (f, w1) \<Rightarrow>
        case (stream_bucket st, map_of (rw_consumers w) (st, name)) of
          (Some b, Some c) \<Rightarrow>
            if f \<noteq> NoFault then (Inl ''timed out'', w1)
            else (Inr (deliveries b (scan_msgs w b c) @ [NextTimeout]), w1)
        | _ \<Rightarrow> (Inl ''no such consumer'', w1))"

definition ref_delete_consumer :: "ref_world \<Rightarrow> string \<Rightarrow> string \<Rightarrow> ref_world" where
  "ref_delete_consumer w st name =
     w\<lparr>rw_consumers := filter (\<lambda>(sn, c). sn \<noteq> (st, name)) (rw_consumers w)\<rparr>"

definition ref_subjects ::
  "ref_world \<Rightarrow> string \<Rightarrow> string \<Rightarrow> (string + (string + string) list) \<times> ref_world" where
  "ref_subjects w st f =
     (case pop_fault w of (ft, w1) \<Rightarrow>
        case stream_bucket st of
          None \<Rightarrow> (Inl ''no such stream'', w1)
        | Some b \<Rightarrow>
            if ft \<noteq> NoFault then (Inl ''timed out'', w1)
            else (Inr (map Inr (remdups (filter (subject_matches f)
                     (map (\<lambda>(k, m). kv_subject b k) (bucket_msgs w b))))), w1))"

definition ref_stream_info :: "ref_world \<Rightarrow> string \<Rightarrow> (string + stream_info) \<times> ref_world" where
  "ref_stream_info w st =
     (case stream_bucket st of
        None \<Rightarrow> (Inl ''no such stream'', w)
      | Some b \<Rightarrow> (Inr \<lparr>si_bytes = 0, si_messages = u64_try_from_or_max (length (bucket_msgs w b)),
                       si_max_bytes = - 1\<rparr>, w))"

definition ref_kv_keys :: "ref_world \<Rightarrow> kv_store \<Rightarrow> (string + (string + string) list) \<times> ref_world" where
  "ref_kv_keys w st =
     (Inr (map (\<lambda>(k, m). Inr k)
        (filter (\<lambda>(k, m). hdr_get (raw_headers m) KV_OPERATION_HEADER = None)
           (bucket_msgs w (st_name st)))), w)"

definition ref_kv_entry :: "ref_world \<Rightarrow> kv_store \<Rightarrow> string \<Rightarrow> (string + bytes option) \<times> ref_world" where
  "ref_kv_entry w st k = (Inr (map_option raw_payload (rw_cell w (st_name st) k)), w)"

text \<open>Core NATS keeps what was sent; a subscription gets what matches.\<close>

definition ref_nats_publish ::
  "ref_world \<Rightarrow> string \<Rightarrow> headers option \<Rightarrow> bytes \<Rightarrow> (string + unit) \<times> ref_world" where
  "ref_nats_publish w sj h b =
     (Inr (), w\<lparr>rw_sent := rw_sent w @ [\<lparr>nm_subject = sj, nm_headers = h, nm_payload = b\<rparr>]\<rparr>)"

definition ref_nats_subscribe ::
  "ref_world \<Rightarrow> string \<Rightarrow> string option \<Rightarrow> (string + nats_message list) \<times> ref_world" where
  "ref_nats_subscribe w pattern g = (Inr (filter (\<lambda>m. subject_matches pattern (nm_subject m)) (rw_sent w)), w)"

definition ref_bucket :: "ref_world \<Rightarrow> js_context \<Rightarrow> string \<Rightarrow> stream_config option" where
  "ref_bucket w js name =
     map_option (\<lambda>c. c\<lparr>sc_name := kv_stream name\<rparr>) (map_of (rw_buckets w) (js, name))"

definition ref_get_key_value ::
  "ref_world \<Rightarrow> js_context \<Rightarrow> string \<Rightarrow> (string + (kv_store \<times> stream_config)) \<times> ref_world" where
  "ref_get_key_value w js name =
     (case ref_bucket w js name of
        None \<Rightarrow> (Inl ''no such bucket'', w) | Some c \<Rightarrow> (Inr (store_of name, c), w))"

definition ref_create_key_value ::
  "ref_world \<Rightarrow> js_context \<Rightarrow> kv_config \<Rightarrow> (string + kv_store) \<times> ref_world" where
  "ref_create_key_value w js c =
     (if ref_bucket w js (kc_bucket c) \<noteq> None then (Inl ''stream name already in use'', w)
      else if kc_num_replicas c \<noteq> 1 then (Inl ''insufficient replicas'', w)
      else (Inr (store_of (kc_bucket c)),
            w\<lparr>rw_buckets := ((js, kc_bucket c), \<lparr>sc_name = kv_stream (kc_bucket c), sc_max_bytes = kc_max_bytes c,
                sc_num_replicas = 1, sc_storage = kc_storage c\<rparr>) # rw_buckets w\<rparr>))"

definition ref_update_stream :: "ref_world \<Rightarrow> js_context \<Rightarrow> stream_config \<Rightarrow> (string + unit) \<times> ref_world" where
  "ref_update_stream w js c =
     (case stream_bucket (sc_name c) of
        None \<Rightarrow> (Inl ''no such stream'', w)
      | Some b \<Rightarrow>
          if ref_bucket w js b = None then (Inl ''no such stream'', w)
          else (Inr (), w\<lparr>rw_buckets := ((js, b), c) # rw_buckets w\<rparr>))"

definition ref_server :: "ref_world server" where
  "ref_server = \<lparr>
     sv_system_now = (\<lambda>w. (Some \<lparr>dur_secs = rw_clock w, dur_nanos = rw_nanos w mod 1000000000\<rparr>, w)),
     sv_instant_now = (\<lambda>w. (rw_nanos w, w)),
     sv_sleep = (\<lambda>w d. w\<lparr>rw_nanos := rw_nanos w + d\<rparr>),
     sv_get_last = ref_get_last,
     sv_publish = ref_publish,
     sv_purge = ref_purge,
     sv_create_consumer = ref_create_consumer,
     sv_messages = ref_messages,
     sv_delete_consumer = ref_delete_consumer,
     sv_subjects = ref_subjects,
     sv_stream_info = ref_stream_info,
     sv_kv_update = ref_kv_update,
     sv_kv_delete = ref_kv_delete,
     sv_kv_delete_expect = ref_kv_delete_expect,
     sv_kv_keys = ref_kv_keys,
     sv_kv_entry = ref_kv_entry,
     sv_load_flag = (\<lambda>w f. (map_of (rw_flags w) f = Some True, w)),
     sv_store_flag = (\<lambda>w f b. w\<lparr>rw_flags := (f, b) # rw_flags w\<rparr>),
     sv_load_text = (\<lambda>w f. (case map_of (rw_texts w) f of None \<Rightarrow> [] | Some t \<Rightarrow> t, w)),
     sv_store_text = (\<lambda>w f t. w\<lparr>rw_texts := (f, t) # rw_texts w\<rparr>),
     sv_read_peers = (\<lambda>w. (rw_peers w, w)),
     sv_nats_publish = ref_nats_publish,
     sv_nats_flush = (\<lambda>w. (Inr (), w)),
     sv_nats_subscribe = ref_nats_subscribe,
     sv_credentials_file = (\<lambda>w p. (Inl ''no such file'', w)),
     sv_connect = (\<lambda>w opts servers ms. (Some (Inr ()), w)),
     sv_get_key_value = ref_get_key_value,
     sv_create_key_value = ref_create_key_value,
     sv_update_stream = ref_update_stream\<rparr>"

text \<open>An empty server at a given time, and client functions as documented.\<close>

definition ref_start :: "nat \<Rightarrow> ref_world" where
  "ref_start secs = \<lparr>rw_msgs = [], rw_tops = [], rw_nanos = secs * 1000000000, rw_flags = [],
     rw_consumers = [], rw_faults = [], rw_texts = [], rw_sent = [], rw_buckets = [], rw_peers = []\<rparr>"


section \<open>The laws hold\<close>

lemma ref_view_simps [simp]:
  "cell ref_view = rw_cell" "top ref_view = rw_top" "clock ref_view = rw_clock"
  by (simp_all add: ref_view_def)

lemma pop_fault_quiet:
  assumes "pop_fault w = (f, w1)"
  shows "rw_visible w1 = rw_visible w" "rw_top w1 = rw_top w" "rw_cell w1 = rw_cell w" "rw_clock w1 = rw_clock w"
  using assms
  by (auto simp: pop_fault_def rw_visible_def rw_top_def rw_cell_def rw_clock_def fun_eq_iff split: list.splits)

lemma quiet_pop_fault [simp]: "pop_fault w = (f, w1) \<Longrightarrow> quiet ref_view w w1"
  by (simp add: quiet_def pop_fault_quiet)

lemma rw_cell_bounds: "rw_cell w b k = Some m \<Longrightarrow> 0 < raw_seq m \<and> raw_seq m \<le> rw_top w b"
  by (auto simp: rw_cell_def rw_visible_def dest!: map_of_SomeD)

lemma map_of_filter_key:
  "map_of (filter (\<lambda>(a, m). a \<noteq> x) ms) y = (if y = x then None else map_of ms y)"
  by (induction ms) auto

lemma map_of_filter_fst:
  "map_of (filter (\<lambda>(a, m). a \<noteq> x) ms) = (map_of ms)(x := None)"
  by (rule ext) (simp add: map_of_filter_key)

lemma u64_less_Suc: "(n :: u64) \<noteq> u64_max \<Longrightarrow> n < n + 1"
proof -
  assume "n \<noteq> u64_max"
  then have "unat n \<noteq> 2 ^ 64 - 1"
    by (metis unat_u64_max word_unat_eq_iff)
  then have "unat n + 1 < 2 ^ 64"
    using unat_u64_less [of n] by linarith
  then show ?thesis
    by (simp add: word_less_nat_alt unat_word_ariths)
qed

lemma rw_top_store: "rw_top (store_msg w b k h p) = (rw_top w)(b := rw_top w b + 1)"
  by (auto simp: rw_top_def store_msg_def map_of_filter_fst fun_eq_iff)

lemma rw_visible_store:
  assumes "rw_top w b \<noteq> u64_max"
  shows "rw_visible (store_msg w b k h p) = rw_msgs (store_msg w b k h p)"
proof -
  have lt: "rw_top w b < rw_top w b + 1"
    using assms by (rule u64_less_Suc)
  have "0 < raw_seq m \<and> raw_seq m \<le> rw_top (store_msg w b k h p) b'"
    if "((b', k'), m) \<in> set (rw_msgs (store_msg w b k h p))" for b' k' m
    using that lt unfolding rw_top_store
    by (auto simp: store_msg_def rw_visible_def word_gt_0 intro: order.trans less_imp_le)
  then show ?thesis
    unfolding rw_visible_def by (auto simp: filter_id_conv)
qed

lemma store_msg_stored:
  assumes "rw_top w b \<noteq> u64_max" "meets h (rw_cell w b k)"
  shows "stored ref_view w (store_msg w b k h p) b k h p (rw_top w b + 1)"
proof -
  have "rw_top w b < rw_top w b + 1"
    using assms(1) by (rule u64_less_Suc)
  moreover have "rw_cell (store_msg w b k h p) =
      set_cell (rw_cell w) b k (Some \<lparr>raw_seq = rw_top w b + 1, raw_headers = h, raw_payload = p\<rparr>)"
    unfolding rw_cell_def rw_visible_store [OF assms(1)]
    by (auto simp: fun_eq_iff store_msg_def map_of_filter_key)
  moreover have "rw_clock (store_msg w b k h p) = rw_clock w"
    by (simp add: rw_clock_def store_msg_def)
  ultimately show ?thesis
    using assms(2) by (simp add: stored_def rw_top_store)
qed

lemma drop_msg_cells:
  "rw_cell (drop_msg w b k) = set_cell (rw_cell w) b k None" "rw_top (drop_msg w b k) = rw_top w"
  "rw_clock (drop_msg w b k) = rw_clock w"
proof -
  have "rw_visible (drop_msg w b k) = filter (\<lambda>(bk, m). bk \<noteq> (b, k)) (rw_visible w)"
    by (auto simp: rw_visible_def drop_msg_def rw_top_def intro: filter_cong)
  then show "rw_cell (drop_msg w b k) = set_cell (rw_cell w) b k None"
    by (auto simp: rw_cell_def fun_eq_iff map_of_filter_key)
qed (simp_all add: drop_msg_def rw_top_def fun_eq_iff rw_clock_def)

lemma stored_from_quiet:
  "quiet V w w1 \<Longrightarrow> stored V w1 w' b k h p n \<Longrightarrow> stored V w w' b k h p n"
  by (auto simp: stored_def quiet_def)

lemma lost_cas_errors [simp]: "lost_cas cas_error" "\<not> lost_cas other_error"
  by (simp_all add: lost_cas_def cas_error_def other_error_def)

lemma ref_store_outcome:
  assumes "ref_store w b k h p = (r, w')"
  shows "publish_outcome ref_view w w' b k h p r"
proof -
  obtain f w1 where f: "pop_fault w = (f, w1)"
    by fastforce
  note q = quiet_pop_fault [OF f] pop_fault_quiet [OF f]
  show ?thesis
  proof (cases "f = Refused \<or> f = SendFails \<or> rw_top w b = u64_max \<or> \<not> meets h (rw_cell w b k)")
    case True
    with assms f q show ?thesis
      by (auto simp: ref_store_def publish_outcome_def split: if_splits)
  next
    case False
    with q have "stored ref_view w (store_msg w1 b k h p) b k h p (rw_top w b + 1)"
      using store_msg_stored [of w1 b h k p] stored_from_quiet by metis
    with assms f False show ?thesis
      by (auto simp: ref_store_def publish_outcome_def split: if_splits)
  qed
qed

lemma subject_bucket_key_kv [simp]: "bucket_ok b \<Longrightarrow> subject_bucket_key (kv_subject b k) = Some (b, k)"
proof -
  assume ok: "bucket_ok b"
  have "strip_prefix ''$KV.'' (kv_subject b k) = Some (b @ ''.'' @ k)"
    unfolding kv_subject_def by (rule strip_prefix_append)
  moreover have "\<forall>c\<in>set b. c \<noteq> CHR ''.''"
    using ok by (auto simp: bucket_ok_def)
  ultimately show ?thesis
    by (simp add: subject_bucket_key_def dropWhile_append2 takeWhile_append2)
qed

lemma stream_bucket_kv [simp]: "stream_bucket (kv_stream b) = Some b"
  unfolding stream_bucket_def kv_stream_def by (rule strip_prefix_append)

lemma ref_purge_outcome:
  assumes "subject_bucket_key sj = Some (b, k)" "ref_purge w st sj n = (r, w')"
  shows "purge_outcome ref_view w w' b k n r"
proof -
  obtain f w1 where f: "pop_fault w = (f, w1)"
    by fastforce
  note q = quiet_pop_fault [OF f] pop_fault_quiet [OF f]
  have "rw_cell w = set_cell (rw_cell w) b k v" if "rw_cell w b k = v" for v
    using that by (auto simp: fun_eq_iff)
  with assms f q show ?thesis
    by (auto simp: ref_purge_def purge_outcome_def purged_def drop_msg_cells quiet_def
        split: option.splits if_splits)
qed

lemma ref_get_quiet:
  assumes "bucket_ok b" "ref_get_last w (kv_stream b) (kv_subject b k) = (r, w')"
  shows "quiet ref_view w w' \<and> get_outcome ref_view w b k r"
  using assms
  by (auto simp: ref_get_last_def get_outcome_def split: prod.splits option.splits if_splits)

lemma quiet_same [simp]:
  "quiet ref_view w (w1\<lparr>rw_consumers := cs\<rparr>) \<longleftrightarrow> quiet ref_view w w1"
  "quiet ref_view w (w1\<lparr>rw_flags := fs\<rparr>) \<longleftrightarrow> quiet ref_view w w1"
  "quiet ref_view w (w1\<lparr>rw_texts := ts\<rparr>) \<longleftrightarrow> quiet ref_view w w1"
  "quiet ref_view w (w1\<lparr>rw_sent := ms\<rparr>) \<longleftrightarrow> quiet ref_view w w1"
  "quiet ref_view w (w1\<lparr>rw_buckets := bs\<rparr>) \<longleftrightarrow> quiet ref_view w w1"
  by (simp_all add: quiet_def rw_cell_def [abs_def] rw_visible_def rw_top_def [abs_def] rw_clock_def)

lemma ref_scan_quiet:
  "ref_create_consumer w st c = (rc, w') \<Longrightarrow> quiet ref_view w w'"
  "ref_messages w st n = (rm, w') \<Longrightarrow> quiet ref_view w w'"
  "quiet ref_view w (ref_delete_consumer w st n)"
  "ref_subjects w st f = (rs, w') \<Longrightarrow> quiet ref_view w w'"
  "ref_stream_info w st = (ri, w') \<Longrightarrow> quiet ref_view w w'"
  by (auto simp: ref_create_consumer_def ref_messages_def ref_delete_consumer_def ref_subjects_def
      ref_stream_info_def Let_def split: prod.splits option.splits if_splits)

lemma ref_sleep_quiet: "quiet ref_view w (w\<lparr>rw_nanos := rw_nanos w + d\<rparr>)"
proof -
  have "u64_try_from_or_max m \<le> u64_try_from_or_max n" if "m \<le> n" for m n
    using that by (simp add: word_le_nat_alt unat_try_from_or_max min_le_iff_disj)
  then show ?thesis
    by (simp add: quiet_def rw_cell_def [abs_def] rw_visible_def rw_top_def [abs_def] rw_clock_def div_le_mono)
qed


lemma ref_publish_outcome:
  assumes "subject_bucket_key sj = Some (b, k)" "ref_publish w sj h p = (r, w')"
  shows "case r of Inl _ \<Rightarrow> quiet ref_view w w' | Inr r' \<Rightarrow> publish_outcome ref_view w w' b k h p r'"
  using assms ref_store_outcome quiet_pop_fault [of w "fst (pop_fault w)" "snd (pop_fault w)"]
  by (auto simp: ref_publish_def split: if_splits prod.splits)

lemma ref_store_evolves: "ref_store w b k h p = (r, w') \<Longrightarrow> evolves ref_view w w'"
  by (rule only_evolves [OF publish_outcome_only [OF ref_store_outcome]]) auto

lemma ref_publish_evolves: "ref_publish w sj h p = (r, w') \<Longrightarrow> evolves ref_view w w'"
  using quiet_pop_fault [of w "fst (pop_fault w)" "snd (pop_fault w)"]
  by (auto simp: ref_publish_def evolves_refl split: if_splits prod.splits option.splits
      intro: ref_store_evolves quiet_evolves)

lemma ref_purge_evolves: "ref_purge w st sj n = (r, w') \<Longrightarrow> evolves ref_view w w'"
proof (cases "subject_bucket_key sj")
  case None
  then show "ref_purge w st sj n = (r, w') \<Longrightarrow> ?thesis"
    by (auto simp: ref_purge_def split: prod.splits intro: quiet_evolves)
next
  case (Some bk)
  moreover assume "ref_purge w st sj n = (r, w')"
  ultimately show ?thesis
    using only_evolves [OF purge_outcome_only [OF ref_purge_outcome]] by (metis insertI1 prod.exhaust)
qed

lemma ref_get_evolves: "ref_get_last w st sj = (r, w') \<Longrightarrow> evolves ref_view w w'"
  by (auto simp: ref_get_last_def split: prod.splits option.splits if_splits intro: quiet_evolves)

lemma ref_kv_evolves:
  "ref_kv_update w ks k p e = (ru, w') \<Longrightarrow> evolves ref_view w w'"
  "ref_kv_delete w ks k = (rd, w') \<Longrightarrow> evolves ref_view w w'"
  "ref_kv_delete_expect w ks k e = (re, w') \<Longrightarrow> evolves ref_view w w'"
  by (auto simp: ref_kv_update_def ref_kv_delete_def ref_kv_delete_expect_def
      split: prod.splits sum.splits intro: ref_store_evolves)

lemma ref_node_quiet: "perform_node ref_server w act = (x, w') \<Longrightarrow> quiet ref_view w w'"
  by (cases act) (auto simp: ref_server_def apfst_def map_prod_def ref_nats_publish_def ref_nats_subscribe_def
      ref_get_key_value_def ref_create_key_value_def ref_update_stream_def split: option.splits if_splits)

lemma ref_evolves:
  assumes "perform ref_server w act = (x, w')"
  shows "evolves ref_view w w'"
  using assms
  by (cases act) (auto simp: ref_server_def apfst_def map_prod_def ref_kv_keys_def ref_kv_entry_def
      split: prod.splits intro: evolves_refl quiet_evolves [OF ref_scan_quiet(1)] quiet_evolves [OF ref_scan_quiet(2)]
        quiet_evolves [OF ref_scan_quiet(3)] quiet_evolves [OF ref_scan_quiet(4)] quiet_evolves [OF ref_scan_quiet(5)]
        quiet_evolves [OF ref_sleep_quiet] ref_publish_evolves ref_purge_evolves ref_get_evolves ref_kv_evolves
        quiet_evolves quiet_evolves [OF ref_node_quiet [unfolded ref_server_def]])

lemma put_headers_ref:
  "put_headers [(EXPECTED_LAST_SUBJECT_SEQUENCE, u64_to_string e)] e"
  "meets [(EXPECTED_LAST_SUBJECT_SEQUENCE, u64_to_string e)] c \<longleftrightarrow> last_seq c = e"
  by (simp_all add: put_headers_def expects_def hdr_get_def meets_def)

lemma del_headers_ref:
  "del_headers [(KV_OPERATION_HEADER, ''DEL''), (EXPECTED_LAST_SUBJECT_SEQUENCE, u64_to_string e)] (Some e)
     \<and> (meets [(KV_OPERATION_HEADER, ''DEL''), (EXPECTED_LAST_SUBJECT_SEQUENCE, u64_to_string e)] c \<longleftrightarrow> last_seq c = e)"
  "del_headers [(KV_OPERATION_HEADER, ''DEL'')] None \<and> meets [(KV_OPERATION_HEADER, ''DEL'')] c"
  by (simp_all add: del_headers_def expects_def hdr_get_def meets_def)

interpretation ref: jetstream ref_server ref_view
proof (unfold_locales, goal_cases)
  case (1 w b k m)
  then show ?case using rw_cell_bounds by simp
next
  case (2 w now w')
  then show ?case by (auto simp: ref_server_def)
next
  case (3 w ins w')
  then show ?case by (auto simp: ref_server_def)
next
  case (4 w d)
  then show ?case using ref_sleep_quiet by (simp add: ref_server_def)
next
  case (5 b w k rg w')
  then show ?case
    using ref_get_quiet [of b w k rg w'] by (simp add: ref_server_def get_outcome_def)
next
  case (6 b w k h p rp w')
  then show ?case
    using ref_publish_outcome [of "kv_subject b k" b k w h p rp w']
    by (auto simp: ref_server_def publish_outcome_def split: sum.splits)
next
  case (7 b k w x rx w')
  then show ?case
    using ref_purge_outcome [of "kv_subject b k" b k w "kv_stream b" x rx w'] by (simp add: ref_server_def purge_outcome_def)
next
  case (8 b w k p e ru w')
  then show ?case
    using ref_store_outcome [of w b k "[(EXPECTED_LAST_SUBJECT_SEQUENCE, u64_to_string e)]" p ru w'] put_headers_ref
    by (auto simp: ref_server_def ref_kv_update_def publish_outcome_def split: sum.splits)
next
  case (9 b w k e rd w')
  then show ?case
    using ref_store_outcome [of w b k "[(KV_OPERATION_HEADER, ''DEL''),
        (EXPECTED_LAST_SUBJECT_SEQUENCE, u64_to_string e)]" "[]"] del_headers_ref(1)
    by (fastforce simp: ref_server_def ref_kv_delete_expect_def publish_outcome_def split: sum.splits prod.splits)
next
  case (10 b w k rk w')
  then show ?case
    using ref_store_outcome [of w b k "[(KV_OPERATION_HEADER, ''DEL'')]" "[]"] del_headers_ref(2)
    by (fastforce simp: ref_server_def ref_kv_delete_def publish_outcome_def split: sum.splits prod.splits if_splits)
next
  case (11 w st ri w')
  then show ?case
    using ref_scan_quiet by (simp add: ref_server_def)
next
  case (12 w f rf w')
  then show ?case by (auto simp: ref_server_def)
next
  case (13 w f fl)
  then show ?case by (simp add: ref_server_def)
next
  case (14 w nact pn w')
  then show ?case by (rule ref_node_quiet)
next
  case (15 w act pa w')
  then show ?case by (rule ref_evolves)
qed



text \<open>Only sleeping moves the clock.\<close>

lemma pop_fault_nanos: "pop_fault w = (f, w1) \<Longrightarrow> rw_nanos w1 = rw_nanos w"
  by (auto simp: pop_fault_def split: list.splits)

lemma ref_nanos:
  "rw_nanos (snd (pop_fault w)) = rw_nanos w" "rw_nanos (store_msg w b k h p) = rw_nanos w"
  "rw_nanos (drop_msg w b k) = rw_nanos w"
  by (simp_all add: store_msg_def drop_msg_def pop_fault_nanos [OF prod.collapse [symmetric]])

lemma ref_store_nanos: "ref_store w b k h p = (r, w') \<Longrightarrow> rw_nanos w' = rw_nanos w"
  by (auto simp: ref_store_def ref_nanos pop_fault_nanos split: prod.splits if_splits)

lemma ref_nanos_calls:
  "rw_nanos (snd (ref_publish w sj h p)) = rw_nanos w" "rw_nanos (snd (ref_get_last w sj st)) = rw_nanos w"
  "rw_nanos (snd (ref_purge w st sj x)) = rw_nanos w" "rw_nanos (snd (ref_create_consumer w st c)) = rw_nanos w"
  "rw_nanos (snd (ref_messages w st c')) = rw_nanos w" "rw_nanos (snd (ref_subjects w st f)) = rw_nanos w"
  "rw_nanos (snd (ref_stream_info w st)) = rw_nanos w" "rw_nanos (snd (ref_kv_update w ks k p n)) = rw_nanos w"
  "rw_nanos (snd (ref_kv_delete w ks k)) = rw_nanos w" "rw_nanos (snd (ref_kv_delete_expect w ks k n)) = rw_nanos w"
  by (auto simp: ref_publish_def ref_get_last_def ref_purge_def ref_create_consumer_def ref_messages_def
      ref_subjects_def ref_stream_info_def ref_kv_update_def ref_kv_delete_def ref_kv_delete_expect_def
      ref_nanos pop_fault_nanos ref_store_nanos ref_store_nanos [OF prod.collapse [symmetric]] Let_def split: prod.splits option.splits sum.splits)

lemma ref_nanos_node: "perform_node ref_server w act = (x, w') \<Longrightarrow> rw_nanos w' = rw_nanos w"
  by (cases act) (auto simp: ref_server_def apfst_def map_prod_def ref_nats_publish_def ref_nats_subscribe_def
      ref_get_key_value_def ref_create_key_value_def ref_update_stream_def split: option.splits if_splits)

interpretation ref_clock: steady_clock ref_server rw_nanos
proof (unfold_locales, goal_cases)
  case (3 w act x w')
  have "rw_nanos w \<le> rw_nanos (snd (perform ref_server w act))"
    by (cases act) (auto simp: ref_server_def ref_nanos_calls ref_delete_consumer_def ref_kv_keys_def
        ref_kv_entry_def ref_nanos_node [unfolded ref_server_def, OF prod.collapse [symmetric]])
  with 3 show ?case by simp
qed (auto simp: ref_server_def)


section \<open>Evaluation\<close>

text \<open>A handle on a bucket of the server, and client functions as documented.\<close>

definition ref_kv :: NatsKv where
  "ref_kv = NatsKv_new (store_of ''state'') ''$JS.API'' ''2.14.0''"

definition ref_ext :: externals where
  "ref_ext = \<lparr>
     ext_parse_op = (\<lambda>s. if s = ''DEL'' then Some Delete else if s = ''PURGE'' then Some Purge
                       else if s = ''PUT'' then Some Put else None),
     ext_parse_counter = (\<lambda>v. case parse_u64 v of None \<Rightarrow> Inl (Precondition ''not a counter'')
                               | Some n \<Rightarrow> Inr (uint n)),
     ext_floor_add = (\<lambda>current floor delta. Inr (max floor (current + delta))),
     ext_counter_overflow = Precondition ''counter overflow''\<rparr>"

lemma ref_kv_ok: "kv_ok ref_kv ''state''"
  unfolding ref_kv_def by (rule NatsKv_new_ok) (simp add: bucket_ok_def)

lemma ref_kv_simps [ref_eval]:
  "store ref_kv = store_of ''state''" "write_prefix ref_kv = kv_subject ''state'' []"
  "bucket ref_kv = ''state''"
  using kv_okD [OF ref_kv_ok] by (simp_all add: bucket_def)

lemma ref_parse_op_ok: "parse_op_ok (ext_parse_op ref_ext)"
  by (simp add: parse_op_ok_def ref_ext_def)

lemma bucket_ok_state [ref_eval]: "bucket_ok ''state''" "bucket_ok ''leases''" "bucket_ok ''fencing''"
  by (simp_all add: bucket_ok_def)

lemma u64_max_eq [ref_eval]: "u64_max = 18446744073709551615"
  by (simp add: u64_max_def)

lemma pop_fault_none [ref_eval]: "rw_faults w = [] \<Longrightarrow> pop_fault w = (NoFault, w)"
  by (simp add: pop_fault_def)

lemma ref_store_ok [ref_eval]:
  "rw_faults w = [] \<Longrightarrow> rw_top w b \<noteq> u64_max \<Longrightarrow>
   ref_store w b k h p =
     (if meets h (rw_cell w b k) then (Inr (rw_top w b + 1), store_msg w b k h p) else (Inl cas_error, w))"
  by (simp add: ref_store_def pop_fault_none)

lemma ref_publish_ok [ref_eval]:
  "bucket_ok b \<Longrightarrow> rw_faults w = [] \<Longrightarrow> rw_top w b \<noteq> u64_max \<Longrightarrow>
   ref_publish w (kv_subject b k) h p =
     (if meets h (rw_cell w b k) then (Inr (Inr (rw_top w b + 1)), store_msg w b k h p)
      else (Inr (Inl cas_error), w))"
  by (simp add: ref_publish_def pop_fault_none ref_store_ok)

lemma ref_get_ok [ref_eval]:
  "bucket_ok b \<Longrightarrow> rw_faults w = [] \<Longrightarrow>
   ref_get_last w (kv_stream b) (kv_subject b k) =
     (case rw_cell w b k of None \<Rightarrow> NoMessageFound | Some m \<Rightarrow> LastMessage m, w)"
  by (simp add: ref_get_last_def pop_fault_none split: option.splits)

lemma ref_purge_ok [ref_eval]:
  "bucket_ok b \<Longrightarrow> rw_faults w = [] \<Longrightarrow>
   ref_purge w st (kv_subject b k) n =
     (Inr (), case rw_cell w b k of None \<Rightarrow> w
              | Some m \<Rightarrow> (case n of None \<Rightarrow> drop_msg w b k
                   | Some x \<Rightarrow> if raw_seq m < x then drop_msg w b k else w))"
  by (simp add: ref_purge_def pop_fault_none)

lemma ref_state_store [ref_eval]:
  "rw_faults (store_msg w b k h p) = rw_faults w"
  "rw_clock (store_msg w b k h p) = rw_clock w"
  "rw_top (store_msg w b k h p) b' = (if b' = b then rw_top w b + 1 else rw_top w b')"
  "rw_top w b \<noteq> u64_max \<Longrightarrow> rw_cell (store_msg w b k h p) b' k' =
     (if b' = b \<and> k' = k then Some \<lparr>raw_seq = rw_top w b + 1, raw_headers = h, raw_payload = p\<rparr>
      else rw_cell w b' k')"
proof -
  show "rw_cell (store_msg w b k h p) b' k' =
     (if b' = b \<and> k' = k then Some \<lparr>raw_seq = rw_top w b + 1, raw_headers = h, raw_payload = p\<rparr>
      else rw_cell w b' k')" if "rw_top w b \<noteq> u64_max"
    unfolding rw_cell_def rw_visible_store [OF that]
    by (simp add: store_msg_def map_of_filter_key)
qed (simp_all add: store_msg_def rw_clock_def rw_top_store [unfolded store_msg_def])

lemma ref_state_drop [ref_eval]:
  "rw_faults (drop_msg w b k) = rw_faults w" "rw_clock (drop_msg w b k) = rw_clock w"
  "rw_top (drop_msg w b k) = rw_top w" "rw_cell (drop_msg w b k) = set_cell (rw_cell w) b k None"
  by (simp_all add: drop_msg_cells) (simp add: drop_msg_def)

lemma ref_state_start [ref_eval]:
  "rw_faults (ref_start s) = []" "rw_top (ref_start s) b = 0" "rw_cell (ref_start s) b k = None"
  "s < 2 ^ 64 \<Longrightarrow> rw_clock (ref_start s) = of_nat s" "rw_nanos (ref_start s) = s * 1000000000"
  by (simp_all add: ref_start_def rw_top_def rw_cell_def rw_visible_def rw_clock_def u64_try_from_or_max_def)

lemma ref_server_calls [ref_eval]:
  "sv_system_now ref_server w = (Some \<lparr>dur_secs = rw_clock w, dur_nanos = rw_nanos w mod 1000000000\<rparr>, w)"
  "sv_instant_now ref_server w = (rw_nanos w, w)"
  "sv_publish ref_server = ref_publish" "sv_get_last ref_server = ref_get_last"
  "sv_purge ref_server = ref_purge" "sv_kv_update ref_server = ref_kv_update"
  "sv_kv_delete ref_server = ref_kv_delete" "sv_kv_delete_expect ref_server = ref_kv_delete_expect"
  by (simp_all add: ref_server_def)

lemma ref_rounds: "CAS_WRITE_ATTEMPTS = Suc 7" "CAS_ATTEMPTS = Suc 63"
  by (simp_all add: CAS_WRITE_ATTEMPTS_def CAS_ATTEMPTS_def)

lemmas ref_kv_programs = put_def get_def put_if_absent_def delete_def expire_def
  publish_def publish_record_def publish_index_def publish_marker_def slot_def last_record_def
  now_unix_secs_def expires_at_from_def is_expired_def map_err_def kv_write_def

end
