(* ===== verification/Kv_Theorems.thy ===== *)
theory Kv_Theorems
  imports Ref_Server
begin

text \<open>
  What the operations of the state store guarantee. Alone, they implement a map from keys to
  values with an expiry (\<open>kv_abs\<close>), which time alone changes by dropping what has expired
  (\<open>aged\<close>). Against other clients, \<open>put_if_absent\<close> never replaces a live value and has at
  most one winner, and counters and \<open>expire\<close> replace exactly the record they read.
\<close>

section \<open>The abstract store\<close>

type_synonym store_map = "string \<Rightarrow> (bytes \<times> u64 option) option"

definition live_entry :: "Slot \<Rightarrow> (bytes \<times> u64 option) option" where
  "live_entry s = (case s of Live v e _ \<Rightarrow> Some (v, e) | _ \<Rightarrow> None)"

definition kv_abs :: "externals \<Rightarrow> 'w view \<Rightarrow> string \<Rightarrow> 'w \<Rightarrow> store_map" where
  "kv_abs x V b w key = live_entry (slot_at x (clock V w) (cell V w b (encode_key key)))"

definition aged :: "u64 \<Rightarrow> store_map \<Rightarrow> store_map" where
  "aged now m key = (case m key of None \<Rightarrow> None | Some (v, e) \<Rightarrow> if expired_at now e then None else Some (v, e))"

lemma live_entry_simps [simp]:
  "live_entry Empty = None" "live_entry (Dead n) = None" "live_entry (Live v e n) = Some (v, e)"
  by (simp_all add: live_entry_def)

lemma live_entry_None: "live_entry s = None \<longleftrightarrow> \<not> is_live s"
  by (cases s) (simp_all add: is_live_def)

lemma expired_at_mono: "now \<le> now' \<Longrightarrow> expired_at now e \<Longrightarrow> expired_at now' e"
  by (auto simp: expired_at_def split: option.splits)

lemma live_entry_later:
  "now \<le> now' \<Longrightarrow> live_entry (slot_at x now' c) =
     (case live_entry (slot_at x now c) of None \<Rightarrow> None
      | Some (v, e) \<Rightarrow> if expired_at now' e then None else Some (v, e))"
  using expired_at_mono [of now now']
  by (auto simp: slot_at_def split: option.splits prod.splits)

lemma aged_kv_abs:
  "clock V w \<le> now \<Longrightarrow> aged now (kv_abs x V b w) key = live_entry (slot_at x now (cell V w b (encode_key key)))"
  using live_entry_later [of "clock V w" now x "cell V w b (encode_key key)"]
  by (auto simp: aged_def kv_abs_def split: option.splits prod.splits)

lemma kv_abs_same_cell:
  assumes "clock V w \<le> clock V w'" "cell V w' b (encode_key key) = cell V w b (encode_key key)"
  shows "kv_abs x V b w' key = aged (clock V w') (kv_abs x V b w) key"
  using assms by (simp add: aged_kv_abs) (simp add: kv_abs_def)

lemma kv_abs_quiet: "quiet V w w' \<Longrightarrow> kv_abs x V b w' = aged (clock V w') (kv_abs x V b w)"
  by (rule ext) (rule kv_abs_same_cell, simp_all add: quietD)

text \<open>An operation on one key that leaves there a given entry.\<close>

lemma kv_abs_update:
  assumes "only V b (keys_of key) w w'"
    and "live_entry (slot_at x (clock V w') (cell V w' b (encode_key key))) =
           (case v of None \<Rightarrow> None | Some (u, e) \<Rightarrow> if expired_at (clock V w') e then None else Some (u, e))"
  shows "kv_abs x V b w' = aged (clock V w') ((kv_abs x V b w)(key := v))"
proof
  fix k
  show "kv_abs x V b w' k = aged (clock V w') ((kv_abs x V b w)(key := v)) k"
  proof (cases "k = key")
    case True
    with assms(2) show ?thesis
      by (simp add: kv_abs_def aged_def)
  next
    case False
    have "cell V w' b (encode_key k) = cell V w b (encode_key k)"
      using False by (intro only_cell [OF assms(1)]) (simp add: encode_key_inj)
    from kv_abs_same_cell [OF only_clock [OF assms(1)] this, of x] False show ?thesis
      by (simp add: aged_def)
  qed
qed

lemma live_entry_data_msg:
  assumes "e = None \<longrightarrow> \<not> prefix TTL_ENVELOPE_MAGIC v"
  shows "live_entry (slot_at x now (Some (data_msg n v e ex))) =
           (if expired_at now e then None else Some (v, e))"
  using assms decode_data_msg [of n v e ex]
  by (auto simp: slot_at_def data_msg_def split: prod.splits)

text \<open>A value that reads back as itself: one that is not mistaken for an enveloped one.\<close>

definition plain_value :: "duration option \<Rightarrow> bytes \<Rightarrow> bool" where
  "plain_value ttl v \<longleftrightarrow> ttl = None \<longrightarrow> \<not> prefix TTL_ENVELOPE_MAGIC v"

lemma ttl_expiry_None [simp]: "ttl_expiry t ttl = None \<longleftrightarrow> ttl = None"
  by (simp add: ttl_expiry_def)


section \<open>One client\<close>

text \<open>
  C20. A get reads the abstract store at some moment during the call and changes nothing.
\<close>

theorem get_refines:
  assumes "jetstream S V" "kv_ok kv b" "run S (get x kv key) w = (Inr en, w')"
  shows "\<exists>now. clock V w \<le> now \<and> now \<le> clock V w'
           \<and> en = map_option (\<lambda>(v, e). \<lparr>entry_bytes = v, expires_at = e\<rparr>) (aged now (kv_abs x V b w) key)
           \<and> kv_abs x V b w' = aged (clock V w') (kv_abs x V b w)"
proof -
  have q: "quiet V w w'"
    by (rule jetstream.get_alone(1) [OF assms])
  obtain t where t: "clock V w \<le> t" "t \<le> clock V w'"
    and en: "en = (case slot_at x t (cell V w b (encode_key key)) of
                   Live v e _ \<Rightarrow> Some \<lparr>entry_bytes = v, expires_at = e\<rparr> | _ \<Rightarrow> None)"
    using jetstream.get_alone(2) [OF assms refl] by blast
  have "en = map_option (\<lambda>(v, e). \<lparr>entry_bytes = v, expires_at = e\<rparr>) (aged t (kv_abs x V b w) key)"
    using en by (auto simp: aged_kv_abs [OF t(1)] split: Slot.splits)
  with t kv_abs_quiet [OF q] show ?thesis
    by blast
qed

definition wit_world :: ref_world where
  "wit_world = snd (run ref_server (put ref_ext ref_kv ''a'' ''v'' None) (ref_start 100))"

lemma wit_world_eq:
  "wit_world = store_msg (store_msg (ref_start 100) ''state'' (encode_key ''a'') (publish_headers None Anything) ''v'')
     ''state'' (index_key ''a'') (publish_headers None Nothing) []"
  by (simp add: wit_world_def ref_kv_programs ref_eval encode_value_def)

theorem get_refines_witness:
  "\<exists>en. en = Some \<lparr>entry_bytes = ''v'', expires_at = None\<rparr>
     \<and> (\<exists>now. en = map_option (\<lambda>(v, e). \<lparr>entry_bytes = v, expires_at = e\<rparr>)
                (aged now (kv_abs ref_ext ref_view ''state'' wit_world) ''a''))"
proof -
  have run: "run ref_server (get ref_ext ref_kv ''a'') wit_world =
          (Inr (Some \<lparr>entry_bytes = ''v'', expires_at = None\<rparr>), wit_world)"
    by (simp add: wit_world_eq ref_kv_programs ref_eval decode_value_def)
  show ?thesis
    using get_refines [OF ref.jetstream_axioms ref_kv_ok run] by blast
qed

text \<open>
  C19. A put that succeeds sets the entry of its key in the abstract store, with the expiry that
  its time to live gives at some moment during the call, and nothing else.
\<close>

theorem put_refines:
  assumes "jetstream S V" "kv_ok kv b" "plain_value ttl v" "run S (put x kv key v ttl) w = (Inr (), w')"
  shows "\<exists>now. clock V w \<le> now \<and> now \<le> clock V w'
           \<and> kv_abs x V b w' = aged (clock V w') ((kv_abs x V b w)(key \<mapsto> (v, ttl_expiry now ttl)))"
proof -
  obtain t n where t: "clock V w \<le> t" "t \<le> clock V w'"
    and c: "cell V w' b (encode_key key) = Some (data_msg n v (ttl_expiry t ttl) Anything)"
    using jetstream.put_alone(2) [OF assms(1,2,4) refl] by blast
  have "kv_abs x V b w' = aged (clock V w') ((kv_abs x V b w)(key := Some (v, ttl_expiry t ttl)))"
    by (rule kv_abs_update [OF jetstream.put_alone(1) [OF assms(1,2,4)]])
      (use assms(3) in \<open>simp add: c live_entry_data_msg plain_value_def\<close>)
  with t show ?thesis by blast
qed

theorem put_refines_witness:
  "\<exists>w' now. kv_abs ref_ext ref_view ''state'' w' = aged (rw_clock w')
     ((kv_abs ref_ext ref_view ''state'' (ref_start 100))(''a'' \<mapsto> (''v'', ttl_expiry now (Some (duration_from_secs 5)))))"
proof -
  have "fst (run ref_server (put ref_ext ref_kv ''a'' ''v'' (Some (duration_from_secs 5))) (ref_start 100)) = Inr ()"
    by (simp add: ref_kv_programs ref_eval)
  then obtain w' where "run ref_server (put ref_ext ref_kv ''a'' ''v'' (Some (duration_from_secs 5))) (ref_start 100)
      = (Inr (), w')"
    by (metis prod.collapse)
  from put_refines [OF ref.jetstream_axioms ref_kv_ok _ this] show ?thesis
    by (auto simp: plain_value_def)
qed

text \<open>
  C21. A delete that succeeds removes the entry of its key, and answers whether it was there at
  some moment during the call.
\<close>

theorem delete_refines:
  assumes "jetstream S V" "kv_ok kv b" "parse_op_ok (ext_parse_op x)"
    "run S (delete x kv key) w = (Inr existed, w')"
  shows "kv_abs x V b w' = aged (clock V w') ((kv_abs x V b w)(key := None))
     \<and> (\<exists>now. clock V w \<le> now \<and> now \<le> clock V w' \<and> (existed \<longleftrightarrow> aged now (kv_abs x V b w) key \<noteq> None))"
proof -
  note d = jetstream.delete_alone [OF assms]
  obtain n where n: "\<And>t. slot_at x t (cell V w' b (encode_key key)) = Dead n"
    using d(2) [OF refl] by blast
  obtain t where t: "clock V w \<le> t" "t \<le> clock V w'"
    and ex: "existed = is_live (slot_at x t (cell V w b (encode_key key)))"
    using d(2) [OF refl] by blast
  have "kv_abs x V b w' = aged (clock V w') ((kv_abs x V b w)(key := None))"
    by (rule kv_abs_update [OF only_mono [OF d(1)]]) (simp_all add: n)
  moreover have "existed \<longleftrightarrow> aged t (kv_abs x V b w) key \<noteq> None"
    using ex by (simp add: aged_kv_abs [OF t(1)] live_entry_None)
  ultimately show ?thesis
    using t by blast
qed

theorem delete_refines_witness:
  "\<exists>w'. kv_abs ref_ext ref_view ''state'' w' =
     aged (rw_clock w') ((kv_abs ref_ext ref_view ''state'' wit_world)(''a'' := None))"
proof -
  have "fst (run ref_server (delete ref_ext ref_kv ''a'') wit_world) = Inr True"
    by (simp add: wit_world_eq ref_kv_programs ref_eval decode_value_def is_live_def meets_def expects_def
        EXPECTED_LAST_SUBJECT_SEQUENCE_def)
  then obtain w' where "run ref_server (delete ref_ext ref_kv ''a'') wit_world = (Inr True, w')"
    by (metis prod.collapse)
  from delete_refines [OF ref.jetstream_axioms ref_kv_ok ref_parse_op_ok this] show ?thesis
    by auto
qed


text \<open>What an answer of \<open>put_if_absent\<close> means for the records.\<close>

definition claim_answer ::
  "externals \<Rightarrow> 'w view \<Rightarrow> string \<Rightarrow> string \<Rightarrow> bytes \<Rightarrow> u64 option \<Rightarrow> u64 \<Rightarrow> bool \<Rightarrow> 'w \<Rightarrow> 'w \<Rightarrow> bool" where
  "claim_answer x V b key v e now won w w' \<longleftrightarrow> only V b (keys_of key) w w'
     \<and> (won \<longleftrightarrow> \<not> is_live (slot_at x now (cell V w b (encode_key key))))
     \<and> (if won then (\<exists>n ex. cell V w' b (encode_key key) = Some (data_msg n v e ex))
                    \<and> cell V w' b (index_key key) \<noteq> None
        else cell V w' b (encode_key key) = cell V w b (encode_key key))"

context jetstream
begin

text \<open>The answers of \<open>put_if_absent\<close>, \<open>expire\<close> and the counters when the client is alone.\<close>

lemma put_if_absent_alone:
  assumes kv: "kv_ok kv b" and run: "run S (put_if_absent x kv key v ttl) w = (Inr won, w')"
  shows "\<exists>now t. clock V w \<le> now \<and> now \<le> clock V w' \<and> clock V w \<le> t \<and> t \<le> clock V w'
           \<and> claim_answer x V b key v (ttl_expiry t ttl) now won w w'"
proof -
  let ?Q = "\<lambda>t r w'. \<forall>won. r = Inr won \<longrightarrow> (\<exists>now. clock V w \<le> now \<and> now \<le> clock V w' \<and> t \<le> clock V w'
     \<and> claim_answer x V b key v (ttl_expiry t ttl) now won w w')"
  have loop: "wpr S (=) (\<lambda>_ _. True) (put_if_absent_loop x kv key v (ttl_expiry t ttl) left attempt Nothing) (?Q t) w0"
    if q0: "quiet V w w0" and t: "t \<le> clock V w0" for t w0 left attempt
  proof (rule wpr_put_if_absent_loop [where ?w0.0 = w0 and R = "(=)" and b = b, OF kv], goal_cases)
    case (4 w1 w2 t1)
    have o1: "only V b {index_key key} w w1" and c12: "quiet V w1 w2"
      using 4 quiet_then_only [OF q0] by (auto simp: reach_only_alone_iff reach_alone)
    have "only V b (keys_of key) w w2"
      using only_then_quiet [OF only_mono [OF o1] c12] by simp
    moreover have "cell V w2 b (encode_key key) = cell V w b (encode_key key)"
      using only_cell [OF o1] quietD(1) [OF c12] by simp
    moreover have "t \<le> clock V w2" "clock V w \<le> t1"
      using t 4 only_clock [OF o1] only_clock [of V b "{index_key key}" w0 w1] quietD(3) [OF c12]
      by (auto simp: reach_only_alone_iff)
    ultimately show ?case
      using 4 only_cell [OF o1] by (auto simp: claim_answer_def intro!: exI [of _ t1])
  next
    case (5 w1 w2 w3 w4 n ex)
    have o1: "only V b {index_key key} w w1" and o01: "only V b {index_key key} w0 w1" and q: "quiet V w2 w3"
      using 5 quiet_then_only [OF q0] by (auto simp: reach_only_alone_iff reach_alone)
    have o12: "only V b (keys_of key) w1 w2"
      by (rule only_stored [OF 5(3)]) simp
    have o4: "only V b (keys_of key) w w4"
      using only_trans [OF only_mono [OF o1] only_trans [OF only_then_quiet [OF o12 q] only_mono [OF 5(5)]]] by simp
    have c: "cell V w4 b (encode_key key) = Some (data_msg n v (ttl_expiry t ttl) ex)"
      using only_cell [OF 5(5), of "encode_key key"] quietD(1) [OF q] storedD(1) [OF 5(3)]
      by (simp add: data_msg_def)
    have "clock V w \<le> clock V w1" "clock V w0 \<le> clock V w1" "clock V w1 \<le> clock V w4"
      using only_clock [OF o1] only_clock [OF o01] only_clock [OF o12] quietD(3) [OF q] only_clock [OF 5(5)]
      by auto
    moreover have "\<not> is_live (slot_at x (clock V w1) (cell V w b (encode_key key)))"
      using 5(2) only_cell [OF o1] by simp
    ultimately show ?case
      using o4 c 5(6) t by (intro allI impI exI [of _ "clock V w1"]) (auto simp: claim_answer_def)
  qed (auto simp: claimable_def intro: evolves_refl)
  have "wpr S (=) (\<lambda>_ _. True) (put_if_absent x kv key v ttl)
          (\<lambda>r w'. \<exists>t. clock V w \<le> t \<and> ?Q t r w') w"
    unfolding put_if_absent_def wpr_await
  proof (rule wpr_expires_at_from [folded ttl_expiry_def], goal_cases)
    case (3 w0 t)
    then have q: "quiet V w w0"
      by (simp add: reach_alone)
    show ?case
      by (rule wpr_mono [OF loop [OF q 3(3)]], rule exI [of _ t]) (use 3(2) in blast)
  qed (auto intro: evolves_refl)
  from run_of_wpr [OF this run] show ?thesis
    by blast
qed

lemma expire_alone:
  assumes kv: "kv_ok kv b" and run: "run S (expire x kv key ttl) w = (Inr done, w')"
  shows "only V b (keys_of key) w w' \<and> (\<exists>now t. clock V w \<le> now \<and> now \<le> clock V w' \<and> clock V w \<le> t
     \<and> t \<le> clock V w' \<and> (if done then \<exists>v e n m ex. slot_at x now (cell V w b (encode_key key)) = Live v e n
             \<and> cell V w' b (encode_key key) = Some (data_msg m v (ttl_expiry t ttl) ex)
           else \<not> is_live (slot_at x now (cell V w b (encode_key key)))
             \<and> cell V w' b (encode_key key) = cell V w b (encode_key key)))"
proof -
  let ?Q = "\<lambda>r w'. \<forall>done. r = Inr done \<longrightarrow> only V b (keys_of key) w w' \<and> (\<exists>now t. clock V w \<le> now \<and> now \<le> clock V w' \<and> clock V w \<le> t
     \<and> t \<le> clock V w' \<and> (if done then \<exists>v e n m ex. slot_at x now (cell V w b (encode_key key)) = Live v e n
             \<and> cell V w' b (encode_key key) = Some (data_msg m v (ttl_expiry t ttl) ex)
           else \<not> is_live (slot_at x now (cell V w b (encode_key key)))
             \<and> cell V w' b (encode_key key) = cell V w b (encode_key key)))"
  have "wpr S (=) (\<lambda>_ _. True) (expire x kv key ttl) ?Q w"
    unfolding expire_def
  proof (rule wpr_expire_loop [where ?w0.0 = w and R = "(=)" and b = b, OF kv], goal_cases)
    case (4 w1 w2 t1)
    then have q: "quiet V w w2" "cell V w1 = cell V w" "clock V w \<le> t1" "clock V w \<le> clock V w2"
      by (auto simp: reach_alone quietD intro: quiet_trans) (auto simp: quiet_def)
    with 4 show ?case
      by (auto simp: only_quiet quietD intro!: exI [of _ t1])
  next
    case (5 w1 w2 t t' v e n q)
    have o: "only V b (keys_of key) w w2"
      using quiet_then_only [OF _ only_stored [OF 5(7), of "keys_of key"]] 5(1) by (simp add: reach_alone)
    have c1: "cell V w1 = cell V w"
      using 5(1) by (simp add: reach_alone quietD)
    have "clock V w1 \<le> clock V w2"
      using storedD(4) [OF 5(7)] .
    then have "t \<le> clock V w2" "t' \<le> clock V w2"
      using 5 by auto
    moreover have "cell V w2 b (encode_key key) = Some (data_msg q v (ttl_expiry t' ttl) (Revision n))"
      using storedD(1) [OF 5(7)] by (simp add: data_msg_def)
    ultimately show ?case
      using 5(2,4,6) o c1 by (intro allI impI conjI exI [of _ t] exI [of _ t']) auto
  qed (auto intro: evolves_refl)
  from run_of_wpr [OF this run] show ?thesis
    by blast
qed

lemma update_counter_alone:
  assumes kv: "kv_ok kv b" and run: "run S (update_counter x kv opn key ttl step) w = (Inr n, w')"
  shows "only V b (keys_of key) w w' \<and> (\<exists>now t cur. clock V w \<le> now \<and> now \<le> clock V w' \<and> clock V w \<le> t
     \<and> t \<le> clock V w' \<and> count_of x (slot_at x now (cell V w b (encode_key key))) = Inr cur \<and> step cur = Inr n
     \<and> ((\<exists>m ex. cell V w' b (encode_key key) = Some (data_msg m (i64_to_string n)
              (counter_expiry t ttl (slot_at x now (cell V w b (encode_key key)))) ex))
         \<or> n = cur \<and> ttl = None \<and> is_live (slot_at x now (cell V w b (encode_key key)))
             \<and> cell V w' b (encode_key key) = cell V w b (encode_key key))
     \<and> (\<not> is_live (slot_at x now (cell V w b (encode_key key))) \<longrightarrow> cell V w' b (index_key key) \<noteq> None))"
proof -
  let ?Q = "\<lambda>r w'. \<forall>n. r = Inr n \<longrightarrow> only V b (keys_of key) w w' \<and> (\<exists>now t cur. clock V w \<le> now \<and> now \<le> clock V w' \<and> clock V w \<le> t
     \<and> t \<le> clock V w' \<and> count_of x (slot_at x now (cell V w b (encode_key key))) = Inr cur \<and> step cur = Inr n
     \<and> ((\<exists>m ex. cell V w' b (encode_key key) = Some (data_msg m (i64_to_string n)
              (counter_expiry t ttl (slot_at x now (cell V w b (encode_key key)))) ex))
         \<or> n = cur \<and> ttl = None \<and> is_live (slot_at x now (cell V w b (encode_key key)))
             \<and> cell V w' b (encode_key key) = cell V w b (encode_key key))
     \<and> (\<not> is_live (slot_at x now (cell V w b (encode_key key))) \<longrightarrow> cell V w' b (index_key key) \<noteq> None))"
  have "wpr S (=) (\<lambda>_ _. True) (update_counter x kv opn key ttl step) ?Q w"
    unfolding update_counter_def
  proof (rule wpr_update_counter_loop [where ?w0.0 = w and R = "(=)" and b = b, OF kv], goal_cases)
    case (4 w1 w2 t cur)
    have o1: "only V b {index_key key} w w1" and q: "quiet V w1 w2"
      using 4 by (auto simp: reach_only_alone_iff reach_alone)
    have "only V b (keys_of key) w w2" "cell V w2 b (encode_key key) = cell V w b (encode_key key)" "clock V w \<le> t"
      using only_then_quiet [OF only_mono [OF o1] q, of "keys_of key"] only_cell [OF o1] quietD(1) [OF q]
        only_clock [OF o1] 4(3) by auto
    with 4 only_cell [OF o1] show ?case
      by (auto intro!: exI [of _ t])
  next
    case (5 w1 w2 w3 w4 n seq t t' cur ex)
    have o1: "only V b {index_key key} w w1" and q: "quiet V w2 w3"
      using 5 by (auto simp: reach_only_alone_iff reach_alone)
    have o12: "only V b (keys_of key) w1 w2"
      by (rule only_stored [OF 5(8)]) simp
    have o4: "only V b (keys_of key) w w4"
      using only_trans [OF only_mono [OF o1] only_trans [OF only_then_quiet [OF o12 q] only_mono [OF 5(10)]]] by simp
    have same: "cell V w1 b (encode_key key) = cell V w b (encode_key key)"
      using only_cell [OF o1] by simp
    have c: "cell V w4 b (encode_key key) = Some (data_msg seq (i64_to_string n)
        (counter_expiry t' ttl (slot_at x t (cell V w b (encode_key key)))) ex)"
      using only_cell [OF 5(10), of "encode_key key"] quietD(1) [OF q] storedD(1) [OF 5(8)] same
      by (simp add: data_msg_def)
    have "clock V w1 \<le> clock V w4"
      using only_clock [OF o12] quietD(3) [OF q] only_clock [OF 5(10)] by auto
    then have "t \<le> clock V w4" "t' \<le> clock V w4"
      using 5 by auto
    with 5 o4 c same show ?case
      by (intro allI impI conjI exI [of _ t] exI [of _ t'] exI [of _ cur]) auto
  qed (auto intro: evolves_refl)
  from run_of_wpr [OF this run] show ?thesis
    by blast
qed

end

text \<open>
  C18. \<open>put_if_absent\<close>: when it answers yes, the key was absent at some moment during the call and
  now holds the value; when it answers no, the key held a live value and nothing changed.
\<close>

theorem put_if_absent_refines:
  assumes "jetstream S V" "kv_ok kv b" "plain_value ttl v"
    "run S (put_if_absent x kv key v ttl) w = (Inr won, w')"
  shows "\<exists>now t. clock V w \<le> now \<and> now \<le> clock V w' \<and> clock V w \<le> t \<and> t \<le> clock V w'
           \<and> (won \<longleftrightarrow> aged now (kv_abs x V b w) key = None)
           \<and> kv_abs x V b w' = aged (clock V w')
               (if won then (kv_abs x V b w)(key \<mapsto> (v, ttl_expiry t ttl)) else kv_abs x V b w)"
proof -
  obtain now t where t: "clock V w \<le> now" "now \<le> clock V w'" "clock V w \<le> t" "t \<le> clock V w'"
    and ans: "claim_answer x V b key v (ttl_expiry t ttl) now won w w'"
    using jetstream.put_if_absent_alone [OF assms(1,2,4)] by blast
  have o: "only V b (keys_of key) w w'"
    using ans by (simp add: claim_answer_def)
  have "kv_abs x V b w' = aged (clock V w')
          ((kv_abs x V b w)(key := if won then Some (v, ttl_expiry t ttl) else kv_abs x V b w key))"
  proof (rule kv_abs_update [OF o])
    show "live_entry (slot_at x (clock V w') (cell V w' b (encode_key key))) =
        (case if won then Some (v, ttl_expiry t ttl) else kv_abs x V b w key of
           None \<Rightarrow> None | Some (u, e) \<Rightarrow> if expired_at (clock V w') e then None else Some (u, e))"
      using ans assms(3) live_entry_later [OF only_clock [OF o], of x "cell V w b (encode_key key)"]
      by (auto simp: claim_answer_def live_entry_data_msg plain_value_def kv_abs_def split: if_splits)
  qed
  moreover have "won \<longleftrightarrow> aged now (kv_abs x V b w) key = None"
    using ans by (simp add: claim_answer_def aged_kv_abs [OF t(1)] live_entry_None)
  ultimately show ?thesis
    using t by (intro exI [of _ now] exI [of _ t]) simp
qed


theorem put_if_absent_refines_witness:
  "\<exists>won w' now. (won \<longleftrightarrow> aged now (kv_abs ref_ext ref_view ''state'' wit_world) ''a'' = None)
     \<and> \<not> won \<and> kv_abs ref_ext ref_view ''state'' w' = aged (rw_clock w') (kv_abs ref_ext ref_view ''state'' wit_world)"
proof -
  have "fst (run ref_server (put_if_absent ref_ext ref_kv ''a'' ''u'' None) wit_world) = Inr False"
    unfolding put_if_absent_def ref_rounds put_if_absent_loop.simps
    by (simp add: wit_world_eq ref_kv_programs ref_eval decode_value_def is_live_def)
  then obtain w' where run: "run ref_server (put_if_absent ref_ext ref_kv ''a'' ''u'' None) wit_world = (Inr False, w')"
    by (metis prod.collapse)
  have "plain_value None ''u''"
    by (simp add: plain_value_def TTL_ENVELOPE_MAGIC_def)
  from put_if_absent_refines [OF ref.jetstream_axioms ref_kv_ok this run] show ?thesis
    by (intro exI [of _ False] exI [of _ w']) auto
qed

text \<open>
  C22. \<open>expire\<close>: when it answers yes, the key held a live value at some moment during the call, and
  now holds the same value with the new expiry; when it answers no, the key was absent and
  nothing changed.
\<close>

theorem expire_refines:
  assumes "jetstream S V" "kv_ok kv b" "run S (expire x kv key ttl) w = (Inr found, w')"
    and plain: "\<And>v e. kv_abs x V b w key = Some (v, e) \<Longrightarrow> plain_value ttl v"
  shows "\<exists>now t. clock V w \<le> now \<and> now \<le> clock V w' \<and> clock V w \<le> t \<and> t \<le> clock V w' \<and>
     (if found then \<exists>v e. aged now (kv_abs x V b w) key = Some (v, e)
        \<and> kv_abs x V b w' = aged (clock V w') ((kv_abs x V b w)(key \<mapsto> (v, ttl_expiry t ttl)))
      else aged now (kv_abs x V b w) key = None \<and> kv_abs x V b w' = aged (clock V w') (kv_abs x V b w))"
proof -
  from jetstream.expire_alone [OF assms(1-3)]
  obtain now t where o: "only V b (keys_of key) w w'"
    and t: "clock V w \<le> now" "now \<le> clock V w'" "clock V w \<le> t" "t \<le> clock V w'"
    and f: "if found then \<exists>v e n m ex. slot_at x now (cell V w b (encode_key key)) = Live v e n
             \<and> cell V w' b (encode_key key) = Some (data_msg m v (ttl_expiry t ttl) ex)
           else \<not> is_live (slot_at x now (cell V w b (encode_key key)))
             \<and> cell V w' b (encode_key key) = cell V w b (encode_key key)"
    by blast
  note at = aged_kv_abs [OF t(1), of x b key]
  show ?thesis
  proof (cases found)
    case True
    with f obtain v e n m ex where v: "slot_at x now (cell V w b (encode_key key)) = Live v e n"
      and c: "cell V w' b (encode_key key) = Some (data_msg m v (ttl_expiry t ttl) ex)"
      by auto
    have "plain_value ttl v"
      using v slot_at_later [OF t(1), of x "cell V w b (encode_key key)"]
      by (intro plain [of v e]) (simp add: kv_abs_def is_live_def)
    then have "kv_abs x V b w' = aged (clock V w') ((kv_abs x V b w)(key := Some (v, ttl_expiry t ttl)))"
      by (intro kv_abs_update [OF o]) (simp add: c live_entry_data_msg plain_value_def)
    with True t v at show ?thesis
      by (intro exI [of _ now] exI [of _ t]) auto
  next
    case False
    with f have "cell V w' b (encode_key key) = cell V w b (encode_key key)"
      by simp
    then have "kv_abs x V b w' = aged (clock V w') ((kv_abs x V b w)(key := kv_abs x V b w key))"
      using live_entry_later [OF only_clock [OF o], of x "cell V w b (encode_key key)"]
      by (intro kv_abs_update [OF o]) (simp add: kv_abs_def)
    with False f t at show ?thesis
      by (intro exI [of _ now] exI [of _ t]) (simp add: live_entry_None)
  qed
qed

theorem expire_refines_witness:
  "\<exists>w' now t. aged now (kv_abs ref_ext ref_view ''state'' wit_world) ''a'' \<noteq> None
     \<and> kv_abs ref_ext ref_view ''state'' w' = aged (rw_clock w')
         ((kv_abs ref_ext ref_view ''state'' wit_world)(''a'' \<mapsto> (''v'', ttl_expiry t (Some (duration_from_secs 9)))))"
proof -
  have abs: "kv_abs ref_ext ref_view ''state'' wit_world ''a'' = Some (''v'', None)"
    by (simp add: kv_abs_def wit_world_eq ref_eval slot_at_def decode_value_def)
  have "fst (run ref_server (expire ref_ext ref_kv ''a'' (Some (duration_from_secs 9))) wit_world) = Inr True"
    unfolding expire_def ref_rounds expire_loop.simps
    by (simp add: wit_world_eq ref_kv_programs ref_eval decode_value_def)
  then obtain w' where run: "run ref_server (expire ref_ext ref_kv ''a'' (Some (duration_from_secs 9))) wit_world = (Inr True, w')"
    by (metis prod.collapse)
  from expire_refines [OF ref.jetstream_axioms ref_kv_ok run] abs
  obtain now t v e where "aged now (kv_abs ref_ext ref_view ''state'' wit_world) ''a'' = Some (v, e)"
    and "kv_abs ref_ext ref_view ''state'' w' = aged (rw_clock w')
         ((kv_abs ref_ext ref_view ''state'' wit_world)(''a'' \<mapsto> (v, ttl_expiry t (Some (duration_from_secs 9)))))"
    by (auto simp: plain_value_def)
  moreover from this(1) abs have "v = ''v''"
    by (simp add: aged_def)
  ultimately show ?thesis
    by blast
qed


lemma i64_to_string_plain: "\<not> prefix TTL_ENVELOPE_MAGIC (i64_to_string n)"
proof
  assume "prefix TTL_ENVELOPE_MAGIC (i64_to_string n)"
  then have "CHR 0x00 \<in> set (i64_to_string n)"
    by (auto simp: TTL_ENVELOPE_MAGIC_def prefix_def)
  then have "is_ascii_digit CHR 0x00"
    using dec_of_nat_digits by (auto simp: i64_to_string_def split: if_splits)
  then show False
    by (simp add: is_ascii_digit_def)
qed

text \<open>
  C23. \<open>incr\<close> adds to the count the key held at some moment during the call, an absent key
  counting as zero, and the sum is within the range of a 64-bit integer. The store then holds
  the sum, a live counter without a new time to live keeping its expiry; only adding zero to
  a live counter without one writes nothing.
\<close>

theorem incr_refines:
  assumes "jetstream S V" "kv_ok kv b" "run S (incr x kv key delta ttl) w = (Inr n, w')"
  shows "\<exists>now t cur. clock V w \<le> now \<and> now \<le> clock V w' \<and> clock V w \<le> t \<and> t \<le> clock V w'
     \<and> (case aged now (kv_abs x V b w) key of None \<Rightarrow> cur = 0 | Some (v, _) \<Rightarrow> ext_parse_counter x v = Inr cur)
     \<and> n = cur + delta \<and> i64_in_range n
     \<and> (let e = (case aged now (kv_abs x V b w) key of
                   Some (_, e0) \<Rightarrow> if ttl = None then e0 else ttl_expiry t ttl
                 | None \<Rightarrow> ttl_expiry t ttl)
        in kv_abs x V b w' = aged (clock V w') ((kv_abs x V b w)(key \<mapsto> (i64_to_string n, e)))
           \<or> delta = 0 \<and> ttl = None \<and> aged now (kv_abs x V b w) key \<noteq> None
              \<and> kv_abs x V b w' = aged (clock V w') (kv_abs x V b w))"
proof -
  let ?s = "\<lambda>now. slot_at x now (cell V w b (encode_key key))"
  from jetstream.update_counter_alone [OF assms(1,2) assms(3) [unfolded incr_def]]
  obtain now t cur where o: "only V b (keys_of key) w w'"
    and t: "clock V w \<le> now" "now \<le> clock V w'" "clock V w \<le> t" "t \<le> clock V w'"
    and cur: "count_of x (?s now) = Inr cur"
    and n: "(case i64_checked_add cur delta of Some n \<Rightarrow> Inr n | None \<Rightarrow> Inl (ext_counter_overflow x)) = Inr n"
    and c: "(\<exists>m ex. cell V w' b (encode_key key) = Some (data_msg m (i64_to_string n) (counter_expiry t ttl (?s now)) ex))
         \<or> n = cur \<and> ttl = None \<and> is_live (?s now) \<and> cell V w' b (encode_key key) = cell V w b (encode_key key)"
    by blast
  note at = aged_kv_abs [OF t(1), of x b key]
  let ?e = "case aged now (kv_abs x V b w) key of
                   Some (_, e0) \<Rightarrow> if ttl = None then e0 else ttl_expiry t ttl | None \<Rightarrow> ttl_expiry t ttl"
  have e: "?e = counter_expiry t ttl (?s now)"
    by (cases "?s now") (simp_all add: at counter_expiry_def)
  have sum: "n = cur + delta" "i64_in_range n"
    using n by (auto simp: i64_checked_add_def split: if_splits)
  have val: "case aged now (kv_abs x V b w) key of None \<Rightarrow> cur = 0 | Some (v, _) \<Rightarrow> ext_parse_counter x v = Inr cur"
    using cur by (cases "?s now") (simp_all add: at count_of_def)
  have "kv_abs x V b w' = aged (clock V w') ((kv_abs x V b w)(key \<mapsto> (i64_to_string n, ?e)))
           \<or> delta = 0 \<and> ttl = None \<and> aged now (kv_abs x V b w) key \<noteq> None
              \<and> kv_abs x V b w' = aged (clock V w') (kv_abs x V b w)"
    using c
  proof
    assume "\<exists>m ex. cell V w' b (encode_key key) = Some (data_msg m (i64_to_string n) (counter_expiry t ttl (?s now)) ex)"
    then have "kv_abs x V b w' = aged (clock V w') ((kv_abs x V b w)(key := Some (i64_to_string n, ?e)))"
      unfolding e by (intro kv_abs_update [OF o]) (auto simp: live_entry_data_msg i64_to_string_plain)
    then show ?thesis ..
  next
    assume same: "n = cur \<and> ttl = None \<and> is_live (?s now) \<and> cell V w' b (encode_key key) = cell V w b (encode_key key)"
    then have "kv_abs x V b w' = aged (clock V w') ((kv_abs x V b w)(key := kv_abs x V b w key))"
      using live_entry_later [OF only_clock [OF o], of x "cell V w b (encode_key key)"]
      by (intro kv_abs_update [OF o]) (simp add: kv_abs_def)
    with same sum at show ?thesis
      by (simp add: live_entry_None)
  qed
  with t val sum show ?thesis
    unfolding Let_def by blast
qed

theorem incr_refines_witness:
  "\<exists>n w' now. (case aged now (kv_abs ref_ext ref_view ''state'' (ref_start 100)) ''c'' of
        None \<Rightarrow> n = 5 | Some _ \<Rightarrow> False)
     \<and> kv_abs ref_ext ref_view ''state'' w' = aged (rw_clock w')
         ((kv_abs ref_ext ref_view ''state'' (ref_start 100))(''c'' \<mapsto> (i64_to_string n, None)))"
proof -
  have "fst (run ref_server (incr ref_ext ref_kv ''c'' 5 None) (ref_start 100)) = Inr 5"
    unfolding incr_def update_counter_def ref_rounds update_counter_loop.simps
    by (simp add: ref_kv_programs ref_eval counter_read_def is_live_def i64_checked_add_def i64_in_range_def)
  then obtain w' where "run ref_server (incr ref_ext ref_kv ''c'' 5 None) (ref_start 100) = (Inr 5, w')"
    by (metis prod.collapse)
  from incr_refines [OF ref.jetstream_axioms ref_kv_ok this]
  obtain now t cur where
    "case aged now (kv_abs ref_ext ref_view ''state'' (ref_start 100)) ''c'' of None \<Rightarrow> cur = 0
       | Some (v, _) \<Rightarrow> ext_parse_counter ref_ext v = Inr cur"
    and "let e = (case aged now (kv_abs ref_ext ref_view ''state'' (ref_start 100)) ''c'' of
                   Some (_, e0) \<Rightarrow> if None = (None :: duration option) then e0 else ttl_expiry t None
                 | None \<Rightarrow> ttl_expiry t None)
        in kv_abs ref_ext ref_view ''state'' w' = aged (clock ref_view w')
             ((kv_abs ref_ext ref_view ''state'' (ref_start 100))(''c'' \<mapsto> (i64_to_string 5, e)))
           \<or> (5 :: int) = 0 \<and> None = (None :: duration option)
              \<and> aged now (kv_abs ref_ext ref_view ''state'' (ref_start 100)) ''c'' \<noteq> None
              \<and> kv_abs ref_ext ref_view ''state'' w' = aged (clock ref_view w') (kv_abs ref_ext ref_view ''state'' (ref_start 100))"
    by blast
  moreover have "aged now (kv_abs ref_ext ref_view ''state'' (ref_start 100)) ''c'' = None"
    by (simp add: aged_def kv_abs_def ref_eval slot_at_def)
  ultimately show ?thesis
    by (intro exI [of _ 5] exI [of _ w'] exI [of _ now]) (simp add: ttl_expiry_def)
qed


section \<open>Several clients\<close>

text \<open>
  C14. \<open>put_if_absent\<close> never replaces or removes a live value of the bucket, whatever other clients
  do between its calls.
\<close>

theorem put_if_absent_spares_live:
  assumes "jetstream S V" "kv_ok kv b"
  shows "wpr S (evolves V) (\<lambda>w w'. spares x V b w w' \<and> only V b (keys_of key) w w')
           (put_if_absent x kv key v ttl) (\<lambda>_ _. True) w"
  unfolding put_if_absent_def wpr_await
proof (rule jetstream.wpr_expires_at_from [OF assms(1)], goal_cases)
  case (3 w0 t)
  show ?case
    by (rule jetstream.wpr_put_if_absent_loop [where ?w0.0 = w0 and R = "evolves V", OF assms])
      (auto simp: claimable_def)
qed (auto intro: quiet_spares only_quiet)

theorem put_if_absent_spares_live_witness:
  "wpr ref_server (evolves ref_view) (\<lambda>w w'. spares ref_ext ref_view ''state'' w w'
       \<and> only ref_view ''state'' (keys_of ''a'') w w')
     (put_if_absent ref_ext ref_kv ''a'' ''u'' None) (\<lambda>_ _. True) wit_world"
  by (rule put_if_absent_spares_live [OF ref.jetstream_axioms ref_kv_ok])


text \<open>A key that holds a value for good.\<close>

definition holds_forever :: "externals \<Rightarrow> 'w view \<Rightarrow> string \<Rightarrow> string \<Rightarrow> bytes \<Rightarrow> 'w \<Rightarrow> bool" where
  "holds_forever x V b key v w \<longleftrightarrow> (\<exists>n. \<forall>now. slot_at x now (cell V w b (encode_key key)) = Live v None n)"

lemma holds_forever_same:
  "holds_forever x V b key v w \<Longrightarrow> cell V w' b (encode_key key) = cell V w b (encode_key key) \<Longrightarrow>
   holds_forever x V b key v w'"
  by (simp add: holds_forever_def)

lemma holds_forever_spares:
  assumes "spares x V b w w'" "holds_forever x V b key v w"
  shows "holds_forever x V b key v w'"
proof (rule holds_forever_same [OF assms(2)])
  have "is_live (slot_at x (clock V w) (cell V w b (encode_key key)))"
    using assms(2) by (auto simp: holds_forever_def is_live_def)
  with assms(1) show "cell V w' b (encode_key key) = cell V w b (encode_key key)"
    by (simp add: spares_def)
qed

lemma holds_forever_reach:
  assumes "reach V (spares x V b) w w'" "holds_forever x V b key v w"
  shows "holds_forever x V b key v w'"
  using assms unfolding reach_def
  by (induction rule: rtranclp_induct)
    (auto intro: holds_forever_spares holds_forever_spares [OF quiet_spares])

lemma holds_forever_stored:
  assumes "stored V w w' b (encode_key key) (publish_headers None ex) (encode_value v None) n"
    and "\<not> prefix TTL_ENVELOPE_MAGIC v"
  shows "holds_forever x V b key v w'"
  using assms(2) storedD(1) [OF assms(1)]
  by (auto simp: holds_forever_def slot_at_def decode_value_None)

context jetstream
begin

lemma wpr_put_if_absent_winner:
  assumes "kv_ok kv b" "\<not> prefix TTL_ENVELOPE_MAGIC v"
  shows "wpr S (spares x V b) (spares x V b) (put_if_absent x kv key v None)
           (\<lambda>r w. r = Inr True \<longrightarrow> holds_forever x V b key v w) w"
  unfolding put_if_absent_def expires_at_from_def option.case await.simps
proof (rule wpr_put_if_absent_loop [where ?w0.0 = w and R = "spares x V b" and b = b, OF assms(1)], goal_cases)
  case (1 a c)
  then show ?case by (simp add: spares_def)
next
  case (5 w1 w2 w3 w4 n ex)
  have "holds_forever x V b key v w3"
    by (rule holds_forever_reach [OF 5(4) holds_forever_stored [OF 5(3) assms(2)]])
  then have "holds_forever x V b key v w4"
    by (rule holds_forever_same) (simp add: only_cell [OF 5(5)])
  then show ?case by simp
qed (auto simp: claimable_def)

end

text \<open>
  C16. Of any number of clients that call \<open>put_if_absent\<close> on one key at once, each with a value of
  its own and no time to live, at most one is told that it won, in every interleaving of
  their calls.
\<close>

theorem put_if_absent_one_winner:
  assumes "jetstream S V" "kv_ok kv b" "inj val" "\<And>c. plain_value None (val c)"
    and "(pool_step S)\<^sup>*\<^sup>* (\<lambda>c. put_if_absent x kv key (val c) None, w) (ps, w')"
    and "ps c = Done (Inr True)" "ps d = Done (Inr True)"
  shows "c = d"
proof -
  let ?R = "\<lambda>c :: 'c. spares x V b" and ?Q = "\<lambda>c r w. r = Inr True \<longrightarrow> holds_forever x V b key (val c) w"
  have "pool_ok S ?R ?R ?Q (\<lambda>c. put_if_absent x kv key (val c) None, w)"
    using jetstream.wpr_put_if_absent_winner [OF assms(1,2)] assms(4)
    by (simp add: pool_ok_def plain_value_def)
  from pool_run_ok [OF assms(5) this] have "pool_ok S ?R ?R ?Q (ps, w')"
    using holds_forever_spares [of x V b] by auto
  then have "wpr S (spares x V b) (spares x V b) (ps a) (?Q a) w'" for a
    by (simp add: pool_ok_def)
  from this [of c] this [of d] assms(6,7)
  have "holds_forever x V b key (val c) w'" "holds_forever x V b key (val d) w'"
    by auto
  then have "val c = val d"
    by (auto simp: holds_forever_def)
  with assms(3) show ?thesis
    by (simp add: inj_eq)
qed

theorem put_if_absent_one_winner_witness:
  "\<exists>ps w'. (pool_step ref_server)\<^sup>*\<^sup>* (\<lambda>c. put_if_absent ref_ext ref_kv ''a'' (if c then ''t'' else ''f'') None,
       ref_start 100) (ps, w') \<and> {c. ps c = Done (Inr True)} = {True}"
proof -
  let ?ps = "\<lambda>c. put_if_absent ref_ext ref_kv ''a'' (if c then ''t'' else ''f'') None"
  have "fst (run ref_server (?ps True) (ref_start 100)) = Inr True"
    unfolding put_if_absent_def ref_rounds put_if_absent_loop.simps
    by (simp add: ref_kv_programs ref_eval)
  then obtain w' where "run ref_server (?ps True) (ref_start 100) = (Inr True, w')"
    by (metis prod.collapse)
  then have run: "(pool_step ref_server)\<^sup>*\<^sup>* (?ps, ref_start 100) (?ps(True := Done (Inr True)), w')"
    by (rule pool_run_one) simp
  define ps where "ps = ?ps(True := Done (Inr True))"
  have True: "ps True = Done (Inr True)"
    by (simp add: ps_def)
  have "inj (\<lambda>c. if c then ''t'' else ''f'')" "plain_value None (if c then ''t'' else ''f'')" for c
    by (auto simp: inj_def plain_value_def TTL_ENVELOPE_MAGIC_def)
  note one = put_if_absent_one_winner [OF ref.jetstream_axioms ref_kv_ok this run [folded ps_def] _ True]
  have "{c. ps c = Done (Inr True)} = {True}"
    using one True by blast
  with run [folded ps_def] show ?thesis
    by blast
qed



text \<open>
  C17. \<open>expire\<close> replaces the data record of its key only by one with the same value that was live
  when it was read, whatever other clients do between its calls.
\<close>

theorem expire_keeps_value:
  assumes "jetstream S V" "kv_ok kv b"
  shows "wpr S (evolves V) (replaces V b key (extended x ttl)) (expire x kv key ttl) (\<lambda>_ _. True) w"
  unfolding expire_def
  by (rule jetstream.wpr_expire_loop [where ?w0.0 = w and R = "evolves V" and b = b, OF assms]) auto

theorem expire_keeps_value_witness:
  "wpr ref_server (evolves ref_view) (replaces ref_view ''state'' ''a'' (extended ref_ext None))
     (expire ref_ext ref_kv ''a'' None) (\<lambda>_ _. True) wit_world"
  by (rule expire_keeps_value [OF ref.jetstream_axioms ref_kv_ok])

end
