(* ===== verification/Kv_Scan.thy ===== *)
theory Kv_Scan
  imports Kv_Ops "HOL-Library.List_Lexorder" "HOL-Library.Char_ord"
begin

text \<open>
  The scans of the state store (\<^verbatim>\<open>src/src/state/kv.rs\<close>): consumers over the records of a
  bucket, the listing in its three ways, the backfill of the index, and the sweep of dead
  records. What a reader of a consumer gets is a list of events, and the end of the list the
  end of the stream. A consumer is deleted where the code drops it. Reads and removals that
  the code runs in parallel are modelled one after the other, in the order they are started;
  a read failure does not stop the later reads of a listing, as in the code.
\<close>

section \<open>The model\<close>

definition BACKFILL_IN_FLIGHT :: nat where
  "BACKFILL_IN_FLIGHT = 256"

definition SUBJECT_LISTING_MAX :: nat where
  "SUBJECT_LISTING_MAX = 10000"

definition MAINTENANCE_SCAN_BPS :: u64 where
  "MAINTENANCE_SCAN_BPS = 32 * 1024 * 1024"

definition USIZE_MAX :: nat where
  "USIZE_MAX = 2 ^ 64 - 1"

text \<open>\<^verbatim>\<open>RecordConsumer\<close>: the records to come, and the name to delete the consumer by.\<close>

record RecordConsumer =
  rc_records :: "next_event list"
  rc_name :: string

definition drop_consumer :: "NatsKv \<Rightarrow> RecordConsumer \<Rightarrow> unit prog" where
  "drop_consumer kv c = delete_consumer (st_stream (store kv)) (rc_name c)"

definition record_consumer ::
  "NatsKv \<Rightarrow> string \<Rightarrow> string \<Rightarrow> deliver_policy \<Rightarrow> u64 \<Rightarrow> RecordConsumer option res prog" where
  "record_consumer kv description filt policy rate_limit =
     await (create_consumer (st_stream (store kv))
              \<lparr>cc_description = description, cc_filter_subject = st_prefix (store kv) @ filt,
               cc_deliver_policy = policy, cc_rate_limit = rate_limit\<rparr>) (\<lambda>r.
       case r of
         Inl e \<Rightarrow> Done (Inl (BackendUnavailable (''nats kv '' @ description @ '' consumer: '' @ e)))
       | Inr (name, num_pending) \<Rightarrow>
           if num_pending = 0 then
             await (delete_consumer (st_stream (store kv)) name) (\<lambda>_. Done (Inr None))
           else
             await (consumer_messages (st_stream (store kv)) name) (\<lambda>m.
               case m of
                 Inr records \<Rightarrow> Done (Inr (Some \<lparr>rc_records = records, rc_name = name\<rparr>))
               | Inl e \<Rightarrow>
                   await (delete_consumer (st_stream (store kv)) name) (\<lambda>_.
                     Done (Inl (BackendUnavailable
                       (''nats kv '' @ description @ '' messages: '' @ e))))))"

definition record_operation :: "headers option \<Rightarrow> Operation" where
  "record_operation hs =
     (case hs of
        None \<Rightarrow> Put
      | Some h \<Rightarrow>
          (case hdr_get h ''KV-Operation'' of
             Some v \<Rightarrow> if v = ''DEL'' then Delete else if v = ''PURGE'' then Purge else Put
           | None \<Rightarrow>
               (case hdr_get h ''Nats-Marker-Reason'' of
                  Some v \<Rightarrow> if v = ''Remove'' then Delete else Purge
                | None \<Rightarrow> Put)))"

text \<open>The expiry in a record's headers; \<^verbatim>\<open>None\<close> for a record without a readable one.\<close>

definition header_expiry :: "headers option \<Rightarrow> u64 option" where
  "header_expiry hs = Option.bind (Option.bind hs (\<lambda>h. hdr_get h EXPIRES_HEADER)) parse_u64"

definition header_expired :: "u64 \<Rightarrow> headers option \<Rightarrow> bool" where
  "header_expired now hs = (case header_expiry hs of None \<Rightarrow> False | Some at \<Rightarrow> at \<noteq> 0 \<and> at \<le> now)"


subsection \<open>The backfill\<close>

text \<open>The key a backfill indexes for a record, if any.\<close>

definition backfill_key :: "NatsKv \<Rightarrow> u64 \<Rightarrow> delivery \<Rightarrow> string option" where
  "backfill_key kv now d =
     (if record_operation (dl_headers d) = Put \<and> \<not> header_expired now (dl_headers d)
      then Option.bind (strip_prefix (st_prefix (store kv)) (dl_subject d)) (\<lambda>encoded.
             if is_index_key encoded then None else decode_key encoded)
      else None)"

fun drain_index :: "PendingWrite list \<Rightarrow> unit res" where
  "drain_index [] = Inr ()"
| "drain_index (p # ps) = (case index_done p of Inl e \<Rightarrow> Inl e | Inr _ \<Rightarrow> drain_index ps)"

fun backfill_loop ::
  "NatsKv \<Rightarrow> u64 \<Rightarrow> PendingWrite list \<Rightarrow> u64 \<Rightarrow> next_event list \<Rightarrow> (PendingWrite list \<times> u64) res prog" where
  "backfill_loop kv now in_flight indexed [] = Done (Inr (in_flight, indexed))"
| "backfill_loop kv now in_flight indexed (NextError e # _) =
     Done (Inl (BackendUnavailable (''nats kv backfill record: '' @ e)))"
| "backfill_loop kv now in_flight indexed (NextTimeout # _) =
     Done (Inl (BackendUnavailable ''nats kv backfill: no record arrived''))"
| "backfill_loop kv now in_flight indexed (NextRecord d # evs) =
     (case dl_info d of
        Inl e \<Rightarrow> Done (Inl (BackendUnavailable (''nats kv backfill record metadata: '' @ e)))
      | Inr info \<Rightarrow>
          await_ok
            (case backfill_key kv now d of
               None \<Rightarrow> Done (Inr (in_flight, indexed))
             | Some key \<Rightarrow>
                 await_ok (publish_index kv key) (\<lambda>p.
                   let fl = in_flight @ [p] in
                   if length fl = BACKFILL_IN_FLIGHT then
                     (case drain_index fl of
                        Inl e \<Rightarrow> Done (Inl e) | Inr _ \<Rightarrow> Done (Inr ([], indexed + 1)))
                   else Done (Inr (fl, indexed + 1))))
            (\<lambda>(fl, n).
               if di_pending info = 0 then Done (Inr (fl, n))
               else backfill_loop kv now fl n evs))"

definition backfill_index :: "NatsKv \<Rightarrow> u64 res prog" where
  "backfill_index kv =
     await_ok (record_consumer kv ''mcpg kv backfill'' ''>'' DeliverAll MAINTENANCE_SCAN_BPS) (\<lambda>rc.
     await_ok
       (case rc of
          None \<Rightarrow> Done (Inr ([], 0))
        | Some consumer \<Rightarrow>
            await now_unix_secs (\<lambda>now.
            await (backfill_loop kv now [] 0 (rc_records consumer)) (\<lambda>r.
            await (drop_consumer kv consumer) (\<lambda>_. Done r))))
       (\<lambda>(in_flight, indexed).
          case drain_index in_flight of Inl e \<Rightarrow> Done (Inl e) | Inr _ \<Rightarrow> Done (Inr indexed)))"


subsection \<open>Listing\<close>

record KvPage =
  page_entries :: "(string \<times> Entry) list"
  page_next :: "string option"

fun indexed_keys_loop ::
  "NatsKv \<Rightarrow> string \<Rightarrow> nat \<Rightarrow> string list \<Rightarrow> (string + string) list \<Rightarrow> string list option res" where
  "indexed_keys_loop kv pre max_keys keys [] = Inr (Some (sort keys))"
| "indexed_keys_loop kv pre max_keys keys (Inl e # _) =
     Inl (BackendUnavailable (''nats kv list subjects: '' @ e))"
| "indexed_keys_loop kv pre max_keys keys (Inr subject # subjects) =
     (case Option.bind (strip_prefix (st_prefix (store kv)) subject) data_key of
        Some key \<Rightarrow>
          if prefix pre key then
            if length keys = max_keys then Inr None
            else indexed_keys_loop kv pre max_keys (keys @ [key]) subjects
          else indexed_keys_loop kv pre max_keys keys subjects
      | None \<Rightarrow> indexed_keys_loop kv pre max_keys keys subjects)"

definition indexed_keys :: "NatsKv \<Rightarrow> string \<Rightarrow> nat \<Rightarrow> string list option res prog" where
  "indexed_keys kv pre max_keys =
     await (info_with_subjects (st_stream (store kv)) (st_prefix (store kv) @ prefix_filter pre)) (\<lambda>r.
       Done (case r of
               Inl e \<Rightarrow> Inl (BackendUnavailable (''nats kv list subjects: '' @ e))
             | Inr subjects \<Rightarrow> indexed_keys_loop kv pre max_keys [] subjects))"

definition live_read :: "externals \<Rightarrow> NatsKv \<Rightarrow> string \<Rightarrow> (string \<times> Entry) option res prog" where
  "live_read x kv key =
     await_ok (slot x kv (encode_key key) key) (\<lambda>s.
       Done (Inr (case s of
                    Live val expires_at_secs _ \<Rightarrow>
                      Some (key, \<lparr>entry_bytes = val, expires_at = expires_at_secs\<rparr>)
                  | Empty \<Rightarrow> None
                  | Dead _ \<Rightarrow> None)))"

primrec live_reads ::
  "externals \<Rightarrow> NatsKv \<Rightarrow> string list \<Rightarrow> (string \<times> Entry) option res list prog" where
  "live_reads x kv [] = Done []"
| "live_reads x kv (key # keys) =
     await (live_read x kv key) (\<lambda>r. await (live_reads x kv keys) (\<lambda>rs. Done (r # rs)))"

text \<open>\<^verbatim>\<open>collect::<Result<Vec<_>, _>>()\<close>: the first error, or the list.\<close>

fun collect_results :: "('e + 'a) list \<Rightarrow> 'e + 'a list" where
  "collect_results [] = Inr []"
| "collect_results (Inl e # _) = Inl e"
| "collect_results (Inr a # rs) =
     (case collect_results rs of Inl e \<Rightarrow> Inl e | Inr as \<Rightarrow> Inr (a # as))"

definition live_entries :: "externals \<Rightarrow> NatsKv \<Rightarrow> string list \<Rightarrow> (string \<times> Entry) list res prog" where
  "live_entries x kv keys =
     await (live_reads x kv keys) (\<lambda>rs.
       Done (case collect_results rs of
               Inl e \<Rightarrow> Inl e
             | Inr os \<Rightarrow> Inr (List.map_filter id os)))"

definition page_keys :: "string list \<Rightarrow> string option \<Rightarrow> nat \<Rightarrow> string list \<times> string option" where
  "page_keys keys after limit =
     (let start = (case after of None \<Rightarrow> 0 | Some a \<Rightarrow> length (takeWhile (\<lambda>k. k \<le> a) keys));
          page = take limit (drop start keys)
      in (page, if start + length page < length keys \<and> page \<noteq> []
                then Some (CHR ''s'' # last page) else None))"

definition subjects_page ::
  "externals \<Rightarrow> NatsKv \<Rightarrow> string list \<Rightarrow> string option \<Rightarrow> nat \<Rightarrow> KvPage res prog" where
  "subjects_page x kv keys after limit =
     (case page_keys keys after limit of (page, next_cursor) \<Rightarrow>
        await_ok (live_entries x kv page) (\<lambda>entries.
          Done (Inr \<lparr>page_entries = entries, page_next = next_cursor\<rparr>)))"

text \<open>Cursors of a scan: \<^verbatim>\<open>i\<close> or \<^verbatim>\<open>d\<close> and a sequence, or a bare sequence.\<close>

definition scan_cursor :: "string \<Rightarrow> (bool \<times> u64) res" where
  "scan_cursor c =
     (let (indexed, sequence) =
            (case c of
               [] \<Rightarrow> (False, c)
             | h # r \<Rightarrow> if h = CHR ''i'' then (True, r)
                       else if h = CHR ''d'' then (False, r) else (False, c))
      in case parse_u64 sequence of
           Some after \<Rightarrow> Inr (indexed, after)
         | None \<Rightarrow> Inl (Precondition (''nats kv list: `'' @ c @ ''` is not a cursor of this store'')))"

text \<open>The key a scan lists for a record, if any.\<close>

definition scan_key :: "NatsKv \<Rightarrow> string \<Rightarrow> bool \<Rightarrow> delivery \<Rightarrow> string option" where
  "scan_key kv pre indexed d =
     Option.bind (strip_prefix (st_prefix (store kv)) (dl_subject d)) (\<lambda>encoded.
       if indexed then
         (case data_key encoded of
            Some key \<Rightarrow> if prefix pre key then Some key else None | None \<Rightarrow> None)
       else if record_operation (dl_headers d) = Put \<and> prefix (encode_key pre) encoded
         then decode_key encoded
         else None)"

fun scan_loop ::
  "NatsKv \<Rightarrow> string \<Rightarrow> bool \<Rightarrow> nat \<Rightarrow> string list \<Rightarrow> u64 option \<Rightarrow> bool \<Rightarrow> next_event list \<Rightarrow>
   (string list \<times> u64 option \<times> bool) res" where
  "scan_loop kv pre indexed limit matched last_sequence more_left [] = Inr (matched, last_sequence, more_left)"
| "scan_loop kv pre indexed limit matched last_sequence more_left (ev # evs) =
     (if limit \<le> length matched then Inr (matched, last_sequence, more_left)
      else (case ev of
        NextError e \<Rightarrow> Inl (BackendUnavailable (''nats kv list record: '' @ e))
      | NextTimeout \<Rightarrow>
          if last_sequence \<noteq> None then Inr (matched, last_sequence, more_left)
          else Inl (BackendUnavailable ''nats kv list: no record arrived'')
      | NextRecord d \<Rightarrow>
          (case dl_info d of
             Inl e \<Rightarrow> Inl (BackendUnavailable (''nats kv list record metadata: '' @ e))
           | Inr info \<Rightarrow>
               let matched' = (case scan_key kv pre indexed d of
                                 Some key \<Rightarrow> matched @ [key] | None \<Rightarrow> matched);
                   more_left' = 0 < di_pending info
               in if more_left' then scan_loop kv pre indexed limit matched' (Some (di_sequence info)) more_left' evs
                  else Inr (matched', Some (di_sequence info), more_left'))))"

definition scan_page ::
  "externals \<Rightarrow> NatsKv \<Rightarrow> string \<Rightarrow> nat \<Rightarrow> bool \<Rightarrow> u64 \<Rightarrow> KvPage res prog" where
  "scan_page x kv pre limit indexed after =
     await_ok (record_consumer kv ''mcpg kv list'' (if indexed then prefix_filter pre else ''>'')
                 (ByStartSequence (after + 1)) 0) (\<lambda>rc.
       case rc of
         None \<Rightarrow> Done (Inr \<lparr>page_entries = [], page_next = None\<rparr>)
       | Some consumer \<Rightarrow>
           await (drop_consumer kv consumer) (\<lambda>_.
             case scan_loop kv pre indexed limit [] None True (rc_records consumer) of
               Inl e \<Rightarrow> Done (Inl e)
             | Inr (matched, last_sequence, more_left) \<Rightarrow>
                 await_ok (live_entries x kv matched) (\<lambda>entries.
                   Done (Inr \<lparr>page_entries = entries,
                              page_next = (if more_left then map_option (\<lambda>s.
                                 (if indexed then CHR ''i'' else CHR ''d'') # u64_to_string s) last_sequence
                               else None)\<rparr>))))"

definition list_page ::
  "externals \<Rightarrow> NatsKv \<Rightarrow> string \<Rightarrow> string option \<Rightarrow> nat \<Rightarrow> KvPage res prog" where
  "list_page x kv pre cursor limit0 =
     (let limit = max limit0 1 in
      case Option.bind cursor (strip_prefix ''s'') of
        Some after \<Rightarrow>
          await_ok (indexed_keys kv pre USIZE_MAX) (\<lambda>ks.
            subjects_page x kv (case ks of None \<Rightarrow> [] | Some keys \<Rightarrow> keys) (Some after) limit)
      | None \<Rightarrow>
          (case cursor of
             Some c \<Rightarrow>
               (case scan_cursor c of
                  Inl e \<Rightarrow> Done (Inl e)
                | Inr (indexed, after) \<Rightarrow> scan_page x kv pre limit indexed after)
           | None \<Rightarrow>
               await (index_ready kv) (\<lambda>ready.
               await_ok (if ready then indexed_keys kv pre SUBJECT_LISTING_MAX else Done (Inr None)) (\<lambda>ks.
                 case ks of
                   Some keys \<Rightarrow> subjects_page x kv keys None limit
                 | None \<Rightarrow> await (index_ready kv) (\<lambda>indexed. scan_page x kv pre limit indexed 0)))))"


subsection \<open>The sweep\<close>

record SweepReport =
  scanned :: u64
  expired :: u64
  markers :: u64
  upgraded :: u64

definition SweepReport_default :: SweepReport where
  "SweepReport_default = \<lparr>scanned = 0, expired = 0, markers = 0, upgraded = 0\<rparr>"

datatype LegacyOutcome = LegacyExpired | LegacyUpgraded | LegacyMoved

text \<open>What a sweep collects: the report, the dead records, the records of older builds.\<close>

record sweep_state =
  sw_report :: SweepReport
  sw_legacy :: "(string \<times> u64) list"
  sw_dead :: "(string \<times> u64) list"

definition published_secs :: "int \<Rightarrow> u64" where
  "published_secs t = (if 0 \<le> t then of_int t else 0)"

definition sweep_record :: "NatsKv \<Rightarrow> u64 \<Rightarrow> duration \<Rightarrow> delivery \<Rightarrow> delivered_info \<Rightarrow> sweep_state \<Rightarrow> sweep_state" where
  "sweep_record kv now marker_grace d info st0 =
     (let st = st0\<lparr>sw_report := (sw_report st0)\<lparr>scanned := scanned (sw_report st0) + 1\<rparr>\<rparr>;
          dead = sw_dead st @ [(dl_subject d, di_sequence info)]
      in case record_operation (dl_headers d) of
           Put \<Rightarrow>
             (case header_expiry (dl_headers d) of
                Some at \<Rightarrow>
                  if at \<noteq> 0 \<and> at \<le> now
                  then st\<lparr>sw_dead := dead,
                          sw_report := (sw_report st)\<lparr>expired := expired (sw_report st) + 1\<rparr>\<rparr>
                  else st
              | None \<Rightarrow>
                  (case strip_prefix (st_prefix (store kv)) (dl_subject d) of
                     Some encoded \<Rightarrow> st\<lparr>sw_legacy := sw_legacy st @ [(encoded, di_sequence info)]\<rparr>
                   | None \<Rightarrow> st))
         | _ \<Rightarrow>
             if dur_secs marker_grace \<le> sat_sub_u64 now (published_secs (di_published info))
             then st\<lparr>sw_dead := dead,
                     sw_report := (sw_report st)\<lparr>markers := markers (sw_report st) + 1\<rparr>\<rparr>
             else st)"

fun sweep_loop :: "NatsKv \<Rightarrow> u64 \<Rightarrow> duration \<Rightarrow> sweep_state \<Rightarrow> next_event list \<Rightarrow> sweep_state res" where
  "sweep_loop kv now marker_grace st [] = Inr st"
| "sweep_loop kv now marker_grace st (NextTimeout # _) = Inr st"
| "sweep_loop kv now marker_grace st (NextError e # _) =
     Inl (BackendUnavailable (''nats kv sweep record: '' @ e))"
| "sweep_loop kv now marker_grace st (NextRecord d # evs) =
     (case dl_info d of
        Inl e \<Rightarrow> Inl (BackendUnavailable (''nats kv sweep record metadata: '' @ e))
      | Inr info \<Rightarrow>
          let st' = sweep_record kv now marker_grace d info st
          in if di_pending info = 0 then Inr st' else sweep_loop kv now marker_grace st' evs)"

definition remove_dead :: "externals \<Rightarrow> NatsKv \<Rightarrow> string \<Rightarrow> u64 \<Rightarrow> unit res prog" where
  "remove_dead x kv subject sequence =
     (let encoded = (case strip_prefix (st_prefix (store kv)) subject of Some e \<Rightarrow> e | None \<Rightarrow> subject) in
      if is_index_key encoded then
        await_ok (purge_through kv subject sequence) (\<lambda>_.
        await_ok (case data_key encoded of
                    Some key \<Rightarrow> reindex_if_live x kv key
                  | None \<Rightarrow> Done (Inr ())) (\<lambda>_.
          Done (Inr ())))
      else
        (case decode_key encoded of
           None \<Rightarrow> purge_through kv subject sequence
         | Some key \<Rightarrow>
             await_ok (purge_index kv key) (\<lambda>_.
             await_ok (purge_through kv subject sequence) (\<lambda>_.
               reindex_if_live x kv key))))"

primrec remove_each :: "externals \<Rightarrow> NatsKv \<Rightarrow> (string \<times> u64) list \<Rightarrow> unit res prog" where
  "remove_each x kv [] = Done (Inr ())"
| "remove_each x kv (d # ds) =
     await_ok (remove_dead x kv (fst d) (snd d)) (\<lambda>_. remove_each x kv ds)"

definition remove_all_dead :: "externals \<Rightarrow> NatsKv \<Rightarrow> (string \<times> u64) list \<Rightarrow> unit res prog" where
  "remove_all_dead x kv dead = remove_each x kv dead"

definition settle_legacy :: "externals \<Rightarrow> NatsKv \<Rightarrow> string \<Rightarrow> u64 \<Rightarrow> LegacyOutcome res prog" where
  "settle_legacy x kv encoded sequence =
     await (last_record (ext_parse_op x) (store kv) encoded) (\<lambda>r.
       case r of
         Inl e \<Rightarrow> Done (Inl (BackendUnavailable (''nats kv sweep entry: '' @ e)))
       | Inr None \<Rightarrow> Done (Inr LegacyMoved)
       | Inr (Some rec) \<Rightarrow>
           if revision rec \<noteq> sequence \<or> operation rec \<noteq> Put then Done (Inr LegacyMoved)
           else
             (case decode_value (payload rec) of (val, expires_at_secs) \<Rightarrow>
                await (is_expired expires_at_secs) (\<lambda>ex.
                  if ex then
                    await_ok (remove_dead x kv (st_prefix (store kv) @ encoded) sequence) (\<lambda>_.
                      Done (Inr LegacyExpired))
                  else
                    await (kv_write kv encoded val expires_at_secs (Revision sequence)) (\<lambda>w.
                      case w of
                        Inr _ \<Rightarrow>
                          await_ok (case decode_key encoded of
                                      Some key \<Rightarrow> write_index kv key
                                    | None \<Rightarrow> Done (Inr ())) (\<lambda>_.
                            Done (Inr LegacyUpgraded))
                      | Inl Conflict \<Rightarrow> Done (Inr LegacyMoved)
                      | Inl (Failed e) \<Rightarrow> Done (Inl e)))))"

primrec settle_each ::
  "externals \<Rightarrow> NatsKv \<Rightarrow> (string \<times> u64) list \<Rightarrow> LegacyOutcome res list prog" where
  "settle_each x kv [] = Done []"
| "settle_each x kv (l # ls) =
     await (settle_legacy x kv (fst l) (snd l)) (\<lambda>r. await (settle_each x kv ls) (\<lambda>rs. Done (r # rs)))"

fun count_outcomes :: "SweepReport \<Rightarrow> LegacyOutcome res list \<Rightarrow> SweepReport res" where
  "count_outcomes report [] = Inr report"
| "count_outcomes report (Inl e # _) = Inl e"
| "count_outcomes report (Inr LegacyExpired # rs) = count_outcomes (report\<lparr>expired := expired report + 1\<rparr>) rs"
| "count_outcomes report (Inr LegacyUpgraded # rs) = count_outcomes (report\<lparr>upgraded := upgraded report + 1\<rparr>) rs"
| "count_outcomes report (Inr LegacyMoved # rs) = count_outcomes report rs"

definition sweep :: "externals \<Rightarrow> NatsKv \<Rightarrow> duration \<Rightarrow> SweepReport res prog" where
  "sweep x kv marker_grace =
     await_ok (record_consumer kv ''mcpg kv sweep'' ''>'' DeliverAll MAINTENANCE_SCAN_BPS) (\<lambda>rc.
       case rc of
         None \<Rightarrow> Done (Inr SweepReport_default)
       | Some consumer \<Rightarrow>
           await now_unix_secs (\<lambda>now.
           await (drop_consumer kv consumer) (\<lambda>_.
             case sweep_loop kv now marker_grace
                    \<lparr>sw_report = SweepReport_default, sw_legacy = [], sw_dead = []\<rparr> (rc_records consumer) of
               Inl e \<Rightarrow> Done (Inl e)
             | Inr st \<Rightarrow>
                 await_ok (remove_all_dead x kv (sw_dead st)) (\<lambda>_.
                 await (settle_each x kv (sw_legacy st)) (\<lambda>outcomes.
                   Done (count_outcomes (sw_report st) outcomes))))))"

end
