(* ===== verification/Clock.thy ===== *)
theory Clock
  imports Value_Codec
begin

text \<open>
  Times and lifetimes (\<^verbatim>\<open>src/src/lib.rs\<close>, \<^verbatim>\<open>src/src/lease.rs\<close>): the conversion of
  Unix seconds to a calendar date, RFC 3339 timestamps, and the conversions between
  milliseconds and durations. The calendar conversion is checked against the Gregorian
  calendar given by its rules.
\<close>

section \<open>The model\<close>

definition i32_wrap :: "int \<Rightarrow> int" where
  "i32_wrap z = (z + 2 ^ 31) mod 2 ^ 32 - 2 ^ 31"

text \<open>The \<^verbatim>\<open>u32\<close> intermediates stay far below their range; the year is an \<^verbatim>\<open>i32\<close>.\<close>

definition year_of_era :: "int \<Rightarrow> int" where
  "year_of_era doe = (doe - doe div 1460 + doe div 36524 - doe div 146096) div 365"

definition month_day :: "int \<Rightarrow> int \<times> int" where
  "month_day doy =
     (let mp = (5 * doy + 2) div 153;
          d = doy - (153 * mp + 2) div 5 + 1;
          m = (if mp < 10 then mp + 3 else mp - 9)
      in (m, d))"

definition epoch_to_ymdhms :: "i64 \<Rightarrow> int \<times> int \<times> int \<times> int \<times> int \<times> int" where
  "epoch_to_ymdhms secs =
     (let days_since_epoch = secs div 86400;
          secs_today = secs mod 86400;
          hour = secs_today div 3600;
          minute = (secs_today mod 3600) div 60;
          sec = secs_today mod 60;
          z = days_since_epoch + 719468;
          era = z div 146097;
          doe = z - era * 146097;
          yoe = year_of_era doe;
          y = i32_wrap (yoe + i32_wrap (i32_wrap era * 400));
          doy = doe - (365 * yoe + yoe div 4 - yoe div 100);
          (m, d) = month_day doy;
          year = (if m \<le> 2 then i32_wrap (y + 1) else y)
      in (year, m, d, hour, minute, sec))"

definition pad0 :: "nat \<Rightarrow> int \<Rightarrow> string" where
  "pad0 width n =
     (let digits = dec_of_nat (nat \<bar>n\<bar>); sign = (if n < 0 then ''-'' else '''')
      in sign @ replicate (width - length sign - length digits) CHR ''0'' @ digits)"

definition rfc3339 :: "i64 \<Rightarrow> string" where
  "rfc3339 secs =
     (case epoch_to_ymdhms secs of (y, m, d, h, mn, s) \<Rightarrow>
        pad0 4 y @ ''-'' @ pad0 2 m @ ''-'' @ pad0 2 d @ ''T''
        @ pad0 2 h @ '':'' @ pad0 2 mn @ '':'' @ pad0 2 s @ ''Z'')"

definition since_epoch :: "duration option \<Rightarrow> duration" where
  "since_epoch d = (case d of None \<Rightarrow> duration_from_secs 0 | Some d \<Rightarrow> d)"

text \<open>The whole seconds of a sum of durations, and the cast of \<^verbatim>\<open>u64\<close> to \<^verbatim>\<open>i64\<close>.\<close>

definition sum_secs :: "duration \<Rightarrow> duration \<Rightarrow> u64" where
  "sum_secs a b = dur_secs a + dur_secs b + of_nat ((dur_nanos a + dur_nanos b) div 1000000000)"

definition u64_as_i64 :: "u64 \<Rightarrow> i64" where
  "u64_as_i64 n = sint n"

definition rfc3339_after :: "duration \<Rightarrow> string prog" where
  "rfc3339_after offset =
     await system_now (\<lambda>now. Done (rfc3339 (u64_as_i64 (sum_secs (since_epoch now) offset))))"

definition now_rfc3339 :: "string prog" where
  "now_rfc3339 = rfc3339_after (duration_from_secs 0)"

definition ttl_from_ms :: "u64 option \<Rightarrow> duration option" where
  "ttl_from_ms ttl_ms = map_option duration_from_millis ttl_ms"

definition duration_to_ttl_ms :: "duration \<Rightarrow> u64" where
  "duration_to_ttl_ms d = u64_try_from_or_max (as_millis d)"


section \<open>The Gregorian calendar\<close>

definition leap :: "int \<Rightarrow> bool" where
  "leap y \<longleftrightarrow> 4 dvd y \<and> (\<not> 100 dvd y \<or> 400 dvd y)"

definition month_length :: "int \<Rightarrow> int \<Rightarrow> int" where
  "month_length y m = (if m = 2 then (if leap y then 29 else 28)
     else if m \<in> {4, 6, 9, 11} then 30 else 31)"

definition year_length :: "int \<Rightarrow> int" where
  "year_length y = (if leap y then 366 else 365)"

text \<open>Days from 1970-01-01 to a year's first day; the next lemma is the rule behind it.\<close>

definition leap_count :: "int \<Rightarrow> int" where
  "leap_count y = y div 4 - y div 100 + y div 400"

definition days_to_year :: "int \<Rightarrow> int" where
  "days_to_year y = 365 * (y - 1) + leap_count (y - 1) - 719162"

definition days_to_month :: "int \<Rightarrow> int \<Rightarrow> int" where
  "days_to_month y m = (\<Sum>k \<leftarrow> [1..m - 1]. month_length y k)"

definition days_of_date :: "int \<Rightarrow> int \<Rightarrow> int \<Rightarrow> int" where
  "days_of_date y m d = days_to_year y + days_to_month y m + (d - 1)"

definition date_ok :: "int \<Rightarrow> int \<Rightarrow> int \<Rightarrow> bool" where
  "date_ok y m d \<longleftrightarrow> 1 \<le> m \<and> m \<le> 12 \<and> 1 \<le> d \<and> d \<le> month_length y m"

lemma days_to_year_1970: "days_to_year 1970 = 0"
  by (simp add: days_to_year_def leap_count_def)

lemma div_pred: "0 < k \<Longrightarrow> y div k = (y - 1) div k + (if k dvd y then 1 else 0)" for k y :: int
proof -
  assume k: "0 < k"
  define q r where "q = y div k" and "r = y mod k"
  have y: "y = k * q + r" and r: "0 \<le> r" "r < k" and dvd: "k dvd y \<longleftrightarrow> r = 0"
    using k by (simp_all add: q_def r_def dvd_eq_mod_eq_0)
  show ?thesis
  proof (cases "r = 0")
    case True
    have "(y - 1) div k = q - 1"
      by (rule int_div_pos_eq [where r = "k - 1"]) (use y k True in \<open>auto simp: algebra_simps\<close>)
    with True dvd show ?thesis by (simp add: q_def)
  next
    case False
    have "(y - 1) div k = q"
      by (rule int_div_pos_eq [where r = "r - 1"]) (use y r False in auto)
    with False dvd show ?thesis by (simp add: q_def)
  qed
qed

lemma dvd_100: "400 dvd y \<Longrightarrow> 100 dvd y" "100 dvd y \<Longrightarrow> 4 dvd y" for y :: int
  by (erule dvd_trans [rotated], simp)+

lemma three_steps:
  "a = a' + (if p then 1 else 0) \<Longrightarrow> b = b' + (if q then 1 else 0) \<Longrightarrow> c = c' + (if r then 1 else 0) \<Longrightarrow>
   (r \<Longrightarrow> q) \<Longrightarrow> (q \<Longrightarrow> p) \<Longrightarrow>
   a - b + c = a' - b' + c' + (if p \<and> (\<not> q \<or> r) then 1 else (0 :: int))"
  by (cases p; cases q; cases r) simp_all

lemma leap_days: "leap_count y = leap_count (y - 1) + (if leap y then 1 else 0)"
  unfolding leap_count_def leap_def
proof (rule three_steps)
  show "y div 4 = (y - 1) div 4 + (if 4 dvd y then 1 else 0)"
    "y div 100 = (y - 1) div 100 + (if 100 dvd y then 1 else 0)"
    "y div 400 = (y - 1) div 400 + (if 400 dvd y then 1 else 0)"
    by (rule div_pred, simp)+
qed (erule dvd_100)+

lemma days_to_year_Suc: "days_to_year (y + 1) = days_to_year y + year_length y"
  using leap_days [of y] by (simp add: days_to_year_def year_length_def)

text \<open>The year of the era, day by day, by the days on which its years begin and end.\<close>

definition era_year_start :: "int \<Rightarrow> int" where
  "era_year_start n = 365 * n + leap_count n"

lemma year_of_era_ends:
  "list_all (\<lambda>n. year_of_era (era_year_start n) = n \<and> year_of_era (era_year_start (n + 1) - 1) = n) [0..399]"
  by code_simp

lemma month_day_table:
  "list_all (\<lambda>doy. case month_day doy of (m, d) \<Rightarrow> 1 \<le> d \<and>
     (if 3 \<le> m then m \<le> 12 \<and> d \<le> month_length 1 m \<and> days_to_month 1 m + d - 1 = doy + 59
      else 1 \<le> m \<and> (m = 1 \<and> d \<le> 31 \<or> m = 2 \<and> d \<le> (if doy = 365 then 29 else 28))
        \<and> days_to_month 1 m + d - 1 = doy - 306)) [0..365]"
  by code_simp


lemma year_of_era_mono: "a \<le> b \<Longrightarrow> year_of_era a \<le> year_of_era b"
proof -
  let ?g = "\<lambda>d :: int. d - d div 1460 + d div 36524 - d div 146096"
  have step: "?g d \<le> ?g (d + 1)" for d
  proof -
    have dvd: "36524 dvd d + 1" if "146096 dvd d + 1"
      using that by (rule dvd_trans [of 36524 146096, rotated]) simp
    have 1: "(d + 1) div 1460 \<le> d div 1460 + 1"
      using div_pred [of 1460 "d + 1"] by (simp split: if_splits)
    have 2: "(d + 1) div 36524 = d div 36524 + (if 36524 dvd d + 1 then 1 else 0)"
      using div_pred [of 36524 "d + 1"] by simp
    have 3: "(d + 1) div 146096 = d div 146096 + (if 146096 dvd d + 1 then 1 else 0)"
      using div_pred [of 146096 "d + 1"] by simp
    show ?thesis
      unfolding 2 3 using 1 dvd by (simp split: if_splits)
  qed
  have "?g a \<le> ?g (a + int n)" for n
  proof (induction n)
    case (Suc n)
    have "?g (a + int n) \<le> ?g (a + int n + 1)"
      by (rule step)
    with Suc show ?case
      by (simp only: of_nat_Suc add.assoc [symmetric] add.commute [of 1])
  qed simp
  moreover assume "a \<le> b"
  ultimately have "?g a \<le> ?g b"
    by (metis zle_iff_zadd)
  then show ?thesis
    unfolding year_of_era_def by (rule zdiv_mono1) simp
qed

lemma era_year_exists:
  "0 \<le> doe \<Longrightarrow> doe < era_year_start (int k) \<Longrightarrow>
   \<exists>n. 0 \<le> n \<and> n < int k \<and> era_year_start n \<le> doe \<and> doe < era_year_start (n + 1)"
proof (induction k)
  case 0
  then show ?case by (simp add: era_year_start_def leap_count_def)
next
  case (Suc k)
  show ?case
  proof (cases "doe < era_year_start (int k)")
    case True
    with Suc obtain n where "0 \<le> n" "n < int k" "era_year_start n \<le> doe" "doe < era_year_start (n + 1)"
      by blast
    then show ?thesis by (intro exI [of _ n]) auto
  next
    case False
    with Suc.prems show ?thesis
      by (intro exI [of _ "int k"]) (auto simp: add.commute)
  qed
qed

lemma year_of_era_spec:
  assumes "0 \<le> doe" "doe < 146097"
  shows "0 \<le> year_of_era doe \<and> year_of_era doe \<le> 399
     \<and> era_year_start (year_of_era doe) \<le> doe \<and> doe < era_year_start (year_of_era doe + 1)"
proof -
  have "era_year_start (int 400) = 146097"
    by (simp add: era_year_start_def leap_count_def)
  with assms era_year_exists [of doe 400] obtain n
    where n: "0 \<le> n" "n \<le> 399" "era_year_start n \<le> doe" "doe < era_year_start (n + 1)"
    by auto
  then have "n \<in> set [0..399]"
    by simp
  with year_of_era_ends have "year_of_era (era_year_start n) = n" "year_of_era (era_year_start (n + 1) - 1) = n"
    by (auto simp: list_all_iff)
  then have "year_of_era doe = n"
    using year_of_era_mono [of "era_year_start n" doe] year_of_era_mono [of doe "era_year_start (n + 1) - 1"] n
    by simp
  with n show ?thesis by simp
qed

text \<open>The first of March of a year, in days.\<close>

lemma march_first:
  "days_to_year y + 59 + (if leap y then 1 else 0) = 365 * y + leap_count y - 719468"
  using leap_days [of y] by (simp add: days_to_year_def)

lemma era_year_length: "era_year_start (n + 1) - era_year_start n = year_length (n + 1)"
  using leap_days [of "n + 1"] by (simp add: era_year_start_def year_length_def)

lemma leap_era: "leap (n + 400 * e) \<longleftrightarrow> leap n"
proof -
  have "4 dvd n + 400 * e \<longleftrightarrow> 4 dvd n" "100 dvd n + 400 * e \<longleftrightarrow> 100 dvd n" "400 dvd n + 400 * e \<longleftrightarrow> 400 dvd n"
    by (rule dvd_add_left_iff, rule dvd_mult2, simp)+
  then show ?thesis by (simp add: leap_def)
qed

lemma days_to_month_leap:
  "list_all (\<lambda>m. month_length y m = month_length 1 m + (if m = 2 \<and> leap y then 1 else 0)
     \<and> days_to_month y m = days_to_month 1 m + (if 3 \<le> m \<and> leap y then 1 else 0)) [1..12]"
  by (simp add: days_to_month_def month_length_def upto_rec1 leap_def)

lemma leap_count_era: "leap_count (n + 400 * e) = leap_count n + 97 * e"
proof -
  have "(n + 400 * e) div 4 = n div 4 + 100 * e" "(n + 400 * e) div 100 = n div 100 + 4 * e"
    "(n + 400 * e) div 400 = n div 400 + e"
    using div_mult_self2 [of 4 n "100 * e"] div_mult_self2 [of 100 n "4 * e"] div_mult_self2 [of 400 n e]
    by simp_all
  then show ?thesis by (simp add: leap_count_def)
qed

lemma i32_wrap_id: "- (2 ^ 31) \<le> z \<Longrightarrow> z < 2 ^ 31 \<Longrightarrow> i32_wrap z = z"
  by (simp add: i32_wrap_def)

text \<open>The date of a day counted from the first of March of the year \<^term>\<open>y\<close>.\<close>

lemma month_day_spec:
  assumes "0 \<le> doy" "doy < year_length (y + 1)" "month_day doy = (m, d)"
  shows "date_ok (if m \<le> 2 then y + 1 else y) m d
    \<and> days_of_date (if m \<le> 2 then y + 1 else y) m d = 365 * y + leap_count y - 719468 + doy"
proof -
  have doy: "doy \<in> set [0..365]" and last: "doy = 365 \<Longrightarrow> leap (y + 1)"
    using assms by (auto simp: year_length_def split: if_splits)
  have row: "1 \<le> d \<and> (if 3 \<le> m then m \<le> 12 \<and> d \<le> month_length 1 m \<and> days_to_month 1 m + d - 1 = doy + 59
      else 1 \<le> m \<and> (m = 1 \<and> d \<le> 31 \<or> m = 2 \<and> d \<le> (if doy = 365 then 29 else 28))
        \<and> days_to_month 1 m + d - 1 = doy - 306)"
    using bspec [OF month_day_table [unfolded list_all_iff] doy] unfolding assms(3) prod.case .
  then have "m \<in> set [1..12]"
    by (auto split: if_splits)
  then have months: "month_length x m = month_length 1 m + (if m = 2 \<and> leap x then 1 else 0)"
    "days_to_month x m = days_to_month 1 m + (if 3 \<le> m \<and> leap x then 1 else 0)" for x
    using days_to_month_leap [of x] unfolding list_all_iff by blast+
  show ?thesis
  proof (cases "3 \<le> m")
    case True
    then show ?thesis
      using row months [of y] march_first [of y] by (simp add: date_ok_def days_of_date_def)
  next
    case False
    have "days_to_year (y + 1) = 306 + (365 * y + leap_count y - 719468)"
      using days_to_year_Suc [of y] march_first [of y] by (simp add: year_length_def split: if_splits)
    moreover have "d \<le> month_length (y + 1) m"
      using row False last by (auto simp: month_length_def split: if_splits)
    ultimately show ?thesis
      using row False months [of "y + 1"] by (simp add: date_ok_def days_of_date_def split: if_splits)
  qed
qed

lemma time_of_day:
  fixes r :: int
  assumes "0 \<le> r" "r < 86400"
  shows "3600 * (r div 3600) + 60 * (r mod 3600 div 60) + r mod 60 = r"
    "0 \<le> r div 3600" "r div 3600 < 24" "0 \<le> r mod 3600 div 60" "r mod 3600 div 60 < 60"
    "0 \<le> r mod 60" "r mod 60 < 60"
proof -
  have "r mod 3600 mod 60 = r mod 60"
    by (rule mod_mod_cancel) simp
  moreover have "3600 * (r div 3600) + (60 * (r mod 3600 div 60) + r mod 3600 mod 60) = r"
    by (simp only: mult_div_mod_eq)
  ultimately show "3600 * (r div 3600) + 60 * (r mod 3600 div 60) + r mod 60 = r"
    by (simp only: add.assoc)
qed (use assms in simp_all)

text \<open>
  C32. The calendar of \<^verbatim>\<open>epoch_to_ymdhms\<close> is the Gregorian one: for every time whose year
  fits the 32-bit year, before and after 1970, the fields are a date of the calendar and a time of
  the day, and they denote exactly the seconds that were given.
\<close>
theorem epoch_to_ymdhms_calendar:
  assumes "\<bar>secs\<bar> < 60000000000000000" "epoch_to_ymdhms secs = (y, m, d, h, mi, s)"
  shows "date_ok y m d \<and> 0 \<le> h \<and> h < 24 \<and> 0 \<le> mi \<and> mi < 60 \<and> 0 \<le> s \<and> s < 60
    \<and> 86400 * days_of_date y m d + 3600 * h + 60 * mi + s = secs"
proof -
  define day where "day = secs div 86400"
  define era where "era = (day + 719468) div 146097"
  define doe where "doe = (day + 719468) mod 146097"
  define yoe where "yoe = year_of_era doe"
  define doy where "doy = doe - era_year_start yoe"
  have doe: "0 \<le> doe" "doe < 146097" and day: "day + 719468 = 146097 * era + doe"
    by (simp_all add: doe_def era_def)
  then have yoe: "0 \<le> yoe" "yoe \<le> 399" and doy: "0 \<le> doy" "doy < year_length (yoe + 1)"
    using year_of_era_spec [of doe] era_year_length [of yoe] by (simp_all add: yoe_def doy_def)
  have secs: "secs = 86400 * day + secs mod 86400" "0 \<le> secs mod 86400" "secs mod 86400 < 86400"
    by (simp_all add: day_def)
  then have "-4753320 \<le> era" "era \<le> 4753320"
    using assms(1) day doe by linarith+
  then have wrap: "i32_wrap (yoe + i32_wrap (i32_wrap era * 400)) = yoe + 400 * era"
    "i32_wrap (yoe + 400 * era + 1) = yoe + 400 * era + 1"
    using yoe by (simp_all add: i32_wrap_id)
  have doy_code: "doy = doe - (365 * yoe + yoe div 4 - yoe div 100)"
    using yoe by (simp add: doy_def era_year_start_def leap_count_def div_pos_pos_trivial)
  have doe_code: "day + 719468 - era * 146097 = doe"
    using day by simp
  obtain m' d' where md: "month_day doy = (m', d')"
    by (cases "month_day doy")
  have code: "epoch_to_ymdhms secs =
      ((if m' \<le> 2 then yoe + 400 * era + 1 else yoe + 400 * era), m', d',
       secs mod 86400 div 3600, secs mod 86400 mod 3600 div 60, secs mod 86400 mod 60)"
    unfolding epoch_to_ymdhms_def Let_def day_def [symmetric] era_def [symmetric] doe_code
      yoe_def [symmetric] doy_code [symmetric] md by (simp add: wrap)
  have fields: "y = (if m' \<le> 2 then yoe + 400 * era + 1 else yoe + 400 * era)" "m = m'" "d = d'"
    "h = secs mod 86400 div 3600" "mi = secs mod 86400 mod 3600 div 60" "s = secs mod 86400 mod 60"
    using trans [OF assms(2) [symmetric] code] unfolding prod.inject by blast+
  have "doy < year_length (yoe + 400 * era + 1)"
    using doy leap_era [of "yoe + 1" era] by (simp add: year_length_def ac_simps split: if_splits)
  from month_day_spec [OF doy(1) this md]
  have "date_ok y m d" "days_of_date y m d = day"
    using day leap_count_era [of yoe era] by (simp_all add: fields doy_def era_year_start_def)
  moreover have "86400 * days_of_date y m d + (3600 * h + 60 * mi + s) = secs"
    unfolding \<open>days_of_date y m d = day\<close> fields(4-6) time_of_day(1) [OF secs(2,3)]
    by (rule secs(1) [symmetric])
  moreover note time_of_day(2-7) [OF secs(2,3), folded fields(4-6)]
  ultimately show ?thesis
    by (simp only: add.assoc simp_thms)
qed

theorem epoch_to_ymdhms_calendar_witness:
  "epoch_to_ymdhms 951827696 = (2000, 2, 29, 12, 34, 56)
   \<and> date_ok 2000 2 29 \<and> 86400 * days_of_date 2000 2 29 + 3600 * 12 + 60 * 34 + 56 = 951827696"
proof -
  have "epoch_to_ymdhms 951827696 = (2000, 2, 29, 12, 34, 56)"
    by code_simp
  from this epoch_to_ymdhms_calendar [OF _ this] show ?thesis by simp
qed

end
