(* ===== verification/Lease.thy ===== *)
theory Lease
  imports Jetstream Clock "HOL-Library.List_Lexorder" "HOL-Library.Char_ord"
begin

text \<open>
  Leases (\<^verbatim>\<open>src/src/lease.rs\<close>): fencing tokens from a counter bucket, acquisition of
  leadership and locks, renewal and release. The JSON codec of lease records and the parser of
  the \<^verbatim>\<open>KV-Operation\<close> header are parameters. The mutex that holds a lease's expiry string is a
  named text cell; the name is made of the key and the token, which no two handles of one key
  share. Where the code loops without a bound the model counts rounds: the acquisition loop
  answers \<^verbatim>\<open>None\<close> when the rounds run out, which never happens when there are enough, and the
  renewal task runs for as many ticks as it is given.
\<close>

section \<open>The model\<close>

definition FENCING_KEY_PREFIX :: string where
  "FENCING_KEY_PREFIX = ''fencing''"

definition ACQUIRE_LEADERSHIP_RETRY_MS :: u64 where
  "ACQUIRE_LEADERSHIP_RETRY_MS = 500"

definition LEADERSHIP_PREFIX :: string where
  "LEADERSHIP_PREFIX = ''leadership''"

definition LOCK_PREFIX :: string where
  "LOCK_PREFIX = ''lock''"

record LeaseRecord =
  lr_node_id :: string
  lr_fencing_token :: u64
  lr_acquired_at :: string
  lr_expires_at :: string
  lr_expires_at_unix :: u64

record lease_externals =
  lx_parse_op :: "string \<Rightarrow> Operation option"
  lx_to_vec :: "LeaseRecord \<Rightarrow> bytes"
  lx_from_slice :: "bytes \<Rightarrow> string + LeaseRecord"

record LeaseInner =
  li_leases :: kv_store
  li_key :: string
  li_node_id :: string
  li_fencing_token :: u64
  li_ttl :: duration
  li_expires_at :: string

record NatsJetStreamLeaseHandle =
  lh_inner :: LeaseInner
  lh_renew_before_expiry_percent :: u32

datatype AcquireOutcome = Acquired LeaseRecord u64 | Held | BackendError string

record AcquireParams =
  ap_leases :: kv_store
  ap_fencing :: kv_store
  ap_key :: string
  ap_node_id :: string
  ap_ttl_ms :: u64
  ap_wait :: bool
  ap_renew_before_expiry_percent :: u32

definition json_decode_to_cluster :: "string \<Rightarrow> string \<Rightarrow> ClusterError" where
  "json_decode_to_cluster op err = Internal (''nats '' @ op @ '': KV value decode: '' @ err)"


subsection \<open>Expiry\<close>

definition expiry_for :: "duration \<Rightarrow> (string \<times> u64) prog" where
  "expiry_for ttl =
     await (rfc3339_after ttl) (\<lambda>expires_at.
     await now_unix_secs (\<lambda>now.
       Done (expires_at, sat_add_u64 now (dur_secs ttl))))"

text \<open>The clock is read only for a record that carries an expiry.\<close>

definition lease_is_expired :: "LeaseRecord \<Rightarrow> bool prog" where
  "lease_is_expired rec =
     (if lr_expires_at_unix rec \<noteq> 0
      then await now_unix_secs (\<lambda>now. Done (lr_expires_at_unix rec \<le> now))
      else Done False)"


subsection \<open>Fencing tokens\<close>

definition next_token :: "Record option \<Rightarrow> u64" where
  "next_token entry =
     (case entry of
        Some e \<Rightarrow>
          (let s = (if utf8_valid (payload e) then payload e else ''0'')
           in sat_add_u64 (case parse_u64 s of Some n \<Rightarrow> n | None \<Rightarrow> 0) 1)
      | None \<Rightarrow> 1)"

primrec bump_fencing_token_loop ::
  "nat \<Rightarrow> lease_externals \<Rightarrow> kv_store \<Rightarrow> string \<Rightarrow> u64 res prog" where
  "bump_fencing_token_loop 0 x fencing path =
     Done (Inl (BackendUnavailable ''fencing CAS exhausted retries''))"
| "bump_fencing_token_loop (Suc n) x fencing path =
     await (last_record (lx_parse_op x) fencing path) (\<lambda>r.
       case r of
         Inl e \<Rightarrow> Done (Inl (BackendUnavailable (''fencing read: '' @ e)))
       | Inr entry \<Rightarrow>
           let next_value = next_token entry;
               rvn = (case entry of None \<Rightarrow> 0 | Some e \<Rightarrow> revision e)
           in await (kv_update fencing path (u64_to_string next_value) rvn) (\<lambda>u.
                case u of
                  Inr _ \<Rightarrow> Done (Inr next_value)
                | Inl e \<Rightarrow>
                    if lost_cas e then bump_fencing_token_loop n x fencing path
                    else Done (Inl (BackendUnavailable (''fencing CAS: '' @ ce_text e)))))"

definition bump_fencing_token :: "lease_externals \<Rightarrow> kv_store \<Rightarrow> string \<Rightarrow> u64 res prog" where
  "bump_fencing_token x fencing key =
     bump_fencing_token_loop 16 x fencing (FENCING_KEY_PREFIX @ ''.'' @ key)"


subsection \<open>Acquisition\<close>

definition reclaim_if_expired ::
  "lease_externals \<Rightarrow> kv_store \<Rightarrow> string \<Rightarrow> LeaseRecord \<Rightarrow> bytes \<Rightarrow> AcquireOutcome prog" where
  "reclaim_if_expired x leases key rec val =
     await (last_record (lx_parse_op x) leases key) (\<lambda>r.
       case r of
         Inl e \<Rightarrow> Done (BackendError (''lease reclaim read: '' @ e))
       | Inr None \<Rightarrow> Done Held
       | Inr (Some entry) \<Rightarrow>
           if operation entry \<noteq> Put then
             await (kv_update leases key val (revision entry)) (\<lambda>u.
               Done (case u of Inr rvn \<Rightarrow> Acquired rec rvn | Inl _ \<Rightarrow> Held))
           else
             (case lx_from_slice x (payload entry) of
                Inl _ \<Rightarrow> Done Held
              | Inr incumbent \<Rightarrow>
                  await (lease_is_expired incumbent) (\<lambda>expired.
                    if \<not> expired then Done Held
                    else await (kv_update leases key val (revision entry)) (\<lambda>u.
                           Done (case u of Inr rvn \<Rightarrow> Acquired rec rvn | Inl _ \<Rightarrow> Held)))))"

definition try_create :: "lease_externals \<Rightarrow> kv_store \<Rightarrow> string \<Rightarrow> LeaseRecord \<Rightarrow> AcquireOutcome prog" where
  "try_create x leases key rec =
     (let val = lx_to_vec x rec in
      await (kv_update leases key val 0) (\<lambda>u.
        case u of
          Inr rvn \<Rightarrow> Done (Acquired rec rvn)
        | Inl e \<Rightarrow>
            if lost_cas e then reclaim_if_expired x leases key rec val
            else Done (BackendError (''kv create: '' @ ce_text e))))"

definition lease_cell :: "string \<Rightarrow> u64 \<Rightarrow> string" where
  "lease_cell key token = key @ ''#'' @ u64_to_string token"

definition spawn_lease_handle ::
  "kv_store \<Rightarrow> LeaseRecord \<Rightarrow> string \<Rightarrow> duration \<Rightarrow> u32 \<Rightarrow> NatsJetStreamLeaseHandle prog" where
  "spawn_lease_handle leases rec key ttl percent =
     await (store_text (lease_cell key (lr_fencing_token rec)) (lr_expires_at rec)) (\<lambda>_.
       Done \<lparr>lh_inner = \<lparr>li_leases = leases, li_key = key, li_node_id = lr_node_id rec,
                         li_fencing_token = lr_fencing_token rec, li_ttl = ttl,
                         li_expires_at = lease_cell key (lr_fencing_token rec)\<rparr>,
             lh_renew_before_expiry_percent = percent\<rparr>)"

text \<open>The record of one attempt: a fresh token, then the clocks.\<close>

definition mint_record :: "lease_externals \<Rightarrow> AcquireParams \<Rightarrow> duration \<Rightarrow> LeaseRecord res prog" where
  "mint_record x ps ttl =
     await_ok (bump_fencing_token x (ap_fencing ps) (ap_key ps)) (\<lambda>fencing_token.
     await (expiry_for ttl) (\<lambda>(expires_at, expires_at_unix).
     await now_rfc3339 (\<lambda>acquired_at.
       Done (Inr \<lparr>lr_node_id = ap_node_id ps, lr_fencing_token = fencing_token,
                  lr_acquired_at = acquired_at, lr_expires_at = expires_at,
                  lr_expires_at_unix = expires_at_unix\<rparr>))))"

definition lease_ttl :: "AcquireParams \<Rightarrow> duration" where
  "lease_ttl ps = duration_from_millis (max (ap_ttl_ms ps) 1)"

definition max_wait :: "AcquireParams \<Rightarrow> duration" where
  "max_wait ps = duration_from_millis (max (sat_mul_u64 (ap_ttl_ms ps) 3) 1000)"

primrec acquire_loop ::
  "nat \<Rightarrow> lease_externals \<Rightarrow> AcquireParams \<Rightarrow> nat \<Rightarrow> NatsJetStreamLeaseHandle res option prog" where
  "acquire_loop 0 x ps started = Done None"
| "acquire_loop (Suc n) x ps started =
     await (mint_record x ps (lease_ttl ps)) (\<lambda>m.
       case m of
         Inl e \<Rightarrow> Done (Some (Inl e))
       | Inr rec \<Rightarrow>
           await (try_create x (ap_leases ps) (ap_key ps) rec) (\<lambda>outcome.
             case outcome of
               Acquired r _ \<Rightarrow>
                 await (spawn_lease_handle (ap_leases ps) r (ap_key ps) (lease_ttl ps)
                          (ap_renew_before_expiry_percent ps)) (\<lambda>h. Done (Some (Inr h)))
             | Held \<Rightarrow>
                 if ap_wait ps then
                   await instant_now (\<lambda>t.
                     if t - started > as_nanos (max_wait ps) * 10 then Done (Some (Inl Timeout))
                     else await (sleep (unat ACQUIRE_LEADERSHIP_RETRY_MS * 1000000)) (\<lambda>_.
                            acquire_loop n x ps started))
                 else Done (Some (Inl (BackendUnavailable
                        (''lease key `'' @ ap_key ps @ ''` is held by another node''))))
             | BackendError reason \<Rightarrow> Done (Some (Inl (BackendUnavailable reason)))))"

definition acquire_async ::
  "nat \<Rightarrow> lease_externals \<Rightarrow> AcquireParams \<Rightarrow> NatsJetStreamLeaseHandle res option prog" where
  "acquire_async rounds x ps =
     (if trim (ap_key ps) = [] then Done (Some (Inl (InvalidReference ''lease key must not be empty'')))
      else await instant_now (\<lambda>now. acquire_loop rounds x ps now))"

definition try_acquire_async ::
  "lease_externals \<Rightarrow> AcquireParams \<Rightarrow> NatsJetStreamLeaseHandle option res prog" where
  "try_acquire_async x ps =
     (if trim (ap_key ps) = [] then Done (Inl (InvalidReference ''lease key must not be empty''))
      else
        await_ok (mint_record x ps (lease_ttl ps)) (\<lambda>rec.
        await (try_create x (ap_leases ps) (ap_key ps) rec) (\<lambda>outcome.
          case outcome of
            Acquired r _ \<Rightarrow>
              await (spawn_lease_handle (ap_leases ps) r (ap_key ps) (lease_ttl ps)
                       (ap_renew_before_expiry_percent ps)) (\<lambda>h. Done (Inr (Some h)))
          | Held \<Rightarrow> Done (Inr None)
          | BackendError reason \<Rightarrow> Done (Inl (BackendUnavailable reason)))))"

text \<open>The synchronous variants return the handle with its token and its expiry.\<close>

definition wrap_handle_sync ::
  "NatsJetStreamLeaseHandle \<Rightarrow> (NatsJetStreamLeaseHandle \<times> u64 \<times> string) prog" where
  "wrap_handle_sync h =
     await (load_text (li_expires_at (lh_inner h))) (\<lambda>expires_at.
       Done (h, li_fencing_token (lh_inner h), expires_at))"

definition acquire ::
  "nat \<Rightarrow> lease_externals \<Rightarrow> AcquireParams \<Rightarrow> (NatsJetStreamLeaseHandle \<times> u64 \<times> string) res option prog" where
  "acquire rounds x ps =
     await (acquire_async rounds x ps) (\<lambda>r.
       case r of
         None \<Rightarrow> Done None
       | Some (Inl e) \<Rightarrow> Done (Some (Inl e))
       | Some (Inr h) \<Rightarrow> await (wrap_handle_sync h) (\<lambda>b. Done (Some (Inr b))))"

definition try_acquire ::
  "lease_externals \<Rightarrow> AcquireParams \<Rightarrow> (NatsJetStreamLeaseHandle \<times> u64 \<times> string) option res prog" where
  "try_acquire x ps =
     await_ok (try_acquire_async x ps) (\<lambda>h_opt.
       case h_opt of
         Some h \<Rightarrow> await (wrap_handle_sync h) (\<lambda>b. Done (Inr (Some b)))
       | None \<Rightarrow> Done (Inr None))"


subsection \<open>Roles\<close>

text \<open>A read error of the key stream ends the loop; an unreadable entry is skipped.\<close>

primrec held_roles_loop ::
  "lease_externals \<Rightarrow> kv_store \<Rightarrow> string \<Rightarrow> string list \<Rightarrow> (string + string) list \<Rightarrow> string list prog" where
  "held_roles_loop x leases self roles [] = Done roles"
| "held_roles_loop x leases self roles (k # ks) =
     (case k of
        Inl _ \<Rightarrow> Done roles
      | Inr key \<Rightarrow>
          (case strip_prefix (LEADERSHIP_PREFIX @ ''.'') key of
             None \<Rightarrow> held_roles_loop x leases self roles ks
           | Some role \<Rightarrow>
               await (kv_entry leases key) (\<lambda>e.
                 case e of
                   Inr (Some val) \<Rightarrow>
                     (case lx_from_slice x val of
                        Inr rec \<Rightarrow>
                          held_roles_loop x leases self
                            (if lr_node_id rec = self then roles @ [role] else roles) ks
                      | Inl _ \<Rightarrow> held_roles_loop x leases self roles ks)
                 | _ \<Rightarrow> held_roles_loop x leases self roles ks)))"

definition enumerate_held_roles :: "lease_externals \<Rightarrow> kv_store \<Rightarrow> string \<Rightarrow> string list prog" where
  "enumerate_held_roles x leases self =
     await (kv_keys leases) (\<lambda>r.
       case r of
         Inl _ \<Rightarrow> Done []
       | Inr keys \<Rightarrow> await (held_roles_loop x leases self [] keys) (\<lambda>roles. Done (sort roles)))"


subsection \<open>Renewal and release\<close>

definition owns :: "LeaseInner \<Rightarrow> LeaseRecord \<Rightarrow> bool" where
  "owns inner rec \<longleftrightarrow> lr_node_id rec = li_node_id inner \<and> lr_fencing_token rec = li_fencing_token inner"

definition read_held :: "lease_externals \<Rightarrow> LeaseInner \<Rightarrow> (LeaseRecord \<times> u64) res prog" where
  "read_held x inner =
     await (last_record (lx_parse_op x) (li_leases inner) (li_key inner)) (\<lambda>r.
       case r of
         Inl e \<Rightarrow> Done (Inl (BackendUnavailable (''lease renew read: '' @ e)))
       | Inr None \<Rightarrow> Done (Inl LeaseExpired)
       | Inr (Some entry) \<Rightarrow>
           if operation entry \<noteq> Put then Done (Inl LeaseExpired)
           else
             (case lx_from_slice x (payload entry) of
                Inl e \<Rightarrow> Done (Inl (json_decode_to_cluster ''lease_renew'' e))
              | Inr rec \<Rightarrow>
                  if owns inner rec then Done (Inr (rec, revision entry)) else Done (Inl LeaseExpired)))"

definition renew_inner :: "lease_externals \<Rightarrow> LeaseInner \<Rightarrow> string res prog" where
  "renew_inner x inner =
     await_ok (read_held x inner) (\<lambda>(rec, rvn).
     await (expiry_for (li_ttl inner)) (\<lambda>(expires_at, expires_at_unix).
       let new_record = rec\<lparr>lr_expires_at := expires_at, lr_expires_at_unix := expires_at_unix\<rparr> in
       await (kv_update (li_leases inner) (li_key inner) (lx_to_vec x new_record) rvn) (\<lambda>u.
       await_ok
         (case u of
            Inr _ \<Rightarrow> Done (Inr new_record)
          | Inl e \<Rightarrow>
              if \<not> lost_cas e then Done (Inl (BackendUnavailable (''lease renew update: '' @ ce_text e)))
              else await_ok (read_held x inner) (\<lambda>(held, _). Done (Inr held)))
         (\<lambda>renewed.
            await (store_text (li_expires_at inner) (lr_expires_at renewed)) (\<lambda>_.
              Done (Inr (lr_expires_at renewed)))))))"

definition release_async :: "lease_externals \<Rightarrow> LeaseInner \<Rightarrow> unit res prog" where
  "release_async x inner =
     await (last_record (lx_parse_op x) (li_leases inner) (li_key inner)) (\<lambda>r.
       case r of
         Inl e \<Rightarrow> Done (Inl (BackendUnavailable (''lease release read: '' @ e)))
       | Inr None \<Rightarrow> Done (Inr ())
       | Inr (Some entry) \<Rightarrow>
           (case lx_from_slice x (payload entry) of
              Inl _ \<Rightarrow> Done (Inr ())
            | Inr rec \<Rightarrow>
                if \<not> owns inner rec then Done (Inr ())
                else
                  await (kv_delete_expect (li_leases inner) (li_key inner) (revision entry)) (\<lambda>d.
                    Done (case d of
                            Inr _ \<Rightarrow> Inr ()
                          | Inl e \<Rightarrow>
                              if ce_wrong_kind e then Inr ()
                              else Inl (BackendUnavailable (''lease release delete: '' @ ce_text e))))))"

text \<open>The handle's trait methods.\<close>

definition lease_fencing_token :: "NatsJetStreamLeaseHandle \<Rightarrow> u64" where
  "lease_fencing_token h = li_fencing_token (lh_inner h)"

definition lease_expires_at :: "NatsJetStreamLeaseHandle \<Rightarrow> string prog" where
  "lease_expires_at h = load_text (li_expires_at (lh_inner h))"

definition lease_renew :: "lease_externals \<Rightarrow> NatsJetStreamLeaseHandle \<Rightarrow> unit res prog" where
  "lease_renew x h = await_ok (renew_inner x (lh_inner h)) (\<lambda>_. Done (Inr ()))"

definition lease_release :: "lease_externals \<Rightarrow> NatsJetStreamLeaseHandle \<Rightarrow> unit res prog" where
  "lease_release x h = release_async x (lh_inner h)"

text \<open>
  The pause of the renewal task: the \<^verbatim>\<open>u64\<close> product wraps in a release build, and there is a
  floor of 50 ms.
\<close>

definition renewal_sleep :: "duration \<Rightarrow> u32 \<Rightarrow> duration" where
  "renewal_sleep ttl percent =
     (let pct = min (max percent 1) 99;
          sleep_ratio = (of_nat (100 - unat pct) :: u64);
          proportional = duration_from_millis (of_nat (as_millis ttl) * sleep_ratio div 100);
          least = duration_from_millis 50
      in if as_nanos least < as_nanos proportional then proportional else least)"

primrec renewal_loop :: "nat \<Rightarrow> lease_externals \<Rightarrow> LeaseInner \<Rightarrow> duration \<Rightarrow> bool prog" where
  "renewal_loop 0 x inner sleep_for = Done False"
| "renewal_loop (Suc n) x inner sleep_for =
     await (sleep (as_nanos sleep_for)) (\<lambda>_.
     await (renew_inner x inner) (\<lambda>r.
       if r = Inl LeaseExpired then Done True else renewal_loop n x inner sleep_for))"

definition renewal_task :: "nat \<Rightarrow> lease_externals \<Rightarrow> NatsJetStreamLeaseHandle \<Rightarrow> bool prog" where
  "renewal_task ticks x h =
     renewal_loop ticks x (lh_inner h)
       (renewal_sleep (li_ttl (lh_inner h)) (lh_renew_before_expiry_percent h))"

end
