(* ===== verification/Lease_Safety.thy ===== *)
theory Lease_Safety
  imports Lease
begin

text \<open>
  What leases promise, whatever other clients do between the calls of an operation: an
  acquisition replaces nothing but a lapsed or released lease, renewal and release touch nothing
  but the caller's own record, tokens grow, and waiting ends. The rules for the single calls come
  first, then one rule per operation, then the properties.
\<close>

section \<open>Calls under interference\<close>

definition update_outcome ::
  "'w view \<Rightarrow> 'w \<Rightarrow> 'w \<Rightarrow> string \<Rightarrow> string \<Rightarrow> bytes \<Rightarrow> u64 \<Rightarrow> client_error + u64 \<Rightarrow> bool" where
  "update_outcome V w w' b k p e r \<longleftrightarrow>
     (case r of
        Inr n \<Rightarrow> \<exists>h. put_headers h e \<and> stored V w w' b k h p n
      | Inl err \<Rightarrow> if lost_cas err then quiet V w w' \<and> last_seq (cell V w b k) \<noteq> e
                  else quiet V w w' \<or> (\<exists>h n. put_headers h e \<and> stored V w w' b k h p n))"

definition delete_outcome ::
  "'w view \<Rightarrow> 'w \<Rightarrow> 'w \<Rightarrow> string \<Rightarrow> string \<Rightarrow> u64 \<Rightarrow> client_error + unit \<Rightarrow> bool" where
  "delete_outcome V w w' b k e r \<longleftrightarrow>
     (case r of
        Inr _ \<Rightarrow> \<exists>h n. del_headers h (Some e) \<and> stored V w w' b k h [] n
      | Inl err \<Rightarrow> if lost_cas err then quiet V w w' \<and> last_seq (cell V w b k) \<noteq> e
                  else quiet V w w' \<or> (\<exists>h n. del_headers h (Some e) \<and> stored V w w' b k h [] n))"

text \<open>A compare-and-set that stored found the sequence it expected.\<close>

lemma stored_cas:
  "stored V w w' b k h p n \<Longrightarrow> expects h = Some e \<Longrightarrow> last_seq (cell V w b k) = e"
  by (simp add: stored_def meets_def)

lemma put_headers_expects: "put_headers h e \<Longrightarrow> expects h = Some e"
  by (simp add: put_headers_def)

lemma del_headers_expects: "del_headers h e \<Longrightarrow> expects h = e"
  by (simp add: del_headers_def)

lemma put_headers_Put [simp]: "put_headers h e \<Longrightarrow> leader_record_operation po h = Put"
  by (simp add: put_headers_def)

context jetstream
begin

lemma wpr_kv_update:
  assumes "bucket_ok b"
    and "\<And>w1 w2 r. R\<^sup>*\<^sup>* w w1 \<Longrightarrow> update_outcome V w1 w2 b k p e r \<Longrightarrow> G w1 w2 \<and> Q r w2"
  shows "wpr S R G (kv_update (store_of b) k p e) Q w"
  unfolding wpr_calls
proof (intro allI impI)
  fix w1 assume R: "R\<^sup>*\<^sup>* w w1"
  obtain r w2 where e: "sv_kv_update S w1 (store_of b) k p e = (r, w2)"
    by fastforce
  with assms(2) [OF R, of w2 r] update_law [OF assms(1) e]
  show "case sv_kv_update S w1 (store_of b) k p e of (r, w2) \<Rightarrow> G w1 w2 \<and> Q r w2"
    by (simp add: update_outcome_def)
qed

lemma wpr_kv_delete_expect:
  assumes "bucket_ok b"
    and "\<And>w1 w2 r. R\<^sup>*\<^sup>* w w1 \<Longrightarrow> delete_outcome V w1 w2 b k e r \<Longrightarrow> G w1 w2 \<and> Q r w2"
  shows "wpr S R G (kv_delete_expect (store_of b) k e) Q w"
  unfolding wpr_calls
proof (intro allI impI)
  fix w1 assume R: "R\<^sup>*\<^sup>* w w1"
  obtain r w2 where e: "sv_kv_delete_expect S w1 (store_of b) k e = (r, w2)"
    by fastforce
  with assms(2) [OF R, of w2 r] delete_expect_law [OF assms(1) e]
  show "case sv_kv_delete_expect S w1 (store_of b) k e of (r, w2) \<Rightarrow> G w1 w2 \<and> Q r w2"
    by (simp add: delete_outcome_def)
qed

lemma wpr_store_text:
  assumes "\<And>w1 w2. R\<^sup>*\<^sup>* w w1 \<Longrightarrow> quiet V w1 w2 \<Longrightarrow> G w1 w2 \<and> Q () w2"
  shows "wpr S R G (store_text f t) Q w"
  unfolding wpr_calls using assms store_text_law by blast

lemma wpr_instant_now:
  assumes "\<And>w1 w2 t. R\<^sup>*\<^sup>* w w1 \<Longrightarrow> quiet V w1 w2 \<Longrightarrow> G w1 w2 \<and> Q t w2"
  shows "wpr S R G instant_now Q w"
  unfolding wpr_calls
proof (intro allI impI)
  fix w1 assume R: "R\<^sup>*\<^sup>* w w1"
  obtain r w2 where e: "sv_instant_now S w1 = (r, w2)"
    by fastforce
  with assms [OF R, of w2 r] instant_law [OF e]
  show "case sv_instant_now S w1 of (r, w2) \<Rightarrow> G w1 w2 \<and> Q r w2"
    by simp
qed

text \<open>A sequence that is still the last one names the message that was read.\<close>

lemma cas_same:
  assumes "evolves V w w'" "cell V w b k = Some m" "last_seq (cell V w' b k) = raw_seq m"
  shows "cell V w' b k = Some m"
proof -
  have "raw_seq m \<noteq> 0"
    using seq_bounds [OF assms(2)] by auto
  with assms(3) obtain m' where "cell V w' b k = Some m'" "raw_seq m' = raw_seq m"
    by (cases "cell V w' b k") auto
  with same_seq_same_message [OF assms(1,2)] show ?thesis
    by simp
qed

end


section \<open>Programs that only look at clocks\<close>

text \<open>
  Clock reads and text cells change no bucket: such a program reaches its result with the buckets
  as the interference left them.
\<close>

context jetstream
begin

lemma wpr_rfc3339_after:
  assumes G: "\<And>w1 w2. quiet V w1 w2 \<Longrightarrow> G w1 w2"
    and Q: "\<And>s w'. reach V R w w' \<Longrightarrow> Q s w'"
  shows "wpr S R G (rfc3339_after d) Q w"
  unfolding rfc3339_after_def wpr_await
  by (rule wpr_system_now) (auto intro: G Q reach_step)

lemma wpr_expiry_for:
  assumes G: "\<And>w1 w2. quiet V w1 w2 \<Longrightarrow> G w1 w2"
    and R: "\<And>a c. R a c \<Longrightarrow> evolves V a c"
    and Q: "\<And>s n w'. reach V R w w' \<Longrightarrow> clock V w \<le> n \<Longrightarrow> n \<le> clock V w' \<Longrightarrow>
              Q (s, sat_add_u64 n (dur_secs ttl)) w'"
  shows "wpr S R G (expiry_for ttl) Q w"
  unfolding expiry_for_def wpr_await
proof (rule wpr_rfc3339_after [OF G], assumption)
  fix s w1 assume w1: "reach V R w w1"
  show "wpr S R G now_unix_secs (\<lambda>a. wpr S R G (Done (s, sat_add_u64 a (dur_secs ttl))) Q) w1"
  proof (rule wpr_now)
    fix w2 w3 assume s: "R\<^sup>*\<^sup>* w1 w2" "quiet V w2 w3"
    have "evolves V w w2"
      using reach_trans [OF w1 reach_env [OF s(1)]] R by (rule reach_evolves)
    then have "clock V w \<le> clock V w2" "clock V w2 \<le> clock V w3"
      using s(2) by (auto simp: evolves_def quiet_def)
    with Q [OF reach_trans [OF w1 reach_step [OF s]], of "clock V w2"] G [OF s(2)]
    show "G w2 w3 \<and> wpr S R G (Done (s, sat_add_u64 (clock V w2) (dur_secs ttl))) Q w3"
      by simp
  qed
qed

lemma wpr_lease_is_expired:
  assumes G: "\<And>w1 w2. quiet V w1 w2 \<Longrightarrow> G w1 w2"
    and R: "\<And>a c. R a c \<Longrightarrow> evolves V a c"
    and Q: "\<And>w' ex. reach V R w w' \<Longrightarrow>
              (ex \<Longrightarrow> lr_expires_at_unix rec \<noteq> 0 \<and> lr_expires_at_unix rec \<le> clock V w') \<Longrightarrow> Q ex w'"
  shows "wpr S R G (lease_is_expired rec) Q w"
proof (cases "lr_expires_at_unix rec = 0")
  case True
  then show ?thesis
    using Q [of w False] by (simp add: lease_is_expired_def)
next
  case False
  have "wpr S R G now_unix_secs (\<lambda>a. wpr S R G (Done (lr_expires_at_unix rec \<le> a)) Q) w"
  proof (rule wpr_now)
    fix w1 w2 assume s: "R\<^sup>*\<^sup>* w w1" "quiet V w1 w2"
    then have "clock V w1 \<le> clock V w2"
      by (simp add: quiet_def)
    with Q [OF reach_step [OF s], of "lr_expires_at_unix rec \<le> clock V w1"] G [OF s(2)] False
    show "G w1 w2 \<and> wpr S R G (Done (lr_expires_at_unix rec \<le> clock V w1)) Q w2"
      by auto
  qed
  with False show ?thesis
    by (simp add: lease_is_expired_def wpr_await)
qed

end


section \<open>Fencing tokens\<close>

text \<open>The count a record of the fencing bucket stands for.\<close>

definition token_of :: "raw_message option \<Rightarrow> u64" where
  "token_of c =
     (case c of
        None \<Rightarrow> 0
      | Some m \<Rightarrow>
          (case parse_u64 (if utf8_valid (raw_payload m) then raw_payload m else ''0'') of
             Some n \<Rightarrow> n | None \<Rightarrow> 0))"

definition fence_path :: "string \<Rightarrow> string" where
  "fence_path key = FENCING_KEY_PREFIX @ ''.'' @ key"

text \<open>A step under which the counter of a key does not fall.\<close>

definition fence_grows :: "'w view \<Rightarrow> string \<Rightarrow> string \<Rightarrow> 'w \<Rightarrow> 'w \<Rightarrow> bool" where
  "fence_grows V fb key w w' \<longleftrightarrow> evolves V w w'
     \<and> token_of (cell V w fb (fence_path key)) \<le> token_of (cell V w' fb (fence_path key))"

lemma token_of_string [simp]:
  "token_of (Some \<lparr>raw_seq = n, raw_headers = h, raw_payload = u64_to_string t\<rparr>) = t"
proof -
  have "utf8_valid (u64_to_string t)"
    by (simp add: u64_to_string_def utf8_valid_dec_of_nat)
  then show ?thesis
    by (simp add: token_of_def)
qed

lemma sat_add_mono: "a \<le> b \<Longrightarrow> sat_add_u64 a n \<le> sat_add_u64 b n"
  by (simp add: word_le_nat_alt unat_sat_add)

lemma sat_add_ge: "a \<le> sat_add_u64 a n"
  using unat_u64_le [of a] by (simp add: word_le_nat_alt unat_sat_add)

lemma sat_add_less: "a < sat_add_u64 a 1 \<or> sat_add_u64 a 1 = u64_max"
  using unat_u64_le [of a] by (auto simp: word_less_nat_alt word_unat_eq_iff unat_sat_add)

lemma next_token_of:
  "next_token (map_option (\<lambda>m. \<lparr>revision = raw_seq m, operation = f m, payload = raw_payload m\<rparr>) c)
     = sat_add_u64 (token_of c) 1"
  by (cases c) (auto simp: next_token_def token_of_def sat_add_u64_def split: option.splits)

lemma fence_growsD: "fence_grows V fb key w w' \<Longrightarrow> evolves V w w'"
  by (simp add: fence_grows_def)

lemma fence_grows_refl: "fence_grows V fb key w w"
  by (simp add: fence_grows_def evolves_refl)

lemma fence_grows_trans:
  "fence_grows V fb key w w1 \<Longrightarrow> fence_grows V fb key w1 w2 \<Longrightarrow> fence_grows V fb key w w2"
  by (auto simp: fence_grows_def intro: evolves_trans)

lemma fence_grows_quiet: "quiet V w w' \<Longrightarrow> fence_grows V fb key w w'"
  by (simp add: fence_grows_def quiet_evolves quietD)

lemma fence_grows_reach:
  assumes "reach V R w w'" "\<And>a c. R a c \<Longrightarrow> fence_grows V fb key a c"
  shows "fence_grows V fb key w w'"
  using assms(1) unfolding reach_def
  by (induction rule: rtranclp_induct)
    (auto intro: fence_grows_refl fence_grows_trans fence_grows_quiet assms(2))

lemma fence_grows_bump:
  assumes "stored V w w' fb (fence_path key) h (u64_to_string t) n"
    and "t = sat_add_u64 (token_of (cell V w fb (fence_path key))) 1"
  shows "fence_grows V fb key w w'"
  using storedD(1) [OF assms(1)] stored_evolves [OF assms(1)] assms(2)
  by (simp add: fence_grows_def sat_add_ge)

context jetstream
begin

text \<open>
  The bump: it stores the successor of the count it replaces. The freshness of the token is for
  worlds in which nobody lowers the counter (\<open>P\<close>).
\<close>

lemma wpr_bump_loop:
  assumes fb: "bucket_ok fb" and R: "\<And>a c. R a c \<Longrightarrow> evolves V a c"
    and P: "\<And>a c. P \<Longrightarrow> R a c \<Longrightarrow> fence_grows V fb key a c"
    and G: "\<And>w1 w2. quiet V w1 w2 \<Longrightarrow> G w1 w2"
    and Gs: "\<And>w1 w2 h n t. stored V w1 w2 fb (fence_path key) h (u64_to_string t) n \<Longrightarrow>
               t = sat_add_u64 (token_of (cell V w1 fb (fence_path key))) 1 \<Longrightarrow> G w1 w2"
    and Qe: "\<And>e w'. evolves V w0 w' \<Longrightarrow> Q (Inl e) w'"
    and Qt: "\<And>t w'. evolves V w0 w' \<Longrightarrow>
               (P \<Longrightarrow> sat_add_u64 (token_of (cell V w0 fb (fence_path key))) 1 \<le> t
                   \<and> t \<le> token_of (cell V w' fb (fence_path key))) \<Longrightarrow> Q (Inr t) w'"
    and w: "evolves V w0 w" "P \<Longrightarrow> fence_grows V fb key w0 w"
  shows "wpr S R G (bump_fencing_token_loop n x (store_of fb) (fence_path key)) Q w"
  using w
proof (induction n arbitrary: w)
  case 0
  then show ?case using Qe by simp
next
  case (Suc n)
  let ?k = "fence_path key"
  show ?case
    unfolding bump_fencing_token_loop.simps wpr_await
  proof (rule wpr_last_record [OF fb refl], goal_cases)
    case (1 w1 w2 e)
    have "evolves V w0 w2"
      using evolves_trans [OF Suc.prems(1)] reach_evolves [OF reach_step [OF 1] R] by blast
    with G [OF 1(2)] Qe show ?case by simp
  next
    case (2 w1 w2)
    note r02 = reach_step [OF 2]
    have e1: "evolves V w w1" and q12: "quiet V w1 w2"
      using reach_evolves [OF reach_env [OF 2(1)] R] 2(2) by blast+
    let ?entry = "map_option (\<lambda>m. \<lparr>revision = raw_seq m,
             operation = leader_record_operation (lx_parse_op x) (raw_headers m), payload = raw_payload m\<rparr>)
               (cell V w1 fb ?k)"
    let ?t = "sat_add_u64 (token_of (cell V w1 fb ?k)) 1"
    let ?e = "case ?entry of None \<Rightarrow> 0 | Some e \<Rightarrow> revision e"
    have "wpr S R G (kv_update (store_of fb) ?k (u64_to_string ?t) ?e)
       (\<lambda>u. wpr S R G (case u of Inr _ \<Rightarrow> Done (Inr ?t)
          | Inl e \<Rightarrow> if lost_cas e then bump_fencing_token_loop n x (store_of fb) ?k
                     else Done (Inl (BackendUnavailable (''fencing CAS: '' @ ce_text e)))) Q) w2"
    proof (rule wpr_kv_update [OF fb])
      fix w3 w4 r assume R23: "R\<^sup>*\<^sup>* w2 w3" and out: "update_outcome V w3 w4 fb ?k (u64_to_string ?t) ?e r"
      have r03: "reach V R w w3"
        using reach_trans [OF r02 reach_env [OF R23]] .
      have e13: "evolves V w1 w3"
        using evolves_trans [OF quiet_evolves [OF q12]] reach_evolves [OF reach_env [OF R23] R] by blast
      have e03: "evolves V w0 w3"
        using evolves_trans [OF Suc.prems(1)] reach_evolves [OF r03 R] by blast
      have g03: "fence_grows V fb key w0 w3" if P
        using fence_grows_trans [OF Suc.prems(2) fence_grows_reach [OF r03]] P that by blast
      have st: "G w3 w4 \<and> evolves V w0 w4 \<and> (P \<longrightarrow> sat_add_u64 (token_of (cell V w0 fb ?k)) 1 \<le> ?t
                   \<and> ?t \<le> token_of (cell V w4 fb ?k))"
        if h: "put_headers h ?e" and s: "stored V w3 w4 fb ?k h (u64_to_string ?t) m" for h m
      proof -
        have "last_seq (cell V w3 fb ?k) = ?e"
          by (rule stored_cas [OF s put_headers_expects [OF h]])
        then have same: "cell V w3 fb ?k = cell V w1 fb ?k"
          using cas_same [OF e13] last_seq_zero [of w3 fb ?k] by (cases "cell V w1 fb ?k") auto
        have "G w3 w4"
          using Gs [OF s] same by simp
        moreover have "evolves V w0 w4"
          using evolves_trans [OF e03 stored_evolves [OF s]] .
        moreover have "sat_add_u64 (token_of (cell V w0 fb ?k)) 1 \<le> ?t" if P
          using g03 [OF that] same by (simp add: fence_grows_def sat_add_mono)
        ultimately show ?thesis
          using storedD(1) [OF s] by simp
      qed
      show "G w3 w4 \<and> wpr S R G (case r of Inr _ \<Rightarrow> Done (Inr ?t)
          | Inl e \<Rightarrow> if lost_cas e then bump_fencing_token_loop n x (store_of fb) ?k
                     else Done (Inl (BackendUnavailable (''fencing CAS: '' @ ce_text e)))) Q w4"
      proof (cases r)
        case (Inr m)
        with out st Qt show ?thesis
          by (auto simp: update_outcome_def)
      next
        case (Inl err)
        have q: "evolves V w0 w4 \<and> (P \<longrightarrow> fence_grows V fb key w0 w4)" if "quiet V w3 w4"
          using that evolves_trans [OF e03 quiet_evolves] fence_grows_trans [OF g03 fence_grows_quiet] by simp
        show ?thesis
        proof (cases "lost_cas err")
          case True
          with Inl out q G Suc.IH show ?thesis
            by (auto simp: update_outcome_def)
        next
          case False
          with Inl out q st G Qe show ?thesis
            by (auto simp: update_outcome_def)
        qed
      qed
    qed
    with G [OF q12] show ?case
      by (simp add: next_token_of wpr_await Let_def)
  qed
qed

lemmas wpr_bump_fencing_token = wpr_bump_loop [where n = 16, folded bump_fencing_token_def [unfolded fence_path_def [symmetric]]]

end

section \<open>Acquisition\<close>

text \<open>A record that no live lease stands behind: a marker, or a lease past its expiry.\<close>

definition lapsed :: "lease_externals \<Rightarrow> u64 \<Rightarrow> raw_message \<Rightarrow> bool" where
  "lapsed x now m \<longleftrightarrow> leader_record_operation (lx_parse_op x) (raw_headers m) \<noteq> Put
     \<or> (\<exists>r. lx_from_slice x (raw_payload m) = Inr r \<and> lr_expires_at_unix r \<noteq> 0 \<and> lr_expires_at_unix r \<le> now)"

definition lease_free :: "lease_externals \<Rightarrow> 'w view \<Rightarrow> string \<Rightarrow> string \<Rightarrow> 'w \<Rightarrow> bool" where
  "lease_free x V b k w \<longleftrightarrow> (\<forall>m. cell V w b k = Some m \<longrightarrow> lapsed x (clock V w) m)"

text \<open>A step that leaves a lease alone unless nobody holds it.\<close>

definition spares_lease :: "lease_externals \<Rightarrow> 'w view \<Rightarrow> string \<Rightarrow> string \<Rightarrow> 'w \<Rightarrow> 'w \<Rightarrow> bool" where
  "spares_lease x V b k w w' \<longleftrightarrow> evolves V w w' \<and> (lease_free x V b k w \<or> cell V w' b k = cell V w b k)"

lemma lapsed_later: "lapsed x t m \<Longrightarrow> t \<le> t' \<Longrightarrow> lapsed x t' m"
  by (auto simp: lapsed_def)

lemma spares_lease_quiet: "quiet V w w' \<Longrightarrow> spares_lease x V b k w w'"
  by (simp add: spares_lease_def quiet_evolves quietD)

lemma spares_lease_stored_other:
  "stored V w w' b' k' h p n \<Longrightarrow> b' \<noteq> b \<or> k' \<noteq> k \<Longrightarrow> spares_lease x V b k w w'"
  using storedD(2) [of V w w' b' k' h p n b k] by (auto simp: spares_lease_def stored_evolves)

lemma spares_lease_taken: "stored V w w' b k h p n \<Longrightarrow> lease_free x V b k w \<Longrightarrow> spares_lease x V b k w w'"
  by (simp add: spares_lease_def stored_evolves)

lemma spares_leaseD: "spares_lease x V b k w w' \<Longrightarrow> evolves V w w'"
  by (simp add: spares_lease_def)

context jetstream
begin

lemma wpr_reclaim_if_expired:
  assumes b: "bucket_ok b" and R: "\<And>a c. R a c \<Longrightarrow> evolves V a c"
    and G: "\<And>w1 w2. quiet V w1 w2 \<Longrightarrow> G w1 w2"
    and Gs: "\<And>w1 w2 h n e. stored V w1 w2 b k h val n \<Longrightarrow> put_headers h e \<Longrightarrow> lease_free x V b k w1 \<Longrightarrow> G w1 w2"
    and Qa: "\<And>w1 w2 h n e. evolves V w w1 \<Longrightarrow> stored V w1 w2 b k h val n \<Longrightarrow> put_headers h e \<Longrightarrow>
               lease_free x V b k w1 \<Longrightarrow> Q (Acquired rec n) w2"
    and Qo: "\<And>r w'. evolves V w w' \<Longrightarrow> r = Held \<or> (\<exists>s. r = BackendError s) \<Longrightarrow> Q r w'"
  shows "wpr S R G (reclaim_if_expired x (store_of b) k rec val) Q w"
  unfolding reclaim_if_expired_def wpr_await
proof (rule wpr_last_record [OF b refl], goal_cases)
  case (1 w1 w2 e)
  with G Qo [OF reach_evolves [OF reach_step [OF 1] R]] show ?case by simp
next
  case (2 w1 w2)
  have e02: "evolves V w w2"
    using reach_evolves [OF reach_step [OF 2] R] .
  have take: "wpr S R G (kv_update (store_of b) k val (raw_seq m))
       (\<lambda>u. wpr S R G (Done (case u of Inr rvn \<Rightarrow> Acquired rec rvn | Inl _ \<Rightarrow> Held)) Q) w3"
    if m: "cell V w1 b k = Some m" and l: "lapsed x (clock V w3) m" and w23: "reach V R w2 w3" for m w3
  proof (rule wpr_kv_update [OF b])
    fix w4 w5 r assume R34: "R\<^sup>*\<^sup>* w3 w4" and out: "update_outcome V w4 w5 b k val (raw_seq m) r"
    have e34: "evolves V w3 w4"
      using reach_evolves [OF reach_env [OF R34] R] .
    have e24: "evolves V w2 w4"
      using evolves_trans [OF reach_evolves [OF w23 R] e34] .
    have e14: "evolves V w1 w4" and e04: "evolves V w w4"
      using evolves_trans [OF quiet_evolves [OF 2(2)] e24] evolves_trans [OF e02 e24] .
    have st: "G w4 w5 \<and> Q (Acquired rec n) w5 \<and> Q Held w5"
      if h: "put_headers h (raw_seq m)" and s: "stored V w4 w5 b k h val n" for h n
    proof -
      have "cell V w4 b k = Some m"
        using cas_same [OF e14 m] stored_cas [OF s put_headers_expects [OF h]] by simp
      then have "lease_free x V b k w4"
        using lapsed_later [OF l] e34 by (simp add: lease_free_def evolves_def)
      with Gs [OF s h] Qa [OF e04 s h] Qo [OF evolves_trans [OF e04 stored_evolves [OF s]]] show ?thesis
        by simp
    qed
    have "G w4 w5 \<and> Q Held w5" if "quiet V w4 w5"
      using that G Qo [OF evolves_trans [OF e04 quiet_evolves [OF that]]] by simp
    with st out show "G w4 w5 \<and> wpr S R G (Done (case r of Inr rvn \<Rightarrow> Acquired rec rvn | Inl _ \<Rightarrow> Held)) Q w5"
      by (auto simp: update_outcome_def split: sum.splits if_splits)
  qed
  show ?case
  proof (cases "cell V w1 b k")
    case None
    with G 2 Qo [OF e02] show ?thesis by simp
  next
    case (Some m)
    show ?thesis
    proof (cases "leader_record_operation (lx_parse_op x) (raw_headers m) = Put")
      case False
      then have "lapsed x (clock V w2) m"
        by (simp add: lapsed_def)
      from take [OF Some this reach_refl] Some False G 2 show ?thesis
        by (simp add: wpr_await)
    next
      case True
      show ?thesis
      proof (cases "lx_from_slice x (raw_payload m)")
        case (Inl e)
        with Some True G 2 Qo [OF e02] show ?thesis by simp
      next
        case (Inr incumbent)
        have "wpr S R G (lease_is_expired incumbent) (\<lambda>ex. wpr S R G (if \<not> ex then Done Held
            else await (kv_update (store_of b) k val (raw_seq m)) (\<lambda>u.
               Done (case u of Inr rvn \<Rightarrow> Acquired rec rvn | Inl _ \<Rightarrow> Held))) Q) w2"
        proof (rule wpr_lease_is_expired [OF G R])
          fix w3 ex assume w23: "reach V R w2 w3"
            and ex: "ex \<Longrightarrow> lr_expires_at_unix incumbent \<noteq> 0 \<and> lr_expires_at_unix incumbent \<le> clock V w3"
          show "wpr S R G (if \<not> ex then Done Held else await (kv_update (store_of b) k val (raw_seq m)) (\<lambda>u.
               Done (case u of Inr rvn \<Rightarrow> Acquired rec rvn | Inl _ \<Rightarrow> Held))) Q w3"
          proof (cases ex)
            case True
            with ex Inr have "lapsed x (clock V w3) m"
              by (auto simp: lapsed_def)
            from take [OF Some this w23] True show ?thesis
              by (simp add: wpr_await)
          next
            case False
            with Qo [OF evolves_trans [OF e02 reach_evolves [OF w23 R]]] show ?thesis
              by simp
          qed
        qed
        with Some True Inr G 2 show ?thesis
          by (simp add: wpr_await cong: if_cong)
      qed
    qed
  qed
qed

lemma wpr_try_create:
  assumes b: "bucket_ok b" and R: "\<And>a c. R a c \<Longrightarrow> evolves V a c"
    and G: "\<And>w1 w2. quiet V w1 w2 \<Longrightarrow> G w1 w2"
    and Gs: "\<And>w1 w2 h n e. stored V w1 w2 b k h (lx_to_vec x rec) n \<Longrightarrow> put_headers h e \<Longrightarrow>
               lease_free x V b k w1 \<Longrightarrow> G w1 w2"
    and Qa: "\<And>w1 w2 h n e. evolves V w w1 \<Longrightarrow> stored V w1 w2 b k h (lx_to_vec x rec) n \<Longrightarrow> put_headers h e \<Longrightarrow>
               lease_free x V b k w1 \<Longrightarrow> Q (Acquired rec n) w2"
    and Qo: "\<And>r w'. evolves V w w' \<Longrightarrow> r = Held \<or> (\<exists>s. r = BackendError s) \<Longrightarrow> Q r w'"
  shows "wpr S R G (try_create x (store_of b) k rec) Q w"
  unfolding try_create_def Let_def wpr_await
proof (rule wpr_kv_update [OF b])
  fix w1 w2 r assume R1: "R\<^sup>*\<^sup>* w w1" and out: "update_outcome V w1 w2 b k (lx_to_vec x rec) 0 r"
  have e01: "evolves V w w1"
    using reach_evolves [OF reach_env [OF R1] R] .
  have st: "G w1 w2 \<and> Q (Acquired rec n) w2 \<and> Q (BackendError s) w2"
    if h: "put_headers h 0" and st: "stored V w1 w2 b k h (lx_to_vec x rec) n" for h n s
  proof -
    have "cell V w1 b k = None"
      using stored_cas [OF st put_headers_expects [OF h]] last_seq_zero by simp
    then have "lease_free x V b k w1"
      by (simp add: lease_free_def)
    with Gs [OF st h] Qa [OF e01 st h] Qo [OF evolves_trans [OF e01 stored_evolves [OF st]]] show ?thesis
      by simp
  qed
  have q: "G w1 w2 \<and> evolves V w w2" if "quiet V w1 w2"
    using that G evolves_trans [OF e01 quiet_evolves [OF that]] by simp
  have again: "wpr S R G (reclaim_if_expired x (store_of b) k rec (lx_to_vec x rec)) Q w2" if "quiet V w1 w2"
  proof (rule wpr_reclaim_if_expired [OF b R G Gs])
    fix w3 w4 h n e
    assume "evolves V w2 w3" "stored V w3 w4 b k h (lx_to_vec x rec) n" "put_headers h e" "lease_free x V b k w3"
    then show "Q (Acquired rec n) w4"
      using Qa [of w3 w4 h n e] evolves_trans [of V w w2 w3] q [OF that] by blast
  next
    fix r w' assume "evolves V w2 w'" "r = Held \<or> (\<exists>s. r = BackendError s)"
    then show "Q r w'"
      using Qo [of w' r] evolves_trans [of V w w2 w'] q [OF that] by blast
  qed
  show "G w1 w2 \<and> wpr S R G (case r of Inr rvn \<Rightarrow> Done (Acquired rec rvn)
        | Inl e \<Rightarrow> if lost_cas e then reclaim_if_expired x (store_of b) k rec (lx_to_vec x rec)
                   else Done (BackendError (''kv create: '' @ ce_text e))) Q w2"
    using out st again q Qo by (auto simp: update_outcome_def split: sum.splits if_splits)
qed

lemma wpr_mint_record:
  assumes fb: "bucket_ok fb" "ap_fencing ps = store_of fb" and R: "\<And>a c. R a c \<Longrightarrow> evolves V a c"
    and P: "\<And>a c. P \<Longrightarrow> R a c \<Longrightarrow> fence_grows V fb (ap_key ps) a c"
    and G: "\<And>w1 w2. quiet V w1 w2 \<Longrightarrow> G w1 w2"
    and Gs: "\<And>w1 w2 h n t. stored V w1 w2 fb (fence_path (ap_key ps)) h (u64_to_string t) n \<Longrightarrow>
               t = sat_add_u64 (token_of (cell V w1 fb (fence_path (ap_key ps)))) 1 \<Longrightarrow> G w1 w2"
    and Qe: "\<And>e w'. evolves V w w' \<Longrightarrow> Q (Inl e) w'"
    and Qr: "\<And>rec n w'. evolves V w w' \<Longrightarrow> lr_node_id rec = ap_node_id ps \<Longrightarrow>
               clock V w \<le> n \<Longrightarrow> n \<le> clock V w' \<Longrightarrow> lr_expires_at_unix rec = sat_add_u64 n (dur_secs ttl) \<Longrightarrow>
               (P \<Longrightarrow> sat_add_u64 (token_of (cell V w fb (fence_path (ap_key ps)))) 1 \<le> lr_fencing_token rec
                   \<and> lr_fencing_token rec \<le> token_of (cell V w' fb (fence_path (ap_key ps)))) \<Longrightarrow>
               Q (Inr rec) w'"
  shows "wpr S R G (mint_record x ps ttl) Q w"
  unfolding mint_record_def wpr_await_ok fb(2)
proof (rule wpr_bump_fencing_token [OF fb(1) R P G Gs, where ?w0.0 = w], simp_all add: evolves_refl fence_grows_refl Qe)
  fix t w1
  assume e1: "evolves V w w1"
    and t: "P \<Longrightarrow> sat_add_u64 (token_of (cell V w fb (fence_path (ap_key ps)))) 1 \<le> t
                   \<and> t \<le> token_of (cell V w1 fb (fence_path (ap_key ps)))"
  show "wpr S R G (await (expiry_for ttl) (\<lambda>(expires_at, expires_at_unix).
     await now_rfc3339 (\<lambda>acquired_at.
       Done (Inr \<lparr>lr_node_id = ap_node_id ps, lr_fencing_token = t,
                  lr_acquired_at = acquired_at, lr_expires_at = expires_at,
                  lr_expires_at_unix = expires_at_unix\<rparr>)))) Q w1"
    unfolding wpr_await
  proof (rule wpr_expiry_for [OF G R])
    fix s n w2 assume r2: "reach V R w1 w2" and n: "clock V w1 \<le> n" "n \<le> clock V w2"
    have e2: "evolves V w w2"
      using evolves_trans [OF e1 reach_evolves [OF r2 R]] .
    have "wpr S R G now_rfc3339 (\<lambda>acquired_at.
       Q (Inr \<lparr>lr_node_id = ap_node_id ps, lr_fencing_token = t,
                  lr_acquired_at = acquired_at, lr_expires_at = s,
                  lr_expires_at_unix = sat_add_u64 n (dur_secs ttl)\<rparr>)) w2"
      unfolding now_rfc3339_def
    proof (rule wpr_rfc3339_after [OF G])
      fix acquired_at w3 assume r3: "reach V R w2 w3"
      have e3: "evolves V w w3" and "clock V w2 \<le> clock V w3" "clock V w \<le> clock V w1"
        using evolves_trans [OF e2] reach_evolves [OF r3 R] e1 by (auto simp: evolves_def)
      moreover have "token_of (cell V w1 fb (fence_path (ap_key ps)))
          \<le> token_of (cell V w3 fb (fence_path (ap_key ps)))" if P
        using fence_grows_reach [OF reach_trans [OF r2 r3] P [OF that]] by (simp add: fence_grows_def)
      ultimately show "Q (Inr \<lparr>lr_node_id = ap_node_id ps, lr_fencing_token = t,
                  lr_acquired_at = acquired_at, lr_expires_at = s,
                  lr_expires_at_unix = sat_add_u64 n (dur_secs ttl)\<rparr>) w3"
        using n t by (intro Qr [where n = n]) force+
    qed
    then show "wpr S R G (case (s, sat_add_u64 n (dur_secs ttl)) of (expires_at, expires_at_unix) \<Rightarrow>
       await now_rfc3339 (\<lambda>acquired_at.
       Done (Inr \<lparr>lr_node_id = ap_node_id ps, lr_fencing_token = t,
                  lr_acquired_at = acquired_at, lr_expires_at = expires_at,
                  lr_expires_at_unix = expires_at_unix\<rparr>))) Q w2"
      by (simp add: wpr_await)
  qed
qed

end

subsection \<open>What an acquisition gives\<close>

definition lease_ext_ok :: "lease_externals \<Rightarrow> bool" where
  "lease_ext_ok x \<longleftrightarrow> parse_op_ok (lx_parse_op x) \<and> (\<forall>r. lx_from_slice x (lx_to_vec x r) = Inr r)"

definition holds_lease :: "lease_externals \<Rightarrow> 'w view \<Rightarrow> string \<Rightarrow> string \<Rightarrow> LeaseRecord \<Rightarrow> 'w \<Rightarrow> bool" where
  "holds_lease x V b k rec w \<longleftrightarrow>
     (\<exists>m. cell V w b k = Some m \<and> leader_record_operation (lx_parse_op x) (raw_headers m) = Put
        \<and> lx_from_slice x (raw_payload m) = Inr rec)"

text \<open>The lease of a node stands at least until a time: the record is there, or that time is past.\<close>

definition lease_kept ::
  "lease_externals \<Rightarrow> 'w view \<Rightarrow> string \<Rightarrow> string \<Rightarrow> string \<Rightarrow> u64 \<Rightarrow> 'w \<Rightarrow> bool" where
  "lease_kept x V b k node until w \<longleftrightarrow>
     (\<exists>rec. lr_node_id rec = node \<and> until \<le> lr_expires_at_unix rec
        \<and> (holds_lease x V b k rec w \<or> lr_expires_at_unix rec \<le> clock V w))"

definition lease_params_ok :: "AcquireParams \<Rightarrow> string \<Rightarrow> string \<Rightarrow> bool" where
  "lease_params_ok ps b fb \<longleftrightarrow> bucket_ok b \<and> bucket_ok fb \<and> b \<noteq> fb
     \<and> ap_leases ps = store_of b \<and> ap_fencing ps = store_of fb"

text \<open>
  What anybody who keeps to the lease protocol does to a lease: leave it, take it when it is free,
  or, as its holder, renew it at least until \<open>until\<close>.
\<close>

definition lease_moves ::
  "lease_externals \<Rightarrow> 'w view \<Rightarrow> string \<Rightarrow> string \<Rightarrow> u64 \<Rightarrow> 'w \<Rightarrow> 'w \<Rightarrow> bool" where
  "lease_moves x V b k until w w' \<longleftrightarrow> evolves V w w'
     \<and> (lease_free x V b k w \<or> cell V w' b k = cell V w b k
        \<or> (\<exists>r r'. holds_lease x V b k r w \<and> holds_lease x V b k r' w'
             \<and> lr_node_id r' = lr_node_id r \<and> lr_fencing_token r' = lr_fencing_token r
             \<and> until \<le> lr_expires_at_unix r'))"

lemma lease_movesD: "lease_moves x V b k until w w' \<Longrightarrow> evolves V w w'"
  by (simp add: lease_moves_def)

lemma lease_moves_spares: "spares_lease x V b k w w' \<Longrightarrow> lease_moves x V b k until w w'"
  by (auto simp: lease_moves_def spares_lease_def)

lemma holds_lease_same: "holds_lease x V b k r w \<Longrightarrow> holds_lease x V b k r' w \<Longrightarrow> r' = r"
  by (auto simp: holds_lease_def)

lemma lease_kept_moves:
  assumes "lease_moves x V b k until w w'" "lease_kept x V b k node until w"
  shows "lease_kept x V b k node until w'"
proof -
  from assms(2) obtain rec where rec: "lr_node_id rec = node" "until \<le> lr_expires_at_unix rec"
    and or: "holds_lease x V b k rec w \<or> lr_expires_at_unix rec \<le> clock V w"
    by (auto simp: lease_kept_def)
  have clk: "clock V w \<le> clock V w'"
    using lease_movesD [OF assms(1)] by (simp add: evolves_def)
  show ?thesis
  proof (cases "lr_expires_at_unix rec \<le> clock V w")
    case True
    with clk have "lr_expires_at_unix rec \<le> clock V w'"
      by (rule order.trans [rotated])
    with rec show ?thesis
      by (auto simp: lease_kept_def)
  next
    case False
    with or have h: "holds_lease x V b k rec w"
      by blast
    with False have "\<not> lease_free x V b k w"
      by (auto simp: holds_lease_def lease_free_def lapsed_def)
    with assms(1) consider "cell V w' b k = cell V w b k"
      | r r' where "holds_lease x V b k r w" "holds_lease x V b k r' w'" "lr_node_id r' = lr_node_id r"
          "until \<le> lr_expires_at_unix r'"
      by (auto simp: lease_moves_def)
    then show ?thesis
    proof cases
      case 1
      with h rec show ?thesis
        by (auto simp: lease_kept_def holds_lease_def)
    next
      case 2
      with holds_lease_same [OF h] rec show ?thesis
        by (auto simp: lease_kept_def)
    qed
  qed
qed

text \<open>
  What an operation that won a lease can say afterwards: a fact \<open>K\<close> that the new record gives
  and that neither the interference nor quiet calls take away.
\<close>

definition lasting ::
  "lease_externals \<Rightarrow> 'w view \<Rightarrow> ('w \<Rightarrow> 'w \<Rightarrow> bool) \<Rightarrow> string \<Rightarrow> string \<Rightarrow> string \<Rightarrow> u64 \<Rightarrow> ('w \<Rightarrow> bool) \<Rightarrow> bool" where
  "lasting x V R b k node until K \<longleftrightarrow>
     (\<forall>a c. R a c \<longrightarrow> evolves V a c)
     \<and> (\<forall>rec w. lr_node_id rec = node \<longrightarrow> until \<le> lr_expires_at_unix rec \<longrightarrow> holds_lease x V b k rec w \<longrightarrow> K w)
     \<and> (\<forall>a c. R a c \<or> quiet V a c \<longrightarrow> K a \<longrightarrow> K c)"

lemma lasting_reach: "lasting x V R b k node until K \<Longrightarrow> reach V R w w' \<Longrightarrow> K w \<Longrightarrow> K w'"
  unfolding reach_def by (rotate_tac 1, induction rule: rtranclp_induct) (auto simp: lasting_def)

lemma lasting_evolves: "lasting x V R b k node until K \<Longrightarrow> R a c \<Longrightarrow> evolves V a c"
  by (auto simp: lasting_def)

lemma lasting_kept:
  assumes "\<And>a c. R a c \<Longrightarrow> lease_moves x V b k until a c"
  shows "lasting x V R b k node until (lease_kept x V b k node until)"
  unfolding lasting_def
proof (intro conjI allI impI)
  fix a c assume "R a c"
  then show "evolves V a c"
    by (rule lease_movesD [OF assms])
next
  fix rec w
  assume "lr_node_id rec = node" "until \<le> lr_expires_at_unix rec" "holds_lease x V b k rec w"
  then show "lease_kept x V b k node until w"
    unfolding lease_kept_def by blast
next
  fix a c assume rq: "R a c \<or> quiet V a c" and k: "lease_kept x V b k node until a"
  have "lease_moves x V b k until a c"
    using rq assms lease_moves_spares [OF spares_lease_quiet, of V a c] by auto
  then show "lease_kept x V b k node until c"
    using k by (rule lease_kept_moves)
qed

lemma lasting_True: "(\<And>a c. R a c \<Longrightarrow> evolves V a c) \<Longrightarrow> lasting x V R b k node until (\<lambda>_. True)"
  by (simp add: lasting_def)

lemma holds_lease_stored:
  "lease_ext_ok x \<Longrightarrow> stored V w w' b k h (lx_to_vec x rec) n \<Longrightarrow> put_headers h e \<Longrightarrow> holds_lease x V b k rec w'"
  using storedD(1) [of V w w' b k h "lx_to_vec x rec" n] by (simp add: holds_lease_def lease_ext_ok_def)

context jetstream
begin

text \<open>One attempt: mint a token, try to create the record, start the handle.\<close>

lemma wpr_attempt:
  assumes x: "lease_ext_ok x" and ps: "lease_params_ok ps b fb"
    and K: "lasting x V R b (ap_key ps) (ap_node_id ps) until K"
    and until: "until \<le> sat_add_u64 (clock V w) (dur_secs (lease_ttl ps))"
    and Qe: "\<And>e w'. evolves V w w' \<Longrightarrow> Qe e w'" and Qd: "\<And>w'. evolves V w w' \<Longrightarrow> Qd w'"
    and Qb: "\<And>s w'. evolves V w w' \<Longrightarrow> Qb s w'"
    and Qh: "\<And>h w'. K w' \<Longrightarrow> Qh h w'"
  shows "wpr S R (spares_lease x V b (ap_key ps)) (mint_record x ps (lease_ttl ps)) (\<lambda>m w1. case m of
      Inl e \<Rightarrow> Qe e w1
    | Inr rec \<Rightarrow> wpr S R (spares_lease x V b (ap_key ps)) (try_create x (ap_leases ps) (ap_key ps) rec) (\<lambda>oc w2.
        case oc of
          Acquired r n \<Rightarrow> wpr S R (spares_lease x V b (ap_key ps))
            (spawn_lease_handle (ap_leases ps) r (ap_key ps) (lease_ttl ps) pct) Qh w2
        | Held \<Rightarrow> Qd w2
        | BackendError s \<Rightarrow> Qb s w2) w1) w"
proof -
  let ?k = "ap_key ps"
  let ?G = "spares_lease x V b ?k"
  have b: "bucket_ok b" "bucket_ok fb" "fb \<noteq> b" "ap_leases ps = store_of b" "ap_fencing ps = store_of fb"
    using ps by (auto simp: lease_params_ok_def)
  have Re: "R a c \<Longrightarrow> evolves V a c" for a c
    using lasting_evolves [OF K] .
  show ?thesis
  proof (rule wpr_mint_record [where P = False, OF b(2) b(5) Re _ spares_lease_quiet], goal_cases)
    case (4 w1 w2 h n t)
    with spares_lease_stored_other [OF this(1), of b "ap_key ps"] b(3) show ?case by simp
  next
    case (5 e w')
    then show ?case using Qe by simp
  next
    case (6 rec n w1)
    have "until \<le> lr_expires_at_unix rec"
      using order.trans [OF until sat_add_mono [OF 6(3)]] 6(5) by simp
    then have kept: "K w2" if "holds_lease x V b ?k rec w2" for w2
      using that 6(2) K by (auto simp: lasting_def)
    have "wpr S R ?G (try_create x (store_of b) ?k rec) (\<lambda>oc w2.
        case oc of
          Acquired r n \<Rightarrow> wpr S R ?G (spawn_lease_handle (store_of b) r ?k (lease_ttl ps) pct) Qh w2
        | Held \<Rightarrow> Qd w2
        | BackendError s \<Rightarrow> Qb s w2) w1"
    proof (rule wpr_try_create [OF b(1) Re spares_lease_quiet spares_lease_taken], assumption+)
      fix w2 w3 h n e
      assume st: "stored V w2 w3 b ?k h (lx_to_vec x rec) n" "put_headers h e"
      note k3 = kept [OF holds_lease_stored [OF x st]]
      show "case Acquired rec n of
          Acquired r n \<Rightarrow> wpr S R ?G (spawn_lease_handle (store_of b) r ?k (lease_ttl ps) pct) Qh w3
        | Held \<Rightarrow> Qd w3
        | BackendError s \<Rightarrow> Qb s w3"
        unfolding spawn_lease_handle_def wpr_await AcquireOutcome.case
        by (rule wpr_store_text)
          (simp add: Qh [OF lasting_reach [OF K reach_step k3]] spares_lease_quiet)
    next
      fix r w' assume "evolves V w1 w'" "r = Held \<or> (\<exists>s. r = BackendError s)"
      with Qd Qb evolves_trans [OF 6(1)] show "case r of
          Acquired r n \<Rightarrow> wpr S R ?G (spawn_lease_handle (store_of b) r ?k (lease_ttl ps) pct) Qh w'
        | Held \<Rightarrow> Qd w'
        | BackendError s \<Rightarrow> Qb s w'"
        by auto
    qed
    then show ?case
      unfolding sum.case b(4) .
  qed auto
qed

lemma wpr_try_acquire:
  assumes "lease_ext_ok x" "lease_params_ok ps b fb"
    and "lasting x V R b (ap_key ps) (ap_node_id ps) until K"
    and "until \<le> sat_add_u64 (clock V w) (dur_secs (lease_ttl ps))"
  shows "wpr S R (spares_lease x V b (ap_key ps)) (try_acquire_async x ps)
     (\<lambda>r w'. \<forall>h. r = Inr (Some h) \<longrightarrow> K w') w"
proof (cases "trim (ap_key ps) = []")
  case False
  show ?thesis
    unfolding try_acquire_async_def if_not_P [OF False] wpr_await_ok
    by (rule wpr_mono [OF wpr_attempt [OF assms(1-4), where Qe = "\<lambda>_ _. True" and Qd = "\<lambda>_. True"
            and Qb = "\<lambda>_ _. True" and Qh = "\<lambda>h w'. K w'"]])
      (auto simp: wpr_await split: sum.splits AcquireOutcome.splits elim!: wpr_mono)
qed (simp add: try_acquire_async_def)

lemma wpr_acquire_loop:
  assumes "lease_ext_ok x" "lease_params_ok ps b fb"
    and K: "lasting x V R b (ap_key ps) (ap_node_id ps) until K"
    and until: "until \<le> sat_add_u64 (clock V w0) (dur_secs (lease_ttl ps))"
    and "evolves V w0 w"
  shows "wpr S R (spares_lease x V b (ap_key ps)) (acquire_loop n x ps t0)
     (\<lambda>r w'. \<forall>h. r = Some (Inr h) \<longrightarrow> K w') w"
  using assms(5)
proof (induction n arbitrary: w)
  case (Suc n)
  let ?G = "spares_lease x V b (ap_key ps)"
  let ?Q = "\<lambda>r w'. \<forall>h. r = Some (Inr h) \<longrightarrow> K w'"
  have Re: "R a c \<Longrightarrow> evolves V a c" for a c
    using lasting_evolves [OF K] .
  have again: "wpr S R ?G (await instant_now (\<lambda>t.
       if t - t0 > as_nanos (max_wait ps) * 10 then Done (Some (Inl Timeout))
       else await (sleep (unat ACQUIRE_LEADERSHIP_RETRY_MS * 1000000)) (\<lambda>_. acquire_loop n x ps t0))) ?Q w1"
    if "evolves V w0 w1" for w1
    unfolding wpr_await
  proof (rule wpr_instant_now, intro conjI)
    fix w2 w3 t assume s: "R\<^sup>*\<^sup>* w1 w2" "quiet V w2 w3"
    show "?G w2 w3"
      by (rule spares_lease_quiet [OF s(2)])
    have e3: "evolves V w0 w3"
      using evolves_trans [OF that] reach_evolves [OF reach_step [OF s] Re] .
    have "wpr S R ?G (sleep (unat ACQUIRE_LEADERSHIP_RETRY_MS * 1000000)) (\<lambda>_. wpr S R ?G (acquire_loop n x ps t0) ?Q) w3"
    proof (rule wpr_sleep, intro conjI)
      fix w4 w5 assume s: "R\<^sup>*\<^sup>* w3 w4" "quiet V w4 w5"
      show "?G w4 w5"
        by (rule spares_lease_quiet [OF s(2)])
      show "wpr S R ?G (acquire_loop n x ps t0) ?Q w5"
        by (rule Suc.IH) (rule evolves_trans [OF e3 reach_evolves [OF reach_step [OF s] Re]])
    qed
    then show "wpr S R ?G (if t - t0 > as_nanos (max_wait ps) * 10 then Done (Some (Inl Timeout))
       else await (sleep (unat ACQUIRE_LEADERSHIP_RETRY_MS * 1000000)) (\<lambda>_. acquire_loop n x ps t0)) ?Q w3"
      by (simp add: wpr_await)
  qed
  have until': "until \<le> sat_add_u64 (clock V w) (dur_secs (lease_ttl ps))"
    using order.trans [OF until sat_add_mono] Suc.prems by (simp add: evolves_def)
  show ?case
    unfolding acquire_loop.simps wpr_await
  proof (rule wpr_mono [OF wpr_attempt [OF assms(1,2) K until', where pct = "ap_renew_before_expiry_percent ps"
            and Qe = "\<lambda>_ _. True" and Qd = "evolves V w" and Qb = "\<lambda>_ _. True"
            and Qh = "\<lambda>h w'. K w'"]], goal_cases)
    case (5 m w1)
    show ?case
    proof (cases m)
      case (Inr rec)
      from 5 [unfolded Inr sum.case] show ?thesis
        unfolding Inr sum.case wpr_await
      proof (rule wpr_mono, goal_cases)
        case (1 oc w2)
        then show ?case
        proof (cases oc)
          case (Acquired r k)
          from 1 [unfolded Acquired AcquireOutcome.case] show ?thesis
            unfolding Acquired AcquireOutcome.case wpr_await
            by (rule wpr_mono) simp
        next
          case Held
          with 1 again [OF evolves_trans [OF Suc.prems]] show ?thesis
            by simp
        qed simp
      qed
    qed simp
  qed auto
qed simp

end

section \<open>Renewal and release\<close>

definition inner_ok :: "LeaseInner \<Rightarrow> string \<Rightarrow> bool" where
  "inner_ok inner b \<longleftrightarrow> bucket_ok b \<and> li_leases inner = store_of b"

context jetstream
begin

lemma wpr_read_held:
  assumes i: "inner_ok inner b" and R: "\<And>a c. R a c \<Longrightarrow> evolves V a c"
    and G: "\<And>w1 w2. quiet V w1 w2 \<Longrightarrow> G w1 w2"
    and Qe: "\<And>e w'. Q (Inl e) w'"
    and Qr: "\<And>w1 w' m rec. evolves V w w1 \<Longrightarrow> quiet V w1 w' \<Longrightarrow> cell V w1 b (li_key inner) = Some m \<Longrightarrow>
               leader_record_operation (lx_parse_op x) (raw_headers m) = Put \<Longrightarrow>
               lx_from_slice x (raw_payload m) = Inr rec \<Longrightarrow> owns inner rec \<Longrightarrow> Q (Inr (rec, raw_seq m)) w'"
  shows "wpr S R G (read_held x inner) Q w"
proof -
  have b: "bucket_ok b" "li_leases inner = store_of b"
    using i by (simp_all add: inner_ok_def)
  show ?thesis
    unfolding read_held_def wpr_await
  proof (rule wpr_last_record [OF b], goal_cases)
    case (1 w1 w2 e)
    then show ?case using G Qe by simp
  next
    case (2 w1 w2)
    note e1 = reach_evolves [OF reach_env [OF 2(1)] R]
    show ?case
      using G [OF 2(2)] Qe Qr [OF e1 2(2)]
      by (cases "cell V w1 b (li_key inner)") (auto split: sum.splits)
  qed
qed

lemma wpr_renew_inner:
  assumes i: "inner_ok inner b" and R: "\<And>a c. R a c \<Longrightarrow> evolves V a c"
    and G: "\<And>w1 w2. quiet V w1 w2 \<Longrightarrow> G w1 w2"
    and Gs: "\<And>w1 w2 h n e rec rec' t. stored V w1 w2 b (li_key inner) h (lx_to_vec x rec') n \<Longrightarrow> put_headers h e \<Longrightarrow>
               holds_lease x V b (li_key inner) rec w1 \<Longrightarrow> owns inner rec \<Longrightarrow>
               lr_node_id rec' = lr_node_id rec \<Longrightarrow> lr_fencing_token rec' = lr_fencing_token rec \<Longrightarrow>
               clock V w \<le> t \<Longrightarrow> lr_expires_at_unix rec' = sat_add_u64 t (dur_secs (li_ttl inner)) \<Longrightarrow> G w1 w2"
  shows "wpr S R G (renew_inner x inner) (\<lambda>_ _. True) w"
  unfolding renew_inner_def wpr_await_ok
proof (rule wpr_read_held [OF i R G], goal_cases)
  case (4 w1 w2 m rec)
  let ?k = "li_key inner"
  have b: "bucket_ok b" "li_leases inner = store_of b"
    using i by (simp_all add: inner_ok_def)
  note e1 = 4(1) and q = 4(2) and m = 4(3-5) and own = 4(6)
  have last: "wpr S R G (await_ok (case u of
            Inr _ \<Rightarrow> Done (Inr new_record)
          | Inl e \<Rightarrow>
              if \<not> lost_cas e then Done (Inl (BackendUnavailable (''lease renew update: '' @ ce_text e)))
              else await_ok (read_held x inner) (\<lambda>(held, _). Done (Inr held)))
         (\<lambda>renewed.
            await (store_text (li_expires_at inner) (lr_expires_at renewed)) (\<lambda>_.
              Done (Inr (lr_expires_at renewed))))) (\<lambda>_ _. True) w'" for u new_record w'
  proof -
    have written: "wpr S R G (await (store_text f s) (\<lambda>_. Done (Inr s))) (\<lambda>_ _. True) w'" for f s w'
      unfolding wpr_await by (rule wpr_store_text) (simp add: G)
    have held: "wpr S R G (read_held x inner) (\<lambda>r. case r of Inl e \<Rightarrow> \<lambda>_. True
        | Inr a \<Rightarrow> wpr S R G (case a of (held, _) \<Rightarrow> Done (Inr held)) (\<lambda>r. case r of Inl e \<Rightarrow> \<lambda>_. True
        | Inr a \<Rightarrow> wpr S R G (await (store_text (li_expires_at inner) (lr_expires_at a)) (\<lambda>_.
              Done (Inr (lr_expires_at a)))) (\<lambda>_ _. True))) w'" for w'
      by (rule wpr_read_held [OF i R G]) (auto simp: written)
    show ?thesis
      using written held by (auto simp: wpr_await_ok split: sum.splits)
  qed
  show ?case
    unfolding sum.case prod.case wpr_await Let_def b(2)
  proof (rule wpr_expiry_for [OF G R], goal_cases)
    case (3 s t w3)
    note r3 = 3(1) and t = 3(2)
    let ?rec = "rec\<lparr>lr_expires_at := s, lr_expires_at_unix := sat_add_u64 t (dur_secs (li_ttl inner))\<rparr>"
    have "wpr S R G (kv_update (store_of b) ?k (lx_to_vec x ?rec) (raw_seq m)) (\<lambda>u. wpr S R G (await_ok (case u of
            Inr _ \<Rightarrow> Done (Inr ?rec)
          | Inl e \<Rightarrow>
              if \<not> lost_cas e then Done (Inl (BackendUnavailable (''lease renew update: '' @ ce_text e)))
              else await_ok (read_held x inner) (\<lambda>(held, _). Done (Inr held)))
         (\<lambda>renewed.
            await (store_text (li_expires_at inner) (lr_expires_at renewed)) (\<lambda>_.
              Done (Inr (lr_expires_at renewed))))) (\<lambda>_ _. True)) w3"
    proof (rule wpr_kv_update [OF b(1)], rule conjI [OF _ last])
      fix w4 w5 r assume R34: "R\<^sup>*\<^sup>* w3 w4" and out: "update_outcome V w4 w5 b ?k (lx_to_vec x ?rec) (raw_seq m) r"
      have e14: "evolves V w1 w4"
        using evolves_trans [OF quiet_evolves [OF q] reach_evolves [OF reach_trans [OF r3 reach_env [OF R34]] R]] .
      have clk: "clock V w \<le> t"
        using e1 q t by (auto simp: evolves_def quiet_def)
      have "G w4 w5" if h: "put_headers h (raw_seq m)" and st: "stored V w4 w5 b ?k h (lx_to_vec x ?rec) n" for h n
      proof -
        have "cell V w4 b ?k = Some m"
          using cas_same [OF e14 m(1)] stored_cas [OF st put_headers_expects [OF h]] by simp
        then have "holds_lease x V b ?k rec w4"
          using m by (simp add: holds_lease_def)
        from Gs [OF st h this own _ _ clk] show ?thesis by simp
      qed
      with out G show "G w4 w5"
        by (auto simp: update_outcome_def split: sum.splits if_splits)
    qed
    then show ?case
      unfolding prod.case wpr_await .
  qed
qed simp_all

lemma wpr_release_async:
  assumes i: "inner_ok inner b" and R: "\<And>a c. R a c \<Longrightarrow> evolves V a c"
    and G: "\<And>w1 w2. quiet V w1 w2 \<Longrightarrow> G w1 w2"
    and Gs: "\<And>w1 w2 h n e m rec. stored V w1 w2 b (li_key inner) h [] n \<Longrightarrow> del_headers h (Some e) \<Longrightarrow>
               cell V w1 b (li_key inner) = Some m \<Longrightarrow> lx_from_slice x (raw_payload m) = Inr rec \<Longrightarrow>
               owns inner rec \<Longrightarrow> G w1 w2"
  shows "wpr S R G (release_async x inner) (\<lambda>_ _. True) w"
proof -
  let ?k = "li_key inner"
  have b: "bucket_ok b" "li_leases inner = store_of b"
    using i by (simp_all add: inner_ok_def)
  show ?thesis
    unfolding release_async_def wpr_await
  proof (rule wpr_last_record [OF b], goal_cases)
    case (1 w1 w2 e)
    then show ?case using G by simp
  next
    case (2 w1 w2)
    have "wpr S R G (kv_delete_expect (store_of b) ?k (raw_seq m)) (\<lambda>_ _. True) w2"
      if m: "cell V w1 b ?k = Some m" and rec: "lx_from_slice x (raw_payload m) = Inr rec" "owns inner rec" for m rec
    proof (rule wpr_kv_delete_expect [OF b(1)], rule conjI [OF _ TrueI])
      fix w3 w4 r assume R23: "R\<^sup>*\<^sup>* w2 w3" and out: "delete_outcome V w3 w4 b ?k (raw_seq m) r"
      have e13: "evolves V w1 w3"
        using evolves_trans [OF quiet_evolves [OF 2(2)] reach_evolves [OF reach_env [OF R23] R]] .
      have "G w3 w4" if h: "del_headers h (Some (raw_seq m))" and st: "stored V w3 w4 b ?k h [] n" for h n
        using Gs [OF st h cas_same [OF e13 m stored_cas [OF st del_headers_expects [OF h]]] rec] .
      with out G show "G w3 w4"
        by (auto simp: delete_outcome_def split: sum.splits if_splits)
    qed
    then show ?case
      using G [OF 2(2)] b(2)
      by (cases "cell V w1 b ?k") (auto simp: wpr_await split: sum.splits)
  qed
qed

end

section \<open>Waiting ends\<close>

context steady_clock
begin

text \<open>One round of the acquisition loop: it answers, or goes on later, within the time to wait.\<close>

lemma wpr_acquire_round:
  assumes next_round: "\<And>w'. nanos w + 500000000 \<le> nanos w' \<Longrightarrow> nanos w \<le> t0 + as_nanos (max_wait ps) * 10 \<Longrightarrow>
             wpr S passes (\<lambda>_ _. True) (acquire_loop n x ps t0) (\<lambda>r _. r \<noteq> None) w'"
  shows "wpr S passes (\<lambda>_ _. True) (acquire_loop (Suc n) x ps t0) (\<lambda>r _. r \<noteq> None) w"
  unfolding acquire_loop.simps wpr_await
proof (rule wpr_mono [OF wpr_passes [OF order.refl]], goal_cases)
  case (1 m w1)
  note w1 = 1
  let ?Q = "\<lambda>r _. r \<noteq> None"
  have wait: "wpr S passes (\<lambda>_ _. True) (await instant_now (\<lambda>t.
       if t - t0 > as_nanos (max_wait ps) * 10 then Done (Some (Inl Timeout))
       else await (sleep (unat ACQUIRE_LEADERSHIP_RETRY_MS * 1000000)) (\<lambda>_. acquire_loop n x ps t0))) ?Q w2"
    if w2: "nanos w \<le> nanos w2" for w2
    unfolding wpr_await
  proof (subst wpr_calls, intro allI impI)
    fix w3 assume w3: "passes\<^sup>*\<^sup>* w2 w3"
    obtain t w4 where t: "sv_instant_now S w3 = (t, w4)"
      by fastforce
    have n3: "nanos w \<le> nanos w3" and n4: "nanos w \<le> nanos w4"
      using w2 passes_rtranclp [OF w3] steady [of w3 "InstantNow (\<lambda>_. ())" "()" w4] t
      by (auto simp: apfst_def map_prod_def)
    have "wpr S passes (\<lambda>_ _. True) (sleep (unat ACQUIRE_LEADERSHIP_RETRY_MS * 1000000))
       (\<lambda>_. wpr S passes (\<lambda>_ _. True) (acquire_loop n x ps t0) ?Q) w4"
      if within: "\<not> t - t0 > as_nanos (max_wait ps) * 10"
    proof (subst wpr_calls, intro allI impI conjI TrueI)
      fix w5 assume "passes\<^sup>*\<^sup>* w4 w5"
      then have "nanos w + 500000000 \<le> nanos (sv_sleep S w5 (unat ACQUIRE_LEADERSHIP_RETRY_MS * 1000000))"
        using n4 passes_rtranclp [of w4 w5] sleep_passes [of w5 "unat ACQUIRE_LEADERSHIP_RETRY_MS * 1000000"]
        by (simp add: ACQUIRE_LEADERSHIP_RETRY_MS_def)
      moreover have "nanos w \<le> t0 + as_nanos (max_wait ps) * 10"
        using within instant_reads [OF t] n3 by linarith
      ultimately show "wpr S passes (\<lambda>_ _. True) (acquire_loop n x ps t0) ?Q
          (sv_sleep S w5 (unat ACQUIRE_LEADERSHIP_RETRY_MS * 1000000))"
        by (rule next_round)
    qed
    then show "case sv_instant_now S w3 of (r, w2) \<Rightarrow> True \<and> wpr S passes (\<lambda>_ _. True)
        (if r - t0 > as_nanos (max_wait ps) * 10 then Done (Some (Inl Timeout))
         else await (sleep (unat ACQUIRE_LEADERSHIP_RETRY_MS * 1000000)) (\<lambda>_. acquire_loop n x ps t0)) ?Q w2"
      using t by (simp add: wpr_await)
  qed
  show ?case
  proof (cases m)
    case (Inr rec)
    show ?thesis
      unfolding Inr sum.case wpr_await
    proof (rule wpr_mono [OF wpr_passes [OF w1]], goal_cases)
      case (1 oc w2)
      show ?case
      proof (cases oc)
        case (Acquired r k)
        show ?thesis
          unfolding Acquired AcquireOutcome.case wpr_await
          by (rule wpr_mono [OF wpr_passes [OF 1]]) simp
      next
        case Held
        with wait [OF 1] show ?thesis by simp
      qed simp
    qed
  qed simp
qed

lemma wpr_acquire_ends:
  "t0 + as_nanos (max_wait ps) * 10 < nanos w + n * 500000000 \<Longrightarrow>
   wpr S passes (\<lambda>_ _. True) (acquire_loop (Suc n) x ps t0) (\<lambda>r _. r \<noteq> None) w"
proof (induction n arbitrary: w)
  case 0
  then show ?case
    by (intro wpr_acquire_round) simp
next
  case (Suc n)
  then show ?case
    by (intro wpr_acquire_round Suc.IH) simp
qed

lemma wpr_acquire_async:
  "wpr S passes (\<lambda>_ _. True) (acquire_async (as_nanos (max_wait ps) * 10 div 500000000 + 2) x ps) (\<lambda>r _. r \<noteq> None) w"
proof (cases "trim (ap_key ps) = []")
  case False
  let ?limit = "as_nanos (max_wait ps) * 10"
  have rounds: "?limit div 500000000 + 2 = Suc (Suc (?limit div 500000000))"
    by simp
  show ?thesis
    unfolding acquire_async_def if_not_P [OF False] wpr_await rounds
  proof (subst wpr_calls, intro allI impI)
    fix w1
    obtain t w2 where t: "sv_instant_now S w1 = (t, w2)"
      by fastforce
    then have "t \<le> nanos w2"
      using instant_reads [OF t] steady [of w1 "InstantNow (\<lambda>_. ())" "()" w2]
      by (simp add: apfst_def map_prod_def)
    moreover have "?limit < Suc (?limit div 500000000) * 500000000"
      using dividend_less_div_times [of 500000000 ?limit] by simp
    ultimately have "t + ?limit < nanos w2 + Suc (?limit div 500000000) * 500000000"
      by linarith
    from wpr_acquire_ends [OF this] t
    show "case sv_instant_now S w1 of (r, w2) \<Rightarrow> True \<and>
        wpr S passes (\<lambda>_ _. True) (acquire_loop (Suc (Suc (?limit div 500000000))) x ps r) (\<lambda>r _. r \<noteq> None) w2"
      by simp
  qed
qed (simp add: acquire_async_def)

end

end
