(* ===== verification/Ref_Codec.thy ===== *)
theory Ref_Codec
  imports Rust_Prelude
begin

text \<open>
  A text codec for the witnesses: each byte of a string is marked, and an end mark follows, so
  that strings written one after another are read back one after another.
\<close>

fun enc_str :: "string \<Rightarrow> bytes" where
  "enc_str [] = ''.''"
| "enc_str (c # s) = CHR ''c'' # c # enc_str s"

fun dec_str :: "bytes \<Rightarrow> (string \<times> bytes) option" where
  "dec_str (m # c # r) =
     (if m = CHR ''.'' then Some ([], c # r) else map_option (apfst ((#) c)) (dec_str r))"
| "dec_str [m] = (if m = CHR ''.'' then Some ([], []) else None)"
| "dec_str [] = None"

lemma dec_enc_str [simp]: "dec_str (enc_str s @ r) = Some (s, r)"
proof (induction s)
  case Nil
  then show ?case by (cases r) auto
qed simp

end
