(* ===== verification/Lease_Theorems.thy ===== *)
theory Lease_Theorems
  imports Lease_Safety Ref_Server Ref_Codec
begin

text \<open>
  The properties of leases, with their witnesses on the reference server. The codec of lease
  records of the witnesses is a concrete one: two numbers in eight bytes each, and marked strings.
\<close>

section \<open>Instances for the witnesses\<close>

definition ref_to_vec :: "LeaseRecord \<Rightarrow> bytes" where
  "ref_to_vec r = u64_to_be_bytes (lr_fencing_token r) @ u64_to_be_bytes (lr_expires_at_unix r)
     @ enc_str (lr_node_id r) @ enc_str (lr_acquired_at r) @ enc_str (lr_expires_at r)"

definition ref_from_slice :: "bytes \<Rightarrow> string + LeaseRecord" where
  "ref_from_slice v =
     (case dec_str (drop 16 v) of
        None \<Rightarrow> Inl ''no node''
      | Some (node, r) \<Rightarrow>
          (case dec_str r of
             None \<Rightarrow> Inl ''no start''
           | Some (acquired, r') \<Rightarrow>
               (case dec_str r' of
                  None \<Rightarrow> Inl ''no expiry''
                | Some (expires, _) \<Rightarrow>
                    Inr \<lparr>lr_node_id = node, lr_fencing_token = u64_from_be_bytes (take 8 v),
                         lr_acquired_at = acquired, lr_expires_at = expires,
                         lr_expires_at_unix = u64_from_be_bytes (take 8 (drop 8 v))\<rparr>)))"

definition ref_lease_ext :: lease_externals where
  "ref_lease_ext = \<lparr>lx_parse_op = ext_parse_op ref_ext, lx_to_vec = ref_to_vec, lx_from_slice = ref_from_slice\<rparr>"

lemma ref_lease_codec [simp]: "ref_from_slice (ref_to_vec r) = Inr r"
  using dec_enc_str [of "lr_expires_at r" "[]"] by (simp add: ref_from_slice_def ref_to_vec_def)

lemma ref_lease_ext_ok: "lease_ext_ok ref_lease_ext"
  by (simp add: lease_ext_ok_def ref_lease_ext_def ref_parse_op_ok)

definition ref_params :: "string \<Rightarrow> AcquireParams" where
  "ref_params node = \<lparr>ap_leases = store_of ''leases'', ap_fencing = store_of ''fencing'', ap_key = ''lock.a'',
     ap_node_id = node, ap_ttl_ms = 30000, ap_wait = True, ap_renew_before_expiry_percent = 50\<rparr>"

lemma ref_params_ok: "lease_params_ok (ref_params node) ''leases'' ''fencing''"
  by (simp add: lease_params_ok_def ref_params_def bucket_ok_def)

definition ref_inner :: "string \<Rightarrow> u64 \<Rightarrow> LeaseInner" where
  "ref_inner node token = \<lparr>li_leases = store_of ''leases'', li_key = ''lock.a'', li_node_id = node,
     li_fencing_token = token, li_ttl = duration_from_millis 30000, li_expires_at = lease_cell ''lock.a'' token\<rparr>"

lemma ref_inner_ok: "inner_ok (ref_inner node token) ''leases''"
  by (simp add: inner_ok_def ref_inner_def bucket_ok_def)


section \<open>Properties\<close>

text \<open>
  C2. An acquisition, waiting or not, never replaces or removes a live lease: the record of its key
  changes only when there is none, when it is a release marker, or when its holder's lease has
  lapsed by the clock, whatever other clients do between the calls.
\<close>

theorem acquire_spares_live_lease:
  assumes "jetstream S V" "lease_ext_ok x" "lease_params_ok ps b fb"
  shows "wpr S (evolves V) (spares_lease x V b (ap_key ps)) (acquire_async rounds x ps) (\<lambda>_ _. True) w
    \<and> wpr S (evolves V) (spares_lease x V b (ap_key ps)) (try_acquire_async x ps) (\<lambda>_ _. True) w"
proof
  note K = lasting_True [of "evolves V" V x b "ap_key ps" "ap_node_id ps" 0]
  have "wpr S (evolves V) (spares_lease x V b (ap_key ps)) (await instant_now (acquire_loop rounds x ps)) (\<lambda>_ _. True) w"
    unfolding wpr_await
    by (rule jetstream.wpr_instant_now [OF assms(1)], rule conjI [OF spares_lease_quiet], assumption,
        rule wpr_mono [OF jetstream.wpr_acquire_loop [OF assms K _ evolves_refl]]) auto
  then show "wpr S (evolves V) (spares_lease x V b (ap_key ps)) (acquire_async rounds x ps) (\<lambda>_ _. True) w"
    by (simp add: acquire_async_def)
  show "wpr S (evolves V) (spares_lease x V b (ap_key ps)) (try_acquire_async x ps) (\<lambda>_ _. True) w"
    by (rule wpr_mono [OF jetstream.wpr_try_acquire [OF assms K]]) auto
qed

theorem acquire_spares_live_lease_witness:
  "wpr ref_server (evolves ref_view) (spares_lease ref_lease_ext ref_view ''leases'' ''lock.a'')
     (acquire_async 3 ref_lease_ext (ref_params ''n1'')) (\<lambda>_ _. True) (ref_start 100)"
  using acquire_spares_live_lease [OF ref.jetstream_axioms ref_lease_ext_ok ref_params_ok [of "''n1''"], of 3 "ref_start 100"]
  by (simp add: ref_params_def)

definition touches_own ::
  "lease_externals \<Rightarrow> 'w view \<Rightarrow> string \<Rightarrow> LeaseInner \<Rightarrow> 'w \<Rightarrow> 'w \<Rightarrow> bool" where
  "touches_own x V b inner w w' \<longleftrightarrow> only V b {li_key inner} w w'
     \<and> (cell V w' b (li_key inner) = cell V w b (li_key inner)
        \<or> (\<exists>m rec. cell V w b (li_key inner) = Some m \<and> lx_from_slice x (raw_payload m) = Inr rec
             \<and> lr_node_id rec = li_node_id inner \<and> lr_fencing_token rec = li_fencing_token inner))"

lemma touches_own_quiet: "quiet V w w' \<Longrightarrow> touches_own x V b inner w w'"
  by (simp add: touches_own_def only_quiet quietD)

text \<open>
  C4. Renewal and release change no record but the caller's own: a record with the node and the
  fencing token of the handle. A lease that another node has taken over since is left as it is.
\<close>

theorem renew_release_own_record:
  assumes "jetstream S V" "inner_ok inner b"
  shows "wpr S (evolves V) (touches_own x V b inner) (renew_inner x inner) (\<lambda>_ _. True) w
    \<and> wpr S (evolves V) (touches_own x V b inner) (release_async x inner) (\<lambda>_ _. True) w"
proof
  show "wpr S (evolves V) (touches_own x V b inner) (renew_inner x inner) (\<lambda>_ _. True) w"
    by (rule jetstream.wpr_renew_inner [OF assms])
      (simp_all add: touches_own_quiet, auto simp: touches_own_def owns_def holds_lease_def intro: only_stored)
  show "wpr S (evolves V) (touches_own x V b inner) (release_async x inner) (\<lambda>_ _. True) w"
    by (rule jetstream.wpr_release_async [OF assms])
      (simp_all add: touches_own_quiet, auto simp: touches_own_def owns_def intro: only_stored)
qed

theorem renew_release_own_record_witness:
  "wpr ref_server (evolves ref_view) (touches_own ref_lease_ext ref_view ''leases'' (ref_inner ''n1'' 1))
     (release_async ref_lease_ext (ref_inner ''n1'' 1)) (\<lambda>_ _. True) (ref_start 100)"
  using renew_release_own_record [OF ref.jetstream_axioms ref_inner_ok] by blast

text \<open>
  C3. Fencing tokens are fresh: where nobody lowers the counter of a key, the token handed out exceeds
  every count the counter had before the call began, and the counter holds at least it afterwards.
  (The greatest 64-bit number is handed out again.)
\<close>

theorem fencing_token_fresh:
  assumes "jetstream S V" "bucket_ok fb"
  shows "wpr S (fence_grows V fb key) (fence_grows V fb key) (bump_fencing_token x (store_of fb) key)
     (\<lambda>r w'. case r of Inl _ \<Rightarrow> True
        | Inr t \<Rightarrow> (token_of (cell V w fb (fence_path key)) < t \<or> t = u64_max)
            \<and> t \<le> token_of (cell V w' fb (fence_path key))) w"
proof (rule jetstream.wpr_bump_fencing_token [OF assms, where P = True and ?w0.0 = w], goal_cases)
  case (4 w1 w2 h n t)
  then show ?case by (rule fence_grows_bump)
next
  case (6 t w')
  let ?c = "token_of (cell V w fb (fence_path key))"
  have "sat_add_u64 ?c 1 \<le> t" "t \<le> token_of (cell V w' fb (fence_path key))"
    using 6 by simp_all
  moreover have "?c < t \<or> t = u64_max"
    using sat_add_less [of ?c] \<open>sat_add_u64 ?c 1 \<le> t\<close> unat_u64_le [of t]
    by (auto simp: word_le_nat_alt word_less_nat_alt word_unat_eq_iff)
  ultimately show ?case by simp
qed (auto simp: fence_growsD fence_grows_quiet evolves_refl fence_grows_refl)

theorem fencing_token_fresh_witness:
  "fst (run ref_server (bump_fencing_token ref_lease_ext (store_of ''fencing'') ''a'') (ref_start 100)) = Inr 1
   \<and> wpr ref_server (fence_grows ref_view ''fencing'' ''a'') (fence_grows ref_view ''fencing'' ''a'')
     (bump_fencing_token ref_lease_ext (store_of ''fencing'') ''a'')
     (\<lambda>r w'. case r of Inl _ \<Rightarrow> True
        | Inr t \<Rightarrow> (token_of (cell ref_view (ref_start 100) ''fencing'' (fence_path ''a'')) < t \<or> t = u64_max)
            \<and> t \<le> token_of (cell ref_view w' ''fencing'' (fence_path ''a''))) (ref_start 100)"
proof
  have "(16 :: nat) = Suc 15"
    by simp
  then show "fst (run ref_server (bump_fencing_token ref_lease_ext (store_of ''fencing'') ''a'') (ref_start 100)) = Inr 1"
    unfolding bump_fencing_token_def
    by (simp only: bump_fencing_token_loop.simps)
      (simp add: last_record_def ref_eval ref_kv_update_def next_token_def meets_def expects_def hdr_get_def)
qed (rule fencing_token_fresh [OF ref.jetstream_axioms bucket_ok_state(3)])






text \<open>
  The tasks of a fleet around one lease: clients that acquire it, waiting or not, and renewal
  tasks of handles. A client answers whether it was given the lease.
\<close>

definition acquire_task :: "nat option \<Rightarrow> lease_externals \<Rightarrow> AcquireParams \<Rightarrow> bool prog" where
  "acquire_task rounds x ps =
     (case rounds of
        None \<Rightarrow> await (try_acquire_async x ps) (\<lambda>r. Done (case r of Inr (Some _) \<Rightarrow> True | _ \<Rightarrow> False))
      | Some n \<Rightarrow> await (acquire_async n x ps) (\<lambda>r. Done (case r of Some (Inr _) \<Rightarrow> True | _ \<Rightarrow> False)))"

context jetstream
begin

lemma wpr_acquire_task:
  assumes "lease_ext_ok x" "lease_params_ok ps b fb"
    and "\<And>a c. R a c \<Longrightarrow> lease_moves x V b (ap_key ps) until a c"
    and until: "until \<le> sat_add_u64 (clock V w) (dur_secs (lease_ttl ps))"
  shows "wpr S R (spares_lease x V b (ap_key ps)) (acquire_task rounds x ps)
     (\<lambda>r w'. r \<longrightarrow> lease_kept x V b (ap_key ps) (ap_node_id ps) until w') w"
proof -
  have K: "lasting x V R b (ap_key ps) (ap_node_id ps) until (lease_kept x V b (ap_key ps) (ap_node_id ps) until)"
    by (rule lasting_kept) (rule assms(3))
  have loop: "wpr S R (spares_lease x V b (ap_key ps)) (await instant_now (acquire_loop n x ps))
      (\<lambda>r w'. \<forall>h. r = Some (Inr h) \<longrightarrow> lease_kept x V b (ap_key ps) (ap_node_id ps) until w') w" for n
    unfolding wpr_await
  proof (rule wpr_instant_now, rule conjI [OF spares_lease_quiet], assumption)
    fix w1 w2 t assume "R\<^sup>*\<^sup>* w w1" "quiet V w1 w2"
    then have "evolves V w w2"
      using reach_evolves [OF reach_step lease_movesD [OF assms(3)]] by blast
    then show "wpr S R (spares_lease x V b (ap_key ps)) (acquire_loop n x ps t)
      (\<lambda>r w'. \<forall>h. r = Some (Inr h) \<longrightarrow> lease_kept x V b (ap_key ps) (ap_node_id ps) until w') w2"
      by (rule wpr_acquire_loop [OF assms(1,2) K until])
  qed
  show ?thesis
  proof (cases rounds)
    case None
    show ?thesis
      unfolding acquire_task_def None option.case wpr_await
      by (rule wpr_mono [OF wpr_try_acquire [OF assms(1,2) K until]]) (auto split: sum.splits option.splits)
  next
    case (Some n)
    have "wpr S R (spares_lease x V b (ap_key ps)) (acquire_async n x ps)
      (\<lambda>r w'. \<forall>h. r = Some (Inr h) \<longrightarrow> lease_kept x V b (ap_key ps) (ap_node_id ps) until w') w"
      using loop by (simp add: acquire_async_def)
    then show ?thesis
      unfolding acquire_task_def Some option.case wpr_await
      by (rule wpr_mono) (auto split: sum.splits option.splits)
  qed
qed

lemma wpr_renewal_loop:
  assumes x: "lease_ext_ok x" and i: "inner_ok inner b"
    and R: "\<And>a c. R a c \<Longrightarrow> evolves V a c"
    and "until \<le> sat_add_u64 (clock V w) (dur_secs (li_ttl inner))"
  shows "wpr S R (lease_moves x V b (li_key inner) until) (renewal_loop n x inner d) (\<lambda>_ _. True) w"
  using assms(4)
proof (induction n arbitrary: w)
  case (Suc n)
  let ?G = "lease_moves x V b (li_key inner) until"
  have later: "until \<le> sat_add_u64 (clock V w') (dur_secs (li_ttl inner))" if "evolves V w w'" for w'
    using order.trans [OF Suc.prems sat_add_mono] that by (simp add: evolves_def)
  have quiet: "?G a c" if "quiet V a c" for a c
    using that by (intro lease_moves_spares spares_lease_quiet)
  have renew: "wpr S R ?G (renew_inner x inner) (\<lambda>_ w'. evolves V w w') w1" if "evolves V w w1" for w1
  proof -
    have "wpr S R ?G (renew_inner x inner) (\<lambda>_ _. True) w1"
    proof (rule wpr_renew_inner [OF i R quiet], goal_cases)
      case (3 w2 w3 h n e rec rec' t)
      have "clock V w \<le> t"
        using 3(7) that by (auto simp: evolves_def)
      then have "until \<le> lr_expires_at_unix rec'"
        unfolding 3(8) using order.trans [OF Suc.prems sat_add_mono] by blast
      with 3 holds_lease_stored [OF x 3(1,2)] stored_evolves [OF 3(1)] show ?case
        unfolding lease_moves_def by blast
    qed
    from wpr_conj_evolves [OF this R that] show ?thesis
      by (rule wpr_mono) simp_all
  qed
  show ?case
    unfolding renewal_loop.simps wpr_await
  proof (rule wpr_sleep, rule conjI [OF quiet], assumption)
    fix w1 w2 assume "R\<^sup>*\<^sup>* w w1" "quiet V w1 w2"
    then have "evolves V w w2"
      using reach_evolves [OF reach_step R] by blast
    from renew [OF this]
    show "wpr S R ?G (renew_inner x inner) (\<lambda>r. wpr S R ?G (if r = Inl LeaseExpired then Done True
         else renewal_loop n x inner d) (\<lambda>_ _. True)) w2"
      by (rule wpr_mono) (simp add: Suc.IH later)
  qed
qed simp

end

text \<open>
  C1. Mutual exclusion: in a fleet whose clients have distinct names, however their calls and those of
  their renewal tasks interleave, two clients that were given the same lease cannot both hold it
  while less than the lifetime has passed since the start.
\<close>

theorem one_live_holder:
  fixes P :: "'c \<Rightarrow> AcquireParams" and H :: "'d \<Rightarrow> NatsJetStreamLeaseHandle"
  assumes "jetstream S V" "lease_ext_ok x" "inj (\<lambda>c. ap_node_id (P c))"
    and P: "\<And>c. lease_params_ok (P c) b fb" "\<And>c. ap_key (P c) = key" "\<And>c. dur_secs (lease_ttl (P c)) = ttl"
    and H: "\<And>d. inner_ok (lh_inner (H d)) b" "\<And>d. li_key (lh_inner (H d)) = key" "\<And>d. dur_secs (li_ttl (lh_inner (H d))) = ttl"
    and steps: "(pool_step S)\<^sup>*\<^sup>* (case_sum (\<lambda>c. acquire_task (rounds c) x (P c)) (\<lambda>d. renewal_task (ticks d) x (H d)), w) (ps, w')"
    and won: "ps (Inl c) = Done True" "ps (Inl c') = Done True"
    and live: "clock V w' < sat_add_u64 (clock V w) ttl"
  shows "c = c'"
proof -
  let ?until = "sat_add_u64 (clock V w) ttl"
  let ?G = "\<lambda>_ :: 'c + 'd. lease_moves x V b key ?until"
  let ?Q = "case_sum (\<lambda>c r w. r \<longrightarrow> lease_kept x V b key (ap_node_id (P c)) ?until w) (\<lambda>d r w. True)"
  have "wpr S (?G t) (?G t) (case_sum (\<lambda>c. acquire_task (rounds c) x (P c)) (\<lambda>d. renewal_task (ticks d) x (H d)) t) (?Q t) w" for t
  proof (cases t)
    case (Inl c)
    show ?thesis
      unfolding Inl sum.case
      by (rule wpr_guarantee [OF jetstream.wpr_acquire_task [OF assms(1,2) P(1) [of c], unfolded P(2,3)] lease_moves_spares]) auto
  next
    case (Inr d)
    show ?thesis
      unfolding Inr sum.case renewal_task_def
      by (rule jetstream.wpr_renewal_loop [OF assms(1,2) H(1) [of d] lease_movesD, unfolded H(2,3)]) auto
  qed
  then have "pool_ok S ?G ?G ?Q (case_sum (\<lambda>c. acquire_task (rounds c) x (P c)) (\<lambda>d. renewal_task (ticks d) x (H d)), w)"
    by (simp add: pool_ok_def)
  from pool_run_ok [OF steps this] have "pool_ok S ?G ?G ?Q (ps, w')"
    using lease_kept_moves [of x V b key ?until] by (auto split: sum.splits)
  then have "wpr S (?G t) (?G t) (ps t) (?Q t) w'" for t
    by (simp add: pool_ok_def)
  from this [of "Inl c"] this [of "Inl c'"] won
  have "lease_kept x V b key (ap_node_id (P c)) ?until w'" "lease_kept x V b key (ap_node_id (P c')) ?until w'"
    by simp_all
  with live obtain r r' where "holds_lease x V b key r w'" "lr_node_id r = ap_node_id (P c)"
    "holds_lease x V b key r' w'" "lr_node_id r' = ap_node_id (P c')"
    unfolding lease_kept_def using leD le_less_trans by metis
  with holds_lease_same have "ap_node_id (P c) = ap_node_id (P c')"
    by metis
  then show ?thesis
    using injD [OF assms(3)] by blast
qed

lemmas ref_lease_programs = try_acquire_async_def mint_record_def bump_fencing_token_def expiry_for_def
  rfc3339_after_def now_rfc3339_def try_create_def spawn_lease_handle_def last_record_def now_unix_secs_def
  ref_kv_update_def next_token_def meets_def expects_def hdr_get_def lease_ttl_def Let_def

lemma fence_rounds: "(16 :: nat) = Suc 15"
  by simp

lemma ref_state_text [ref_eval]:
  "sv_store_text ref_server w f s = w\<lparr>rw_texts := (f, s) # rw_texts w\<rparr>"
  "rw_clock (w\<lparr>rw_texts := ts\<rparr>) = rw_clock w" "rw_cell (w\<lparr>rw_texts := ts\<rparr>) = rw_cell w"
  "rw_top (w\<lparr>rw_texts := ts\<rparr>) = rw_top w" "rw_faults (w\<lparr>rw_texts := ts\<rparr>) = rw_faults w"
  by (simp_all add: ref_server_def rw_clock_def rw_cell_def [abs_def] rw_visible_def rw_top_def [abs_def])

lemma trim_lock_key: "trim ''lock.a'' \<noteq> []"
  by code_simp

lemma ref_try_acquire:
  "case run ref_server (try_acquire_async ref_lease_ext (ref_params node)) (ref_start 100) of (r, w') \<Rightarrow>
     (\<exists>h. r = Inr (Some h)) \<and> rw_clock w' = 100"
  unfolding try_acquire_async_def mint_record_def bump_fencing_token_def fence_rounds bump_fencing_token_loop.simps
  by (simp add: ref_lease_programs ref_eval ref_params_def trim_lock_key ref_lease_ext_def)

theorem one_live_holder_witness:
  "\<exists>ps w'. (pool_step ref_server)\<^sup>*\<^sup>*
     (case_sum (\<lambda>c :: bool. acquire_task None ref_lease_ext (ref_params (if c then ''n1'' else ''n2'')))
        (\<lambda>d :: unit. renewal_task 5 ref_lease_ext (NatsJetStreamLeaseHandle.make (ref_inner ''n1'' 1) 50)), ref_start 100) (ps, w')
     \<and> {c. ps (Inl c) = Done True} = {True}"
proof -
  let ?P = "\<lambda>c :: bool. ref_params (if c then ''n1'' else ''n2'')"
  let ?H = "\<lambda>d :: unit. NatsJetStreamLeaseHandle.make (ref_inner ''n1'' 1) 50"
  let ?ps = "case_sum (\<lambda>c. acquire_task None ref_lease_ext (?P c)) (\<lambda>d. renewal_task 5 ref_lease_ext (?H d))"
  obtain w' where w': "run ref_server (acquire_task None ref_lease_ext (?P True)) (ref_start 100) = (True, w')"
      "rw_clock w' = 100"
    using ref_try_acquire [of "''n1''"] by (auto simp: acquire_task_def split: prod.splits)
  let ?final = "?ps(Inl True := Done True)"
  have steps: "(pool_step ref_server)\<^sup>*\<^sup>* (?ps, ref_start 100) (?final, w')"
    by (rule pool_run_one [OF w'(1)]) simp
  have "c = True" if c: "?final (Inl c) = Done True" for c
  proof (rule one_live_holder [OF ref.jetstream_axioms ref_lease_ext_ok _ _ _ _ _ _ _ steps c])
    show "inj (\<lambda>c. ap_node_id (?P c))"
      by (simp add: inj_def ref_params_def)
    show "lease_params_ok (?P c) ''leases'' ''fencing''" for c
      by (rule ref_params_ok)
    show "inner_ok (lh_inner (?H d)) ''leases''" for d
      by (simp add: NatsJetStreamLeaseHandle.defs ref_inner_ok)
    show "ap_key (?P c) = ''lock.a''" "dur_secs (lease_ttl (?P c)) = 30" for c
      by (simp_all add: ref_params_def lease_ttl_def duration_from_millis_def)
    show "li_key (lh_inner (?H d)) = ''lock.a''" "dur_secs (li_ttl (lh_inner (?H d))) = 30" for d
      by (simp_all add: ref_inner_def duration_from_millis_def NatsJetStreamLeaseHandle.defs)
    show "clock ref_view w' < sat_add_u64 (clock ref_view (ref_start 100)) 30"
      using w'(2) by (simp add: ref_view_def ref_eval sat_add_u64_def)
  qed simp
  moreover have "?final (Inl True) = Done True"
    by simp
  ultimately have "{c. ?final (Inl c) = Done True} = {True}"
    by blast
  with steps show ?thesis
    by blast
qed

end
