(* ===== verification/Config.thy ===== *)
theory Config
  imports Rust_Prelude
begin

text \<open>
  The operator's configuration (\<^verbatim>\<open>src/src/config.rs\<close>): its records, the defaults of the
  fields left out, and the validation every configuration passes before anything else sees it.
  The JSON decoder of the \<^verbatim>\<open>serde\<close> derive is a parameter; it hands over the typed fields it
  found, and filling in the others is the code's. Rust's Unicode table of the characters that
  \<^verbatim>\<open>Debug\<close> prints as they are is a parameter too.
\<close>

section \<open>Data\<close>

datatype ConfigError = ParseError string | Invalid string

datatype AuthConfig =
    Token string
  | UserPassword string string
  | CredentialsFile string
  | Credentials string

record TlsConfig =
  tls_ca_cert :: "string option"
  tls_require_tls :: bool

datatype KvStorage = Memory | File

record JetStreamConfig =
  jc_domain :: "string option"
  jc_leases_bucket :: string
  jc_fencing_bucket :: string
  jc_notifications_stream :: string
  jc_state_bucket :: string
  jc_replicas :: u32
  jc_storage :: KvStorage
  jc_named_bucket_max_bytes :: u64
  jc_state_bucket_max_bytes :: u64
  jc_sweep_interval_sec :: u64

record NodeConfig =
  nc_id :: string
  nc_address :: "string option"
  nc_heartbeat_interval_sec :: u64
  nc_peer_expiry_sec :: u64

record LeaseConfig =
  lc_default_ttl_sec :: u64
  lc_renew_before_expiry_percent :: u32

record ConnectionConfig =
  cc_connect_timeout_ms :: u64
  cc_operation_timeout_ms :: u64

record ClusterNatsConfig =
  cfg_servers :: "string list"
  cfg_auth :: "AuthConfig option"
  cfg_tls :: "TlsConfig option"
  cfg_jetstream :: JetStreamConfig
  cfg_node :: NodeConfig
  cfg_lease :: LeaseConfig
  cfg_connection :: ConnectionConfig


section \<open>Defaults\<close>

definition default_require_tls :: bool where
  "default_require_tls = True"

definition default_leases_bucket :: string where
  "default_leases_bucket = ''mcpg-leases''"

definition default_fencing_bucket :: string where
  "default_fencing_bucket = ''mcpg-fencing''"

definition default_notifications_stream :: string where
  "default_notifications_stream = ''mcpg-notifications''"

definition default_state_bucket :: string where
  "default_state_bucket = ''mcpg-state''"

definition default_named_bucket_max_bytes :: u64 where
  "default_named_bucket_max_bytes = 256 * 1024 * 1024"

definition default_state_bucket_max_bytes :: u64 where
  "default_state_bucket_max_bytes = 256 * 1024 * 1024"

definition MIN_STATE_BUCKET_MAX_BYTES :: u64 where
  "MIN_STATE_BUCKET_MAX_BYTES = 1024 * 1024"

definition default_sweep_interval_sec :: u64 where
  "default_sweep_interval_sec = 60"

definition default_replicas :: u32 where
  "default_replicas = 1"

definition default_storage :: KvStorage where
  "default_storage = File"

definition default_heartbeat_interval_sec :: u64 where
  "default_heartbeat_interval_sec = 10"

definition default_peer_expiry_sec :: u64 where
  "default_peer_expiry_sec = 30"

definition default_lease_ttl_sec :: u64 where
  "default_lease_ttl_sec = 30"

definition default_renew_before_expiry_percent :: u32 where
  "default_renew_before_expiry_percent = 50"

definition default_connect_timeout_ms :: u64 where
  "default_connect_timeout_ms = 5000"

definition default_operation_timeout_ms :: u64 where
  "default_operation_timeout_ms = 10000"

lemmas config_defaults = default_require_tls_def default_leases_bucket_def default_fencing_bucket_def
  default_notifications_stream_def default_state_bucket_def default_named_bucket_max_bytes_def
  default_state_bucket_max_bytes_def MIN_STATE_BUCKET_MAX_BYTES_def default_sweep_interval_sec_def
  default_replicas_def default_storage_def default_heartbeat_interval_sec_def
  default_peer_expiry_sec_def default_lease_ttl_sec_def default_renew_before_expiry_percent_def
  default_connect_timeout_ms_def default_operation_timeout_ms_def

definition JetStreamConfig_default :: JetStreamConfig where
  "JetStreamConfig_default =
     \<lparr>jc_domain = None,
      jc_leases_bucket = default_leases_bucket,
      jc_fencing_bucket = default_fencing_bucket,
      jc_notifications_stream = default_notifications_stream,
      jc_state_bucket = default_state_bucket,
      jc_replicas = default_replicas,
      jc_storage = default_storage,
      jc_named_bucket_max_bytes = default_named_bucket_max_bytes,
      jc_state_bucket_max_bytes = default_state_bucket_max_bytes,
      jc_sweep_interval_sec = default_sweep_interval_sec\<rparr>"

definition LeaseConfig_default :: LeaseConfig where
  "LeaseConfig_default =
     \<lparr>lc_default_ttl_sec = default_lease_ttl_sec,
      lc_renew_before_expiry_percent = default_renew_before_expiry_percent\<rparr>"

definition ConnectionConfig_default :: ConnectionConfig where
  "ConnectionConfig_default =
     \<lparr>cc_connect_timeout_ms = default_connect_timeout_ms,
      cc_operation_timeout_ms = default_operation_timeout_ms\<rparr>"

text \<open>
  What the decoder found: the blocks and fields with a \<^verbatim>\<open>#[serde(default)]\<close> are optional.
\<close>

record raw_tls =
  rt_ca_cert :: "string option"
  rt_require_tls :: "bool option"

record raw_jetstream =
  rj_domain :: "string option"
  rj_leases_bucket :: "string option"
  rj_fencing_bucket :: "string option"
  rj_notifications_stream :: "string option"
  rj_state_bucket :: "string option"
  rj_replicas :: "u32 option"
  rj_storage :: "KvStorage option"
  rj_named_bucket_max_bytes :: "u64 option"
  rj_state_bucket_max_bytes :: "u64 option"
  rj_sweep_interval_sec :: "u64 option"

record raw_node =
  rn_id :: string
  rn_address :: "string option"
  rn_heartbeat_interval_sec :: "u64 option"
  rn_peer_expiry_sec :: "u64 option"

record raw_lease =
  rl_default_ttl_sec :: "u64 option"
  rl_renew_before_expiry_percent :: "u32 option"

record raw_connection =
  rc_connect_timeout_ms :: "u64 option"
  rc_operation_timeout_ms :: "u64 option"

record raw_config =
  raw_servers :: "string list"
  raw_auth :: "AuthConfig option"
  raw_tls :: "raw_tls option"
  raw_jetstream :: "raw_jetstream option"
  raw_node :: raw_node
  raw_lease :: "raw_lease option"
  raw_connection :: "raw_connection option"

definition or_default :: "'a option \<Rightarrow> 'a \<Rightarrow> 'a" where
  "or_default x d = (case x of Some v \<Rightarrow> v | None \<Rightarrow> d)"

lemma or_default_simps [simp]: "or_default None d = d" "or_default (Some v) d = v"
  by (simp_all add: or_default_def)

definition fill_jetstream :: "raw_jetstream \<Rightarrow> JetStreamConfig" where
  "fill_jetstream r =
     \<lparr>jc_domain = rj_domain r,
      jc_leases_bucket = or_default (rj_leases_bucket r) default_leases_bucket,
      jc_fencing_bucket = or_default (rj_fencing_bucket r) default_fencing_bucket,
      jc_notifications_stream = or_default (rj_notifications_stream r) default_notifications_stream,
      jc_state_bucket = or_default (rj_state_bucket r) default_state_bucket,
      jc_replicas = or_default (rj_replicas r) default_replicas,
      jc_storage = or_default (rj_storage r) default_storage,
      jc_named_bucket_max_bytes = or_default (rj_named_bucket_max_bytes r) default_named_bucket_max_bytes,
      jc_state_bucket_max_bytes = or_default (rj_state_bucket_max_bytes r) default_state_bucket_max_bytes,
      jc_sweep_interval_sec = or_default (rj_sweep_interval_sec r) default_sweep_interval_sec\<rparr>"

definition fill_node :: "raw_node \<Rightarrow> NodeConfig" where
  "fill_node r =
     \<lparr>nc_id = rn_id r, nc_address = rn_address r,
      nc_heartbeat_interval_sec = or_default (rn_heartbeat_interval_sec r) default_heartbeat_interval_sec,
      nc_peer_expiry_sec = or_default (rn_peer_expiry_sec r) default_peer_expiry_sec\<rparr>"

definition fill_lease :: "raw_lease \<Rightarrow> LeaseConfig" where
  "fill_lease r =
     \<lparr>lc_default_ttl_sec = or_default (rl_default_ttl_sec r) default_lease_ttl_sec,
      lc_renew_before_expiry_percent =
        or_default (rl_renew_before_expiry_percent r) default_renew_before_expiry_percent\<rparr>"

definition fill_connection :: "raw_connection \<Rightarrow> ConnectionConfig" where
  "fill_connection r =
     \<lparr>cc_connect_timeout_ms = or_default (rc_connect_timeout_ms r) default_connect_timeout_ms,
      cc_operation_timeout_ms = or_default (rc_operation_timeout_ms r) default_operation_timeout_ms\<rparr>"

definition fill_tls :: "raw_tls \<Rightarrow> TlsConfig" where
  "fill_tls r =
     \<lparr>tls_ca_cert = rt_ca_cert r, tls_require_tls = or_default (rt_require_tls r) default_require_tls\<rparr>"

definition fill_config :: "raw_config \<Rightarrow> ClusterNatsConfig" where
  "fill_config r =
     \<lparr>cfg_servers = raw_servers r, cfg_auth = raw_auth r,
      cfg_tls = map_option fill_tls (raw_tls r),
      cfg_jetstream = or_default (map_option fill_jetstream (raw_jetstream r)) JetStreamConfig_default,
      cfg_node = fill_node (raw_node r),
      cfg_lease = or_default (map_option fill_lease (raw_lease r)) LeaseConfig_default,
      cfg_connection = or_default (map_option fill_connection (raw_connection r)) ConnectionConfig_default\<rparr>"

text \<open>An empty block and a block left out mean the same.\<close>

lemma fill_empty_blocks:
  "fill_jetstream \<lparr>rj_domain = None, rj_leases_bucket = None, rj_fencing_bucket = None,
     rj_notifications_stream = None, rj_state_bucket = None, rj_replicas = None, rj_storage = None,
     rj_named_bucket_max_bytes = None, rj_state_bucket_max_bytes = None,
     rj_sweep_interval_sec = None\<rparr> = JetStreamConfig_default"
  "fill_lease \<lparr>rl_default_ttl_sec = None, rl_renew_before_expiry_percent = None\<rparr> = LeaseConfig_default"
  "fill_connection \<lparr>rc_connect_timeout_ms = None, rc_operation_timeout_ms = None\<rparr> = ConnectionConfig_default"
  by (simp_all add: fill_jetstream_def fill_lease_def fill_connection_def JetStreamConfig_default_def
      LeaseConfig_default_def ConnectionConfig_default_def)


section \<open>Debug output\<close>

definition lower_hex_digit :: "nat \<Rightarrow> char" where
  "lower_hex_digit n = (if n < 10 then char_of (48 + n) else char_of (87 + n))"

fun lower_hex :: "nat \<Rightarrow> string" where
  "lower_hex n = (if n < 16 then [lower_hex_digit n] else lower_hex (n div 16) @ [lower_hex_digit (n mod 16)])"

text \<open>The code point of a character given as its UTF-8 bytes.\<close>

definition code_point :: "string \<Rightarrow> nat" where
  "code_point ch =
     (case map byte ch of
        [a] \<Rightarrow> a
      | [a, b] \<Rightarrow> (a - 192) * 64 + (b - 128)
      | [a, b, c] \<Rightarrow> ((a - 224) * 64 + (b - 128)) * 64 + (c - 128)
      | [a, b, c, d] \<Rightarrow> (((a - 240) * 64 + (b - 128)) * 64 + (c - 128)) * 64 + (d - 128)
      | _ \<Rightarrow> 0)"

text \<open>
  \<^verbatim>\<open>char::escape_debug\<close>, with the quote that is escaped; \<open>graphic\<close> tells the characters
  outside ASCII that are printed as they are.
\<close>

definition escape_debug :: "(string \<Rightarrow> bool) \<Rightarrow> char \<Rightarrow> string \<Rightarrow> string" where
  "escape_debug graphic quot ch =
     (let n = code_point ch in
      if n = 0 then [CHR 0x5C, CHR ''0'']
      else if n = 9 then [CHR 0x5C, CHR ''t'']
      else if n = 10 then [CHR 0x5C, CHR ''n'']
      else if n = 13 then [CHR 0x5C, CHR ''r'']
      else if n = 92 \<or> ch = [quot] then CHR 0x5C # ch
      else if (if n < 128 then 32 \<le> n \<and> n < 127 else graphic ch) then ch
      else [CHR 0x5C, CHR ''u'', CHR 0x7B] @ lower_hex n @ [CHR 0x7D])"

definition char_debug :: "(string \<Rightarrow> bool) \<Rightarrow> string \<Rightarrow> string" where
  "char_debug graphic ch = CHR 0x27 # escape_debug graphic (CHR 0x27) ch @ [CHR 0x27]"

definition str_debug :: "(string \<Rightarrow> bool) \<Rightarrow> string \<Rightarrow> string" where
  "str_debug graphic s = CHR 0x22 # concat (map (escape_debug graphic (CHR 0x22)) (utf8_chars s)) @ [CHR 0x22]"

definition REDACTED :: string where
  "REDACTED = ''***''"

definition auth_debug :: "(string \<Rightarrow> bool) \<Rightarrow> AuthConfig \<Rightarrow> string" where
  "auth_debug graphic auth =
     (case auth of
        Token _ \<Rightarrow> ''Token { token: '' @ str_debug graphic REDACTED @ '' }''
      | UserPassword user _ \<Rightarrow>
          ''UserPassword { user: '' @ str_debug graphic user @ '', password: ''
            @ str_debug graphic REDACTED @ '' }''
      | CredentialsFile path \<Rightarrow> ''CredentialsFile { path: '' @ str_debug graphic path @ '' }''
      | Credentials _ \<Rightarrow> ''Credentials { creds: '' @ str_debug graphic REDACTED @ '' }'')"


section \<open>Validation\<close>

definition CREDS_JWT_MARKER :: string where
  "CREDS_JWT_MARKER = ''-----BEGIN NATS USER JWT-----''"

definition CREDS_SEED_MARKER :: string where
  "CREDS_SEED_MARKER = ''-----BEGIN USER NKEY SEED-----''"

definition is_inline_pem :: "string \<Rightarrow> bool" where
  "is_inline_pem s \<longleftrightarrow> prefix ''-----BEGIN'' (trim_start s)"

definition em_dash :: string where
  "em_dash = [CHR 0xE2, CHR 0x80, CHR 0x94]"

definition has_server_scheme :: "string \<Rightarrow> bool" where
  "has_server_scheme trimmed \<longleftrightarrow>
     prefix ''nats://'' trimmed \<or> prefix ''tls://'' trimmed \<or> prefix ''nats+tls://'' trimmed
     \<or> prefix ''ws://'' trimmed \<or> prefix ''wss://'' trimmed"

fun validate_servers :: "string list \<Rightarrow> ConfigError + unit" where
  "validate_servers [] = Inr ()"
| "validate_servers (s # ss) =
     (let trimmed = trim s in
      if trimmed = [] then Inl (Invalid ''`servers` entries must be non-empty'')
      else if \<not> has_server_scheme trimmed then
        Inl (Invalid (''`servers` URL must use scheme nats:// / tls:// / nats+tls:// / ws:// / wss:// ''
          @ em_dash @ '' got `'' @ trimmed @ ''`''))
      else validate_servers ss)"

fun validate_markers :: "string \<Rightarrow> string list \<Rightarrow> ConfigError + unit" where
  "validate_markers creds [] = Inr ()"
| "validate_markers creds (marker # ms) =
     (if \<not> contains_str creds marker then
        Inl (Invalid (''`auth.creds` must be the full NATS credentials-file content, but its `''
          @ marker @ ''` section is missing (value not echoed '' @ em_dash
          @ '' check the env var / secret it was substituted from)''))
      else validate_markers creds ms)"

definition validate_auth :: "AuthConfig option \<Rightarrow> ConfigError + unit" where
  "validate_auth auth =
     (case auth of
        Some (Credentials creds) \<Rightarrow> validate_markers creds [CREDS_JWT_MARKER, CREDS_SEED_MARKER]
      | _ \<Rightarrow> Inr ())"

definition bad_id_char :: "string \<Rightarrow> bool" where
  "bad_id_char c \<longleftrightarrow> c = ''.'' \<or> c = ''*'' \<or> c = ''>'' \<or> is_whitespace c \<or> is_control c"

definition validate_node_id :: "(string \<Rightarrow> bool) \<Rightarrow> string \<Rightarrow> ConfigError + unit" where
  "validate_node_id graphic raw_id =
     (let node_id = trim raw_id in
      if node_id = [] then
        Inl (Invalid ''`node.id` must not be empty (use the gateway pod / hostname)'')
      else if raw_id \<noteq> node_id then
        Inl (Invalid ''`node.id` must not have leading or trailing whitespace'')
      else
        (case List.find bad_id_char (utf8_chars node_id) of
           Some bad \<Rightarrow>
             Inl (Invalid (''`node.id` must be a single NATS subject token '' @ em_dash
               @ '' it is the trailing token of the heartbeat subject `mcpg.peers.heartbeat.<id>`. Remove the ''
               @ char_debug graphic bad
               @ '' character (no `.`, `*`, `>`, whitespace, or control chars).''))
         | None \<Rightarrow> Inr ()))"

fun validate_names :: "(string \<times> string) list \<Rightarrow> ConfigError + unit" where
  "validate_names [] = Inr ()"
| "validate_names ((label, name) # ns) =
     (if trim name = [] then Inl (Invalid (''`'' @ label @ ''` must not be empty''))
      else validate_names ns)"

definition and_then :: "'e + unit \<Rightarrow> 'e + 'a \<Rightarrow> 'e + 'a" where
  "and_then r next_check = (case r of Inl e \<Rightarrow> Inl e | Inr _ \<Rightarrow> next_check)"

definition require :: "bool \<Rightarrow> string \<Rightarrow> ConfigError + unit" where
  "require ok message = (if ok then Inr () else Inl (Invalid message))"

definition validate :: "(string \<Rightarrow> bool) \<Rightarrow> ClusterNatsConfig \<Rightarrow> ConfigError + unit" where
  "validate graphic cfg =
     (let node = cfg_node cfg; js = cfg_jetstream cfg; lease = cfg_lease cfg; conn = cfg_connection cfg in
      and_then (require (cfg_servers cfg \<noteq> []) ''`servers` must contain at least one URL'')
     (and_then (validate_servers (cfg_servers cfg))
     (and_then (validate_auth (cfg_auth cfg))
     (and_then (validate_node_id graphic (nc_id node))
     (and_then (require (nc_heartbeat_interval_sec node \<noteq> 0) ''`node.heartbeat_interval_sec` must be > 0'')
     (and_then (require (nc_heartbeat_interval_sec node < nc_peer_expiry_sec node)
        ''`node.peer_expiry_sec` must be > `heartbeat_interval_sec` so peers don't flicker on a single missed beat'')
     (and_then (require (lc_default_ttl_sec lease \<noteq> 0) ''`lease.default_ttl_sec` must be > 0'')
     (and_then (require (1 \<le> lc_renew_before_expiry_percent lease \<and> lc_renew_before_expiry_percent lease \<le> 99)
        ''`lease.renew_before_expiry_percent` must be in 1..=99'')
     (and_then (require (jc_replicas js \<noteq> 0)
        ''`jetstream.replicas` must be > 0 (use 1 for single-node dev, 3 for prod)'')
     (and_then (validate_names [(''jetstream.leases_bucket'', jc_leases_bucket js),
        (''jetstream.fencing_bucket'', jc_fencing_bucket js),
        (''jetstream.notifications_stream'', jc_notifications_stream js)])
     (and_then (require (MIN_STATE_BUCKET_MAX_BYTES \<le> jc_state_bucket_max_bytes js)
        (''`jetstream.state_bucket_max_bytes` must be at least '' @ u64_to_string MIN_STATE_BUCKET_MAX_BYTES
          @ '' (1 MiB)''))
     (require (cc_connect_timeout_ms conn \<noteq> 0 \<and> cc_operation_timeout_ms conn \<noteq> 0)
        ''`connection.*_timeout_ms` must be > 0''))))))))))))"

definition parse ::
  "(string \<Rightarrow> bool) \<Rightarrow> (string \<Rightarrow> string + raw_config) \<Rightarrow> string \<Rightarrow> ConfigError + ClusterNatsConfig" where
  "parse graphic from_str config_json =
     (case from_str config_json of
        Inl e \<Rightarrow> Inl (ParseError e)
      | Inr raw \<Rightarrow>
          (let cfg = fill_config raw in and_then (validate graphic cfg) (Inr cfg)))"

section \<open>What a validated configuration is\<close>

text \<open>A single token of a NATS subject, as a node may be named.\<close>

definition subject_token :: "string \<Rightarrow> bool" where
  "subject_token s \<longleftrightarrow> s \<noteq> [] \<and> (\<forall>c\<in>set (utf8_chars s). \<not> bad_id_char c)"

definition server_ok :: "string \<Rightarrow> bool" where
  "server_ok s \<longleftrightarrow> has_server_scheme (trim s)"

definition valid_config :: "ClusterNatsConfig \<Rightarrow> bool" where
  "valid_config cfg \<longleftrightarrow>
     cfg_servers cfg \<noteq> [] \<and> (\<forall>s\<in>set (cfg_servers cfg). server_ok s)
     \<and> (\<forall>creds. cfg_auth cfg = Some (Credentials creds) \<longrightarrow>
          contains_str creds CREDS_JWT_MARKER \<and> contains_str creds CREDS_SEED_MARKER)
     \<and> subject_token (nc_id (cfg_node cfg))
     \<and> 0 < unat (nc_heartbeat_interval_sec (cfg_node cfg))
     \<and> unat (nc_heartbeat_interval_sec (cfg_node cfg)) < unat (nc_peer_expiry_sec (cfg_node cfg))
     \<and> 0 < unat (lc_default_ttl_sec (cfg_lease cfg))
     \<and> unat (lc_renew_before_expiry_percent (cfg_lease cfg)) \<in> {1..99}
     \<and> 0 < unat (jc_replicas (cfg_jetstream cfg))
     \<and> trim (jc_leases_bucket (cfg_jetstream cfg)) \<noteq> []
     \<and> trim (jc_fencing_bucket (cfg_jetstream cfg)) \<noteq> []
     \<and> trim (jc_notifications_stream (cfg_jetstream cfg)) \<noteq> []
     \<and> 1048576 \<le> unat (jc_state_bucket_max_bytes (cfg_jetstream cfg))
     \<and> 0 < unat (cc_connect_timeout_ms (cfg_connection cfg))
     \<and> 0 < unat (cc_operation_timeout_ms (cfg_connection cfg))"

lemma and_then_Inr [simp]: "and_then r k = Inr v \<longleftrightarrow> r = Inr () \<and> k = Inr v"
  by (auto simp: and_then_def split: sum.splits)

lemma require_Inr [simp]: "require ok m = Inr v \<longleftrightarrow> ok"
  by (simp add: require_def)

lemma validate_servers_Inr: "validate_servers ss = Inr v \<longleftrightarrow> (\<forall>s\<in>set ss. server_ok s)"
  by (induction ss) (auto simp: server_ok_def has_server_scheme_def Let_def)

lemma validate_auth_Inr: "validate_auth auth = Inr v \<longleftrightarrow>
    (\<forall>creds. auth = Some (Credentials creds) \<longrightarrow>
       contains_str creds CREDS_JWT_MARKER \<and> contains_str creds CREDS_SEED_MARKER)"
  by (auto simp: validate_auth_def split: option.splits AuthConfig.splits)

lemma validate_names_Inr: "validate_names ns = Inr v \<longleftrightarrow> (\<forall>(l, n)\<in>set ns. trim n \<noteq> [])"
  by (induction ns rule: validate_names.induct) auto

lemma concat_utf8_chars [simp]: "concat (utf8_chars s) = s"
  by (induction s rule: utf8_chars.induct) (subst utf8_chars.simps, simp add: max_def)

lemma utf8_chars_eq_Nil [simp]: "utf8_chars s = [] \<longleftrightarrow> s = []"
  by (subst utf8_chars.simps) simp

text \<open>Text without blank characters is not trimmed.\<close>

lemma trim_id: "\<forall>c\<in>set (utf8_chars s). \<not> is_whitespace c \<Longrightarrow> trim s = s"
proof -
  assume *: "\<forall>c\<in>set (utf8_chars s). \<not> is_whitespace c"
  have "dropWhile is_whitespace (utf8_chars s) = utf8_chars s"
    "dropWhile is_whitespace (rev (utf8_chars s)) = rev (utf8_chars s)"
    using * hd_in_set [of "rev (utf8_chars s)"] by (auto simp: dropWhile_eq_self_iff)
  then show ?thesis
    by (simp add: trim_def)
qed

lemma validate_node_id_Inr: "validate_node_id graphic s = Inr v \<longleftrightarrow> subject_token s"
proof
  assume "validate_node_id graphic s = Inr v"
  then have "s \<noteq> []" "List.find bad_id_char (utf8_chars s) = None"
    by (auto simp: validate_node_id_def Let_def split: if_splits option.splits)
  then show "subject_token s"
    by (simp add: subject_token_def find_None_iff)
next
  assume s: "subject_token s"
  then have "trim s = s"
    by (intro trim_id) (auto simp: subject_token_def bad_id_char_def)
  moreover have "List.find bad_id_char (utf8_chars s) = None"
    using s by (auto simp: subject_token_def find_None_iff)
  ultimately show "validate_node_id graphic s = Inr v"
    using s by (simp add: validate_node_id_def subject_token_def)
qed


lemma validate_exact: "validate graphic cfg = Inr () \<longleftrightarrow> valid_config cfg"
proof -
  have "(1 \<le> p \<and> p \<le> 99) = (unat p \<in> {1..99})" for p :: u32
    by (simp add: word_le_nat_alt)
  moreover have "(MIN_STATE_BUCKET_MAX_BYTES \<le> n) = (1048576 \<le> unat n)" for n
    by (simp add: MIN_STATE_BUCKET_MAX_BYTES_def word_le_nat_alt)
  ultimately show ?thesis
    by (simp add: validate_def Let_def validate_servers_Inr validate_auth_Inr validate_names_Inr
        validate_node_id_Inr valid_config_def word_less_nat_alt unat_gt_0)
qed

lemma parse_valid: "parse graphic from_str json = Inr cfg \<Longrightarrow> valid_config cfg"
  by (auto simp: parse_def Let_def validate_exact split: sum.splits)


section \<open>A small configuration\<close>

text \<open>Decoders of the witnesses: one server and a node, everything else left out.\<close>

definition raw_small :: "string \<Rightarrow> raw_config" where
  "raw_small node =
     \<lparr>raw_servers = [''nats://127.0.0.1:4222''], raw_auth = None, raw_tls = None, raw_jetstream = None,
      raw_node = \<lparr>rn_id = node, rn_address = None, rn_heartbeat_interval_sec = None, rn_peer_expiry_sec = None\<rparr>,
      raw_lease = None, raw_connection = None\<rparr>"

definition small_config :: "string \<Rightarrow> ClusterNatsConfig" where
  "small_config node = fill_config (raw_small node)"

lemma trim_small: "trim ''nats://127.0.0.1:4222'' = ''nats://127.0.0.1:4222''" "trim ''mcpg-leases'' = ''mcpg-leases''"
    "trim ''mcpg-fencing'' = ''mcpg-fencing''" "trim ''mcpg-notifications'' = ''mcpg-notifications''"
  by code_simp+

lemma small_config_valid: "subject_token node \<Longrightarrow> valid_config (small_config node)"
  by (simp add: small_config_def fill_config_def raw_small_def fill_node_def JetStreamConfig_default_def
      LeaseConfig_default_def ConnectionConfig_default_def config_defaults valid_config_def server_ok_def trim_small
      has_server_scheme_def)

lemma subject_token_n1: "subject_token ''n1''"
  by code_simp

lemma parse_small: "parse graphic (\<lambda>_. Inr (raw_small ''n1'')) json = Inr (small_config ''n1'')"
  using small_config_valid [OF subject_token_n1]
  by (simp add: parse_def Let_def validate_exact small_config_def)

lemma small_config_node [simp]:
  "nc_id (cfg_node (small_config node)) = node" "nc_address (cfg_node (small_config node)) = None"
  by (simp_all add: small_config_def fill_config_def raw_small_def fill_node_def)


section \<open>Properties\<close>

text \<open>
  C40. Parsing accepts exactly the configurations whose JSON decodes and that, with the defaults filled
  in, are valid: servers with a known scheme, whole credentials, a node named by one subject token,
  peers that expire after more than a heartbeat, lease settings within range, named buckets and
  streams, and limits that are not zero.
\<close>

theorem parse_exact:
  "parse graphic from_str json = Inr cfg \<longleftrightarrow>
     (\<exists>raw. from_str json = Inr raw \<and> cfg = fill_config raw \<and> valid_config cfg)"
  by (auto simp: parse_def Let_def validate_exact split: sum.splits)

text \<open>
  What is printed of the authentication settings depends on no secret: two settings that differ
  only in a token, a password or credentials look the same.
\<close>

fun redact :: "AuthConfig \<Rightarrow> AuthConfig" where
  "redact (Token _) = Token []"
| "redact (UserPassword user _) = UserPassword user []"
| "redact (Credentials _) = Credentials []"
| "redact (CredentialsFile path) = CredentialsFile path"

lemma auth_debug_redact: "auth_debug graphic auth = auth_debug graphic (redact auth)"
  by (cases auth) (simp_all add: auth_debug_def)

end
