(* ===== verification/Pub_Sub.thy ===== *)
theory Pub_Sub
  imports Effects Nats_Subject
begin

text \<open>
  Notifications and peer watching (\<^verbatim>\<open>src/src/pubsub.rs\<close>) and the topic bus
  (\<^verbatim>\<open>src/src/state/topic.rs\<close>): the subjects of topics and routing keys, publishing,
  subscribing, the forwarder tasks that hand messages to the host, and the way a cancelled
  forwarder is waited for. A subscription is the list of messages it delivers until it ends,
  and a receiver of the event channel the list of what it answers until the channel closes. A
  forwarder task is modelled by the texts it passes to the host's \<^verbatim>\<open>emit_event\<close>, in order.
  The JSON encoder of messages and events is a parameter.
\<close>

section \<open>The model\<close>

definition NOTIFY_SUBJECT_PREFIX :: string where
  "NOTIFY_SUBJECT_PREFIX = ''mcpg.notify''"

definition DEFAULT_ROUTING_KEY :: string where
  "DEFAULT_ROUTING_KEY = ''_default_''"

definition FROM_NODE_HEADER :: string where
  "FROM_NODE_HEADER = ''X-Mcpg-From-Node''"

definition render_subject :: "string \<Rightarrow> string option \<Rightarrow> string" where
  "render_subject topic routing_key =
     (let rk = (case routing_key of
                  Some k \<Rightarrow> if k \<noteq> [] then k else DEFAULT_ROUTING_KEY
                | None \<Rightarrow> DEFAULT_ROUTING_KEY)
      in NOTIFY_SUBJECT_PREFIX @ ''.'' @ topic @ ''.'' @ rk)"

definition render_subject_pattern :: "string \<Rightarrow> string option \<Rightarrow> string" where
  "render_subject_pattern topic routing_key =
     (case routing_key of
        Some k \<Rightarrow> if k \<noteq> [] then NOTIFY_SUBJECT_PREFIX @ ''.'' @ topic @ ''.'' @ k
                  else NOTIFY_SUBJECT_PREFIX @ ''.'' @ topic @ ''.*''
      | None \<Rightarrow> NOTIFY_SUBJECT_PREFIX @ ''.'' @ topic @ ''.*'')"

definition reject_reserved_routing_key :: "string option \<Rightarrow> unit res" where
  "reject_reserved_routing_key rk =
     (if rk = Some DEFAULT_ROUTING_KEY then
        Inl (InvalidReference (''routing_key `'' @ DEFAULT_ROUTING_KEY @ ''` is reserved by the nats-jetstream ''
          @ ''coordinator (used as the no-routing-key sentinel); pick a different value''))
      else Inr ())"

definition publish_async :: "string \<Rightarrow> string \<Rightarrow> string option \<Rightarrow> bytes \<Rightarrow> unit res prog" where
  "publish_async self_node_id topic routing_key body =
     (if trim topic = [] then Done (Inl (InvalidReference ''publish topic must not be empty''))
      else await_ok (Done (reject_reserved_routing_key routing_key)) (\<lambda>_.
        let subject = render_subject topic routing_key;
            hs = hdr_insert FROM_NODE_HEADER self_node_id []
        in await (nats_publish subject (Some hs) body) (\<lambda>r.
             Done (map_err (\<lambda>e. BackendUnavailable (''nats publish '' @ subject @ '': '' @ e)) r))))"

definition publish_sync :: "string \<Rightarrow> string \<Rightarrow> string option \<Rightarrow> bytes \<Rightarrow> unit res prog" where
  "publish_sync self_node_id topic routing_key body = publish_async self_node_id topic routing_key body"

record PublishedMessage =
  pm_topic :: string
  pm_routing_key :: "string option"
  pm_payload :: bytes
  pm_from_node :: string

definition recover_routing_key :: "string \<Rightarrow> string \<Rightarrow> string option" where
  "recover_routing_key topic subject =
     (case strip_prefix (NOTIFY_SUBJECT_PREFIX @ ''.'' @ topic @ ''.'') subject of
        None \<Rightarrow> None
      | Some stripped \<Rightarrow> if stripped = [] \<or> stripped = DEFAULT_ROUTING_KEY then None else Some stripped)"

definition published_message :: "string \<Rightarrow> nats_message \<Rightarrow> PublishedMessage" where
  "published_message topic msg =
     \<lparr>pm_topic = topic, pm_routing_key = recover_routing_key topic (nm_subject msg),
      pm_payload = nm_payload msg,
      pm_from_node = (case Option.bind (nm_headers msg) (\<lambda>h. hdr_get h FROM_NODE_HEADER) of
                        Some v \<Rightarrow> v | None \<Rightarrow> [])\<rparr>"

text \<open>What the encoder cannot write is dropped.\<close>

fun emitted :: "('a \<Rightarrow> string + string) \<Rightarrow> 'a list \<Rightarrow> string list" where
  "emitted to_json [] = []"
| "emitted to_json (a # as) =
     (case to_json a of Inr s \<Rightarrow> s # emitted to_json as | Inl _ \<Rightarrow> emitted to_json as)"

text \<open>
  The streaming variant checks its arguments and answers with the forwarder task it spawned.
\<close>

definition subscribe_forwarder ::
  "(PublishedMessage \<Rightarrow> string + string) \<Rightarrow> string \<Rightarrow> string option \<Rightarrow> string option \<Rightarrow> string list prog" where
  "subscribe_forwarder to_json topic queue_group routing_key =
     await (nats_subscribe (render_subject_pattern topic routing_key) queue_group) (\<lambda>r.
       Done (case r of
               Inl _ \<Rightarrow> []
             | Inr msgs \<Rightarrow> emitted to_json (map (published_message topic) msgs)))"

definition subscribe ::
  "(PublishedMessage \<Rightarrow> string + string) \<Rightarrow> string \<Rightarrow> string option \<Rightarrow> string option \<Rightarrow>
   string list prog res" where
  "subscribe to_json topic queue_group routing_key =
     (if trim topic = [] then Inl (InvalidReference ''subscribe topic must not be empty'')
      else (case reject_reserved_routing_key routing_key of
              Inl e \<Rightarrow> Inl e
            | Inr _ \<Rightarrow> Inr (subscribe_forwarder to_json topic queue_group routing_key)))"

definition subscribe_async ::
  "string \<Rightarrow> string option \<Rightarrow> string option \<Rightarrow> PublishedMessage list res prog" where
  "subscribe_async topic queue_group routing_key =
     (if trim topic = [] then Done (Inl (InvalidReference ''subscribe topic must not be empty''))
      else await_ok (Done (reject_reserved_routing_key routing_key)) (\<lambda>_.
        let pattern = render_subject_pattern topic routing_key in
        await (nats_subscribe pattern queue_group) (\<lambda>r.
          Done (case r of
                  Inl e \<Rightarrow> Inl (BackendUnavailable (''nats subscribe '' @ pattern @ '': '' @ e))
                | Inr msgs \<Rightarrow> Inr (map (published_message topic) msgs)))))"


subsection \<open>Watching peers\<close>

text \<open>\<^verbatim>\<open>broadcast::Receiver\<close>: an event, or how many a slow receiver missed.\<close>

datatype peer_recv = Received PeerEvent | Lagged u64

definition watch_peers_stream :: "peer_recv list \<Rightarrow> PeerEvent list" where
  "watch_peers_stream rx = List.map_filter (\<lambda>r. case r of Received evt \<Rightarrow> Some evt | Lagged _ \<Rightarrow> None) rx"

fun watch_peers :: "(PeerEvent \<Rightarrow> string + string) \<Rightarrow> peer_recv list \<Rightarrow> string list" where
  "watch_peers to_json [] = []"
| "watch_peers to_json (Received event # rx) =
     (case to_json event of Inr s \<Rightarrow> s # watch_peers to_json rx | Inl _ \<Rightarrow> watch_peers to_json rx)"
| "watch_peers to_json (Lagged _ # rx) = watch_peers to_json rx"


subsection \<open>The topic bus\<close>

record Message =
  msg_topic :: string
  msg_payload :: bytes

definition bus_publish :: "string \<Rightarrow> bytes \<Rightarrow> unit res prog" where
  "bus_publish topic body =
     await (nats_publish topic None body) (\<lambda>r.
       Done (map_err (\<lambda>e. BackendUnavailable (''nats publish `'' @ topic @ ''`: '' @ e)) r))"

definition bus_subscribe :: "string \<Rightarrow> string option \<Rightarrow> Message list res prog" where
  "bus_subscribe pattern queue_group =
     await (nats_subscribe pattern queue_group) (\<lambda>r.
       Done (case r of
               Inl e \<Rightarrow> Inl (BackendUnavailable (''nats subscribe `'' @ pattern @ ''`: '' @ e))
             | Inr msgs \<Rightarrow> Inr (map (\<lambda>m. \<lparr>msg_topic = nm_subject m, msg_payload = nm_payload m\<rparr>) msgs)))"

subsection \<open>Cancelling a forwarder\<close>

text \<open>
  The host frees what \<^verbatim>\<open>emit_event\<close> writes to as soon as the cancelling call returns. A
  forwarder is polled by the runtime: between two polls it waits, and during one it may call
  \<^verbatim>\<open>emit_event\<close>. An abort takes effect at the end of a poll only. Dropping the forwarder's
  future sends the done signal. \<^verbatim>\<open>StreamState::drop\<close> aborts, then waits for the signal or for
  five seconds.
\<close>

datatype forwarder_phase = Waiting | Polling | Dropped

datatype cancel_phase = NotCancelled | AwaitingDone | ReturnedQuiet | ReturnedTimeout

record stream_state =
  fw_phase :: forwarder_phase
  fw_aborted :: bool
  fw_done_sent :: bool
  fw_emits :: nat
  fw_cancel :: cancel_phase

definition stream_start :: stream_state where
  "stream_start = \<lparr>fw_phase = Waiting, fw_aborted = False, fw_done_sent = False, fw_emits = 0, fw_cancel = NotCancelled\<rparr>"

text \<open>\<^verbatim>\<open>ForwarderDoneSignal::drop\<close>, run when the future is dropped.\<close>

definition drop_future :: "stream_state \<Rightarrow> stream_state" where
  "drop_future s = s\<lparr>fw_phase := Dropped, fw_done_sent := True\<rparr>"

inductive stream_step :: "stream_state \<Rightarrow> stream_state \<Rightarrow> bool" where
  poll: "fw_phase s = Waiting \<Longrightarrow> \<not> fw_aborted s \<Longrightarrow> stream_step s (s\<lparr>fw_phase := Polling\<rparr>)"
| emit: "fw_phase s = Polling \<Longrightarrow> stream_step s (s\<lparr>fw_emits := Suc (fw_emits s)\<rparr>)"
| pend: "fw_phase s = Polling \<Longrightarrow> stream_step s (s\<lparr>fw_phase := Waiting\<rparr>)"
| finish: "fw_phase s = Polling \<Longrightarrow> stream_step s (drop_future s)"
| take_abort: "fw_phase s = Waiting \<Longrightarrow> fw_aborted s \<Longrightarrow> stream_step s (drop_future s)"
| cancel: "fw_cancel s = NotCancelled \<Longrightarrow>
     stream_step s (s\<lparr>fw_aborted := True, fw_cancel := AwaitingDone\<rparr>)"
| done_received: "fw_cancel s = AwaitingDone \<Longrightarrow> fw_done_sent s \<Longrightarrow>
     stream_step s (s\<lparr>fw_cancel := ReturnedQuiet\<rparr>)"
| timed_out: "fw_cancel s = AwaitingDone \<Longrightarrow> stream_step s (s\<lparr>fw_cancel := ReturnedTimeout\<rparr>)"

inductive_cases stream_stepE: "stream_step s s'"


section \<open>Lemmas\<close>

text \<open>Topics and keys without wildcards, as publishers use them.\<close>

definition plain_token :: "string \<Rightarrow> bool" where
  "plain_token t \<longleftrightarrow> t \<noteq> [] \<and> CHR ''.'' \<notin> set t \<and> t \<noteq> ''*'' \<and> t \<noteq> ''>''"

definition plain_topic :: "string \<Rightarrow> bool" where
  "plain_topic topic \<longleftrightarrow> trim topic \<noteq> [] \<and> (\<forall>t\<in>set (split_on CHR ''.'' topic). t \<noteq> ''*'' \<and> t \<noteq> ''>'')"

text \<open>What a routing key means: an empty one is none.\<close>

definition proper_key :: "string option \<Rightarrow> string option" where
  "proper_key rk = (if rk = Some [] then None else rk)"

definition plain_routing_key :: "string option \<Rightarrow> bool" where
  "plain_routing_key rk \<longleftrightarrow> (\<forall>k. proper_key rk = Some k \<longrightarrow> plain_token k \<and> k \<noteq> DEFAULT_ROUTING_KEY)"

lemma token_match_plain:
  "\<forall>f\<in>set fs. f \<noteq> ''*'' \<and> f \<noteq> ''>'' \<Longrightarrow> k' \<noteq> ''>'' \<Longrightarrow>
   token_match (fs @ [k']) (ts @ [k]) \<longleftrightarrow> fs = ts \<and> (k' = ''*'' \<or> k' = k)"
proof (induction fs arbitrary: ts)
  case Nil
  then show ?case by (cases ts; cases "tl ts") auto
next
  case (Cons f fs)
  show ?case
  proof (cases ts)
    case Nil
    have "\<not> token_match (fs @ [k']) []"
      by (cases fs) auto
    with Nil Cons.prems show ?thesis by simp
  next
    case (Cons t ts')
    with Cons.IH [of ts'] Cons.prems show ?thesis by auto
  qed
qed

lemma notify_tokens:
  "CHR ''.'' \<notin> set k \<Longrightarrow>
   split_on CHR ''.'' (NOTIFY_SUBJECT_PREFIX @ ''.'' @ topic @ ''.'' @ k) =
     (''mcpg'' # ''notify'' # split_on CHR ''.'' topic) @ [k]"
proof -
  assume k: "CHR ''.'' \<notin> set k"
  have "NOTIFY_SUBJECT_PREFIX @ ''.'' @ topic @ ''.'' @ k =
      ''mcpg'' @ CHR ''.'' # ''notify'' @ CHR ''.'' # topic @ CHR ''.'' # k"
    by (simp add: NOTIFY_SUBJECT_PREFIX_def)
  then show ?thesis
    using k by (simp only: split_on_append) (simp add: split_on_single)
qed

lemma split_on_inj: "split_on CHR ''.'' s = split_on CHR ''.'' t \<Longrightarrow> s = t"
  using join_dots_split_on by metis

lemma notify_matches:
  assumes "plain_topic topic'" "CHR ''.'' \<notin> set k" "CHR ''.'' \<notin> set k'" "k' \<noteq> ''>''"
  shows "subject_matches (NOTIFY_SUBJECT_PREFIX @ ''.'' @ topic' @ ''.'' @ k')
      (NOTIFY_SUBJECT_PREFIX @ ''.'' @ topic @ ''.'' @ k) \<longleftrightarrow> topic' = topic \<and> (k' = ''*'' \<or> k' = k)"
proof -
  let ?fs = "''mcpg'' # ''notify'' # split_on CHR ''.'' topic'"
  have "\<forall>f\<in>set ?fs. f \<noteq> ''*'' \<and> f \<noteq> ''>''"
    using assms(1) by (auto simp: plain_topic_def)
  from token_match_plain [OF this assms(4), of "''mcpg'' # ''notify'' # split_on CHR ''.'' topic" k]
  show ?thesis
    unfolding subject_matches_def notify_tokens [OF assms(2)] notify_tokens [OF assms(3)]
    using split_on_inj by auto
qed

lemma render_subject_eq:
  "render_subject topic rk = NOTIFY_SUBJECT_PREFIX @ ''.'' @ topic @ ''.'' @
     (case proper_key rk of None \<Rightarrow> DEFAULT_ROUTING_KEY | Some k \<Rightarrow> k)"
  by (auto simp: render_subject_def proper_key_def Let_def split: option.splits)

lemma render_pattern_eq:
  "render_subject_pattern topic rk = NOTIFY_SUBJECT_PREFIX @ ''.'' @ topic @ ''.'' @
     (case proper_key rk of None \<Rightarrow> ''*'' | Some k \<Rightarrow> k)"
  by (auto simp: render_subject_pattern_def proper_key_def split: option.splits)

lemma DEFAULT_key_plain: "CHR ''.'' \<notin> set DEFAULT_ROUTING_KEY" "DEFAULT_ROUTING_KEY \<noteq> ''*''" "DEFAULT_ROUTING_KEY \<noteq> []"
  by (simp_all add: DEFAULT_ROUTING_KEY_def)

lemma recover_render:
  "plain_routing_key rk \<Longrightarrow> recover_routing_key topic (render_subject topic rk) = proper_key rk"
proof -
  assume rk: "plain_routing_key rk"
  have "strip_prefix (NOTIFY_SUBJECT_PREFIX @ ''.'' @ topic @ ''.'') (render_subject topic rk) =
      Some (case proper_key rk of None \<Rightarrow> DEFAULT_ROUTING_KEY | Some k \<Rightarrow> k)"
    unfolding strip_prefix_eq_Some render_subject_eq by simp
  then show ?thesis
    using rk by (auto simp: recover_routing_key_def plain_routing_key_def plain_token_def split: option.splits)
qed

lemma pattern_matches_subject:
  assumes "plain_topic topic'" "plain_routing_key rk" "plain_routing_key rk'"
  shows "subject_matches (render_subject_pattern topic' rk') (render_subject topic rk)
    \<longleftrightarrow> topic' = topic \<and> (proper_key rk' = None \<or> proper_key rk' = proper_key rk)"
proof -
  let ?k = "case proper_key rk of None \<Rightarrow> DEFAULT_ROUTING_KEY | Some k \<Rightarrow> k"
  let ?k' = "case proper_key rk' of None \<Rightarrow> ''*'' | Some k \<Rightarrow> k"
  have "subject_matches (render_subject_pattern topic' rk') (render_subject topic rk) \<longleftrightarrow>
      topic' = topic \<and> (?k' = ''*'' \<or> ?k' = ?k)"
    unfolding render_subject_eq render_pattern_eq
    by (rule notify_matches [OF assms(1)])
      (use assms DEFAULT_key_plain in \<open>auto simp: plain_routing_key_def plain_token_def split: option.splits\<close>)
  then show ?thesis
    using assms DEFAULT_key_plain by (auto simp: plain_routing_key_def plain_token_def split: option.splits)
qed

lemma run_publish_async:
  "trim topic \<noteq> [] \<Longrightarrow> rk \<noteq> Some DEFAULT_ROUTING_KEY \<Longrightarrow>
   run S (publish_async self topic rk body) w =
     apfst (map_err (\<lambda>e. BackendUnavailable (''nats publish '' @ render_subject topic rk @ '': '' @ e)))
       (sv_nats_publish S w (render_subject topic rk) (Some [(FROM_NODE_HEADER, self)]) body)"
  by (simp add: publish_async_def reject_reserved_routing_key_def hdr_insert_def Let_def apfst_def map_prod_def
      split: prod.splits)


section \<open>Properties\<close>

text \<open>
  C38. A notification reaches exactly the right subscribers, unchanged: publishing sends one message,
  which the server delivers to a subscription of a topic and a routing key just when the topic is
  the same and the key is the same or none was asked for, and from which a subscriber recovers
  the topic, the routing key, the payload and the node that published it.
\<close>

theorem notify_roundtrip:
  fixes S :: "'w server"
  assumes "plain_topic topic" "plain_routing_key rk"
  shows "\<exists>m. (\<forall>w. run S (publish_async self topic rk body) w =
        apfst (map_err (\<lambda>e. BackendUnavailable (''nats publish '' @ nm_subject m @ '': '' @ e)))
          (sv_nats_publish S w (nm_subject m) (nm_headers m) (nm_payload m)))
    \<and> published_message topic m =
        \<lparr>pm_topic = topic, pm_routing_key = proper_key rk, pm_payload = body, pm_from_node = self\<rparr>
    \<and> (\<forall>topic' rk'. plain_topic topic' \<and> plain_routing_key rk' \<longrightarrow>
        (subject_matches (render_subject_pattern topic' rk') (nm_subject m)
          \<longleftrightarrow> topic' = topic \<and> (proper_key rk' = None \<or> proper_key rk' = proper_key rk)))"
proof (intro exI conjI allI impI)
  let ?m = "\<lparr>nm_subject = render_subject topic rk, nm_headers = Some [(FROM_NODE_HEADER, self)], nm_payload = body\<rparr>"
  have "rk \<noteq> Some DEFAULT_ROUTING_KEY"
    using assms(2) DEFAULT_key_plain by (auto simp: plain_routing_key_def proper_key_def split: if_splits)
  then show "run S (publish_async self topic rk body) w =
        apfst (map_err (\<lambda>e. BackendUnavailable (''nats publish '' @ nm_subject ?m @ '': '' @ e)))
          (sv_nats_publish S w (nm_subject ?m) (nm_headers ?m) (nm_payload ?m))" for w
    using assms(1) by (simp add: run_publish_async plain_topic_def)
  show "published_message topic ?m =
        \<lparr>pm_topic = topic, pm_routing_key = proper_key rk, pm_payload = body, pm_from_node = self\<rparr>"
    by (simp add: published_message_def recover_render [OF assms(2)] hdr_get_def)
  show "subject_matches (render_subject_pattern topic' rk') (nm_subject ?m)
      \<longleftrightarrow> topic' = topic \<and> (proper_key rk' = None \<or> proper_key rk' = proper_key rk)"
    if "plain_topic topic' \<and> plain_routing_key rk'" for topic' rk'
    using pattern_matches_subject assms(2) that by simp
qed

lemma plain_orders: "plain_topic ''orders''" "plain_routing_key (Some ''placed'')" "plain_routing_key None"
proof -
  have "trim ''orders'' \<noteq> []"
    by code_simp
  then show "plain_topic ''orders''"
    by (simp add: plain_topic_def)
qed (simp_all add: plain_routing_key_def plain_token_def proper_key_def DEFAULT_ROUTING_KEY_def)

theorem notify_roundtrip_witness:
  "\<exists>m. published_message ''orders'' m =
        \<lparr>pm_topic = ''orders'', pm_routing_key = Some ''placed'', pm_payload = ''x'', pm_from_node = ''n1''\<rparr>
    \<and> subject_matches (render_subject_pattern ''orders'' None) (nm_subject m)
    \<and> subject_matches (render_subject_pattern ''orders'' (Some ''placed'')) (nm_subject m)"
proof -
  obtain m where "published_message ''orders'' m =
        \<lparr>pm_topic = ''orders'', pm_routing_key = proper_key (Some ''placed''), pm_payload = ''x'', pm_from_node = ''n1''\<rparr>"
    and "\<forall>topic' rk'. plain_topic topic' \<and> plain_routing_key rk' \<longrightarrow>
        (subject_matches (render_subject_pattern topic' rk') (nm_subject m)
          \<longleftrightarrow> topic' = ''orders'' \<and> (proper_key rk' = None \<or> proper_key rk' = proper_key (Some ''placed'')))"
    using notify_roundtrip [OF plain_orders(1,2), where self = "''n1''" and body = "''x''" and ?S = "undefined :: unit server"]
    by blast
  then show ?thesis
    using plain_orders by (auto simp: proper_key_def)
qed

text \<open>
  A subscription without a routing key does not see what is published with a key of more than
  one token.
\<close>

lemma wildcard_misses_dotted_key:
  "\<not> subject_matches (render_subject_pattern ''orders'' None) (render_subject ''orders'' (Some ''eu.placed''))"
  by code_simp

definition stream_ok :: "stream_state \<Rightarrow> bool" where
  "stream_ok s \<longleftrightarrow> fw_done_sent s = (fw_phase s = Dropped)
     \<and> (fw_cancel s = ReturnedQuiet \<longrightarrow> fw_phase s = Dropped)"

lemma stream_ok_reachable: "stream_step\<^sup>*\<^sup>* stream_start s \<Longrightarrow> stream_ok s"
proof (induction rule: rtranclp_induct)
  case (step s s')
  then show ?case
    by (auto simp: stream_ok_def drop_future_def elim!: stream_stepE)
qed (simp add: stream_ok_def stream_start_def)

lemma dropped_forever:
  "stream_step\<^sup>*\<^sup>* s s' \<Longrightarrow> fw_phase s = Dropped \<Longrightarrow> fw_phase s' = Dropped \<and> fw_emits s' = fw_emits s"
  by (induction rule: rtranclp_induct) (auto elim!: stream_stepE)

text \<open>
  C39. No callback after a clean cancel: once a cancelling call has returned without having waited in
  vain, the forwarder never again calls \<open>emit_event\<close>, whatever happens next.
\<close>

theorem cancelled_forwarder_quiet:
  assumes "stream_step\<^sup>*\<^sup>* stream_start s" "fw_cancel s = ReturnedQuiet" "stream_step\<^sup>*\<^sup>* s s'"
  shows "fw_emits s' = fw_emits s"
  using stream_ok_reachable [OF assms(1)] dropped_forever [OF assms(3)] assms(2) by (simp add: stream_ok_def)

theorem cancelled_forwarder_quiet_witness:
  "\<exists>s. stream_step\<^sup>*\<^sup>* stream_start s \<and> fw_cancel s = ReturnedQuiet
     \<and> {fw_emits s' | s'. stream_step\<^sup>*\<^sup>* s s'} = {1}"
proof -
  let ?s1 = "stream_start\<lparr>fw_phase := Polling\<rparr>"
  let ?s2 = "?s1\<lparr>fw_emits := Suc (fw_emits ?s1)\<rparr>"
  let ?s3 = "?s2\<lparr>fw_aborted := True, fw_cancel := AwaitingDone\<rparr>"
  let ?s4 = "?s3\<lparr>fw_phase := Waiting\<rparr>"
  let ?s5 = "drop_future ?s4"
  let ?s6 = "?s5\<lparr>fw_cancel := ReturnedQuiet\<rparr>"
  have "stream_step stream_start ?s1" "stream_step ?s1 ?s2" "stream_step ?s2 ?s3" "stream_step ?s3 ?s4"
    "stream_step ?s4 ?s5" "stream_step ?s5 ?s6"
    by (rule stream_step.intros; simp add: stream_start_def drop_future_def)+
  then have steps: "stream_step\<^sup>*\<^sup>* stream_start ?s6"
    by (meson rtranclp.rtrancl_into_rtrancl rtranclp.rtrancl_refl)
  moreover have quiet: "fw_cancel ?s6 = ReturnedQuiet" "fw_emits ?s6 = 1"
    by (simp_all add: stream_start_def drop_future_def)
  moreover have "fw_emits s' = 1" if "stream_step\<^sup>*\<^sup>* ?s6 s'" for s'
    using cancelled_forwarder_quiet [OF steps quiet(1) that] quiet(2) by simp
  then have "{fw_emits s' | s'. stream_step\<^sup>*\<^sup>* ?s6 s'} = {1}"
    using quiet(2) by force
  ultimately show ?thesis
    by blast
qed

end
