(* ===== verification/Peer_Tasks.thy ===== *)
theory Peer_Tasks
  imports Effects Config Ref_Codec
begin

text \<open>
  The tasks of peer presence (\<^verbatim>\<open>src/src/peer.rs\<close>): what a replica publishes about itself
  while it runs and when it leaves, and how the tasks are set up from the configuration. The
  timer of the publisher is tokio's: how long each tick waits is a parameter, a list with one
  wait per tick, and the task ends where the list does, as it does when it is aborted. The JSON
  encoder of heartbeats is a parameter.
\<close>

section \<open>The model\<close>

text \<open>The two JSON halves a fleet shares.\<close>

record heartbeat_codec =
  hc_to_vec :: "HeartbeatPayload \<Rightarrow> string + bytes"
  hc_from_slice :: "bytes \<Rightarrow> string + HeartbeatPayload"

record PeerWorkers =
  pw_interval :: duration
  pw_heartbeat :: HeartbeatPayload
  pw_subscriber :: peer_params
  pw_leaving :: HeartbeatPayload

text \<open>The product is a \<^verbatim>\<open>u64\<close>, which wraps in a release build.\<close>

definition degraded_after :: "ClusterNatsConfig \<Rightarrow> duration" where
  "degraded_after cfg = duration_from_secs (nc_heartbeat_interval_sec (cfg_node cfg) * 2)"

definition PeerWorkers_start :: "heartbeat_codec \<Rightarrow> ClusterNatsConfig \<Rightarrow> string \<Rightarrow> PeerWorkers" where
  "PeerWorkers_start hc cfg started_at_rfc3339 =
     (let node_id = nc_id (cfg_node cfg);
          address = (case nc_address (cfg_node cfg) of Some a \<Rightarrow> a | None \<Rightarrow> []);
          heartbeat = \<lparr>hb_node_id = node_id, hb_address = address, hb_started_at = started_at_rfc3339,
            hb_leaving = False, hb_kv_index = True\<rparr>
      in \<lparr>pw_interval = duration_from_secs (nc_heartbeat_interval_sec (cfg_node cfg)),
          pw_heartbeat = heartbeat,
          pw_subscriber = \<lparr>pp_decode = hc_from_slice hc, pp_self = node_id,
            pp_degraded_after = degraded_after cfg,
            pp_expiry_after = duration_from_secs (nc_peer_expiry_sec (cfg_node cfg))\<rparr>,
          pw_leaving = heartbeat\<lparr>hb_leaving := True\<rparr>\<rparr>)"

definition heartbeat_subject :: "HeartbeatPayload \<Rightarrow> string" where
  "heartbeat_subject p = HEARTBEAT_SUBJECT_PREFIX @ ''.'' @ hb_node_id p"

text \<open>A failed publish is logged; the next tick publishes again.\<close>

primrec publisher_ticks :: "string \<Rightarrow> bytes \<Rightarrow> nat list \<Rightarrow> unit prog" where
  "publisher_ticks subject serialised [] = Done ()"
| "publisher_ticks subject serialised (t # ts) =
     await (sleep t) (\<lambda>_.
     await (nats_publish subject None serialised) (\<lambda>_.
       publisher_ticks subject serialised ts))"

definition publisher_loop :: "heartbeat_codec \<Rightarrow> HeartbeatPayload \<Rightarrow> nat list \<Rightarrow> unit prog" where
  "publisher_loop hc p ticks =
     (let subject = heartbeat_subject p;
          serialised = (case hc_to_vec hc p of Inr b \<Rightarrow> b | Inl _ \<Rightarrow> ''{}'')
      in await (nats_publish subject None serialised) (\<lambda>_. publisher_ticks subject serialised ticks))"

text \<open>
  Leaving: the publish and the flush run under a timeout whose only effect is the one of a
  failure, which is logged.
\<close>

definition leave :: "heartbeat_codec \<Rightarrow> PeerWorkers \<Rightarrow> unit prog" where
  "leave hc pw =
     (let subject = heartbeat_subject (pw_leaving pw);
          serialised = (case hc_to_vec hc (pw_leaving pw) of Inr b \<Rightarrow> b | Inl _ \<Rightarrow> [])
      in await (nats_publish subject None serialised) (\<lambda>r.
           case r of
             Inl _ \<Rightarrow> Done ()
           | Inr _ \<Rightarrow> await nats_flush (\<lambda>_. Done ())))"

definition snapshot_async :: "ClusterPeer list prog" where
  "snapshot_async = await read_peers (\<lambda>cache. Done (snapshot cache))"


section \<open>Properties\<close>

lemma subject_token_no_dot: "subject_token s \<Longrightarrow> CHR ''.'' \<notin> set s"
  using ascii_utf8_chars [of "CHR ''.''" s] by (auto simp: subject_token_def bad_id_char_def)

lemma heartbeat_subject_node: "subject_token (hb_node_id p) \<Longrightarrow> subject_node_id (heartbeat_subject p) = Some (hb_node_id p)"
  using subject_token_no_dot [of "hb_node_id p"] strip_prefix_append [of "HEARTBEAT_SUBJECT_PREFIX @ ''.''" "hb_node_id p"]
  by (simp add: subject_node_id_def heartbeat_subject_def subject_token_def)

lemma publisher_ticks_calls:
  "Q (Node (NatsPublish subject None b (\<lambda>_. ()))) \<Longrightarrow> (\<And>d. Q (Sleep d ())) \<Longrightarrow>
   all_calls Q (publisher_ticks subject b ts)"
  by (induction ts) (auto simp: sleep_def nats_publish_def comp_def)

text \<open>
  C37. What a node says about itself reaches its peers: with a valid configuration, all the publisher
  ever sends are heartbeats that another node files under this node's name as healthy, and the
  message sent on leaving removes exactly that entry.
\<close>

theorem heartbeats_understood:
  assumes "parse graphic from_str json = Inr cfg"
    and pw: "pw = PeerWorkers_start hc cfg started"
    and codec: "\<And>p. \<exists>b. hc_to_vec hc p = Inr b \<and> hc_from_slice hc b = Inr p"
    and P: "pp_decode P = hc_from_slice hc" "pp_self P \<noteq> nc_id (cfg_node cfg)"
  shows "all_calls (\<lambda>c. (\<exists>d. c = Sleep d ()) \<or> (\<exists>sj b. c = Node (NatsPublish sj None b (\<lambda>_. ()))
      \<and> (\<forall>cache i now. \<exists>e. map_of (fst (peer_step P cache (Heartbeat sj b i now))) (nc_id (cfg_node cfg)) = Some e
           \<and> pe_health e = Healthy \<and> pe_last_seen e = i \<and> pe_kv_index e
           \<and> pe_address e = or_default (nc_address (cfg_node cfg)) [])))
      (publisher_loop hc (pw_heartbeat pw) ticks)
    \<and> all_calls (\<lambda>c. c = Node (NatsFlush (\<lambda>_. ())) \<or> (\<exists>sj b. c = Node (NatsPublish sj None b (\<lambda>_. ()))
      \<and> (\<forall>cache i now. map_of (fst (peer_step P cache (Heartbeat sj b i now))) =
           (map_of cache) (nc_id (cfg_node cfg) := None))))
      (leave hc pw)"
proof
  let ?id = "nc_id (cfg_node cfg)"
  have id: "subject_token ?id"
    using parse_valid [OF assms(1)] by (simp add: valid_config_def)
  have ids: "hb_node_id (pw_heartbeat pw) = ?id" "hb_node_id (pw_leaving pw) = ?id" "hb_leaving (pw_leaving pw)"
    "\<not> hb_leaving (pw_heartbeat pw)" "hb_kv_index (pw_heartbeat pw)"
    "hb_address (pw_heartbeat pw) = or_default (nc_address (cfg_node cfg)) []"
    by (simp_all add: pw PeerWorkers_start_def Let_def or_default_def)
  obtain b where b: "hc_to_vec hc (pw_heartbeat pw) = Inr b" "hc_from_slice hc b = Inr (pw_heartbeat pw)"
    using codec by blast
  obtain l where l: "hc_to_vec hc (pw_leaving pw) = Inr l" "hc_from_slice hc l = Inr (pw_leaving pw)"
    using codec by blast
  have nodes: "subject_node_id (heartbeat_subject (pw_heartbeat pw)) = Some ?id"
    "subject_node_id (heartbeat_subject (pw_leaving pw)) = Some ?id"
    using heartbeat_subject_node id ids by metis+
  have "\<exists>e. map_of (fst (peer_step P cache (Heartbeat (heartbeat_subject (pw_heartbeat pw)) b i now))) ?id = Some e
           \<and> pe_health e = Healthy \<and> pe_last_seen e = i \<and> pe_kv_index e
           \<and> pe_address e = or_default (nc_address (cfg_node cfg)) []" for cache i now
    using P nodes b ids by (simp add: on_heartbeat_def Let_def update_conv')
  then show "all_calls (\<lambda>c. (\<exists>d. c = Sleep d ()) \<or> (\<exists>sj b. c = Node (NatsPublish sj None b (\<lambda>_. ()))
      \<and> (\<forall>cache i now. \<exists>e. map_of (fst (peer_step P cache (Heartbeat sj b i now))) ?id = Some e
           \<and> pe_health e = Healthy \<and> pe_last_seen e = i \<and> pe_kv_index e
           \<and> pe_address e = or_default (nc_address (cfg_node cfg)) [])))
      (publisher_loop hc (pw_heartbeat pw) ticks)"
    unfolding publisher_loop_def Let_def b(1) sum.case
    by (intro all_calls_await publisher_ticks_calls) (auto simp: nats_publish_def)
  have "map_of (fst (peer_step P cache (Heartbeat (heartbeat_subject (pw_leaving pw)) l i now))) =
           (map_of cache) (?id := None)" for cache i now
    using P nodes l ids by (simp add: on_heartbeat_def Let_def delete_conv')
  then show "all_calls (\<lambda>c. c = Node (NatsFlush (\<lambda>_. ())) \<or> (\<exists>sj b. c = Node (NatsPublish sj None b (\<lambda>_. ()))
      \<and> (\<forall>cache i now. map_of (fst (peer_step P cache (Heartbeat sj b i now))) =
           (map_of cache) (?id := None))))
      (leave hc pw)"
    unfolding leave_def Let_def l(1) sum.case
    by (intro all_calls_await) (auto simp: nats_publish_def nats_flush_def split: sum.splits)
qed

definition flag :: "bool \<Rightarrow> char" where
  "flag b = (if b then CHR ''1'' else CHR ''0'')"

definition ref_heartbeat :: heartbeat_codec where
  "ref_heartbeat = \<lparr>
     hc_to_vec = (\<lambda>p. Inr (flag (hb_leaving p) # flag (hb_kv_index p) # enc_str (hb_node_id p)
        @ enc_str (hb_address p) @ enc_str (hb_started_at p))),
     hc_from_slice = (\<lambda>v. case v of
        l # k # r \<Rightarrow>
          (case Option.bind (dec_str r) (\<lambda>(n, r1). Option.bind (dec_str r1) (\<lambda>(a, r2).
             map_option (\<lambda>(s, _). \<lparr>hb_node_id = n, hb_address = a, hb_started_at = s, hb_leaving = (l = CHR ''1''),
               hb_kv_index = (k = CHR ''1'')\<rparr>) (dec_str r2))) of
             Some p \<Rightarrow> Inr p | None \<Rightarrow> Inl ''not a heartbeat'')
      | _ \<Rightarrow> Inl ''too short'')\<rparr>"

lemma ref_heartbeat_codec: "\<exists>b. hc_to_vec ref_heartbeat p = Inr b \<and> hc_from_slice ref_heartbeat b = Inr p"
  using dec_enc_str [of "hb_started_at p" "[]"] by (simp add: ref_heartbeat_def flag_def)

theorem heartbeats_understood_witness:
  "\<exists>sj b. all_calls (\<lambda>c. (\<exists>d. c = Sleep d ()) \<or> c = Node (NatsPublish sj None b (\<lambda>_. ())))
       (publisher_loop ref_heartbeat (pw_heartbeat (PeerWorkers_start ref_heartbeat (small_config ''n1'') '''')) [7])
     \<and> map_of (fst (peer_step (pw_subscriber (PeerWorkers_start ref_heartbeat (small_config ''n2'') '''')) []
         (Heartbeat sj b 5 ''''))) ''n1'' \<noteq> None"
proof -
  let ?pw = "PeerWorkers_start ref_heartbeat (small_config ''n1'') ''''"
  let ?P = "pw_subscriber (PeerWorkers_start ref_heartbeat (small_config ''n2'') '''')"
  let ?sj = "heartbeat_subject (pw_heartbeat ?pw)"
  obtain b where b: "hc_to_vec ref_heartbeat (pw_heartbeat ?pw) = Inr b"
    using ref_heartbeat_codec by blast
  have P: "pp_decode ?P = hc_from_slice ref_heartbeat" "pp_self ?P \<noteq> nc_id (cfg_node (small_config ''n1''))"
    by (simp_all add: PeerWorkers_start_def Let_def)
  from heartbeats_understood [OF parse_small refl ref_heartbeat_codec P, of "''''" "[7]"]
  have "\<forall>cache i now. \<exists>e. map_of (fst (peer_step ?P cache (Heartbeat ?sj b i now))) ''n1'' = Some e"
    by (simp add: publisher_loop_def Let_def b nats_publish_def comp_def del: peer_step.simps) blast
  then have "map_of (fst (peer_step ?P [] (Heartbeat ?sj b 5 ''''))) ''n1'' \<noteq> None"
    by (metis option.distinct(1))
  moreover have "all_calls (\<lambda>c. (\<exists>d. c = Sleep d ()) \<or> c = Node (NatsPublish ?sj None b (\<lambda>_. ())))
       (publisher_loop ref_heartbeat (pw_heartbeat ?pw) [7])"
    unfolding publisher_loop_def Let_def b sum.case
    by (intro all_calls_await publisher_ticks_calls) (auto simp: nats_publish_def)
  ultimately show ?thesis
    by blast
qed

end
