(* ===== verification/Sweep.thy ===== *)
theory Sweep
  imports Kv_Scan Lease
begin

text \<open>
  The sweep task (\<^verbatim>\<open>src/src/sweep.rs\<close>): one task per replica that reports how full the
  buckets are, decides whether listings may read the key index, and, while it holds the sweep
  lease, sweeps the buckets and completes their index. What the task's select loop is handed is
  a list of rounds: which of its two timers fired, after which wait, and the named buckets open
  at that moment. The task ends where the list does, as it does when it is aborted. Metrics sent
  to the host and log lines have no counterpart, except for what a usage report decides to say.
\<close>

section \<open>The model\<close>

definition SWEEP_LEASE_KEY :: string where
  "SWEEP_LEASE_KEY = ''mcpg-kv-sweep''"

definition FIRST_SWEEP_DELAY :: duration where
  "FIRST_SWEEP_DELAY = duration_from_secs 10"

definition INDEX_GATE_INTERVAL :: duration where
  "INDEX_GATE_INTERVAL = duration_from_secs 2"

definition IDLE_INTERVAL_SEC :: u64 where
  "IDLE_INTERVAL_SEC = 60"

definition MARKER_GRACE :: duration where
  "MARKER_GRACE = duration_from_secs 60"

record SweepParams =
  sp_leases :: kv_store
  sp_fencing :: kv_store
  sp_node_id :: string
  sp_interval :: duration
  sp_sweep :: bool
  sp_state :: NatsKv
  sp_peer_expiry :: duration

record sweep_externals =
  sx_kv :: externals
  sx_lease :: lease_externals


subsection \<open>Reporting how full a bucket is\<close>

text \<open>
  A \<^verbatim>\<open>u64\<close> as an \<^verbatim>\<open>f64\<close>: 53 significant bits, rounded to the nearest, ties to even.
  The constant 0.8 is the double 7205759403792794 / 2 ^ 53, whose last bit is even, so the
  rounded quotient of two doubles reaches it exactly when the quotient reaches the middle
  between it and the double before it.
\<close>

fun f64_shift :: "nat \<Rightarrow> nat" where
  "f64_shift n = (if n < 2 ^ 53 then 0 else Suc (f64_shift (n div 2)))"

declare f64_shift.simps [simp del]

definition f64_of_nat :: "nat \<Rightarrow> nat" where
  "f64_of_nat n =
     (let e = f64_shift n; q = n div 2 ^ e; r = n mod 2 ^ e
      in if 2 * r > 2 ^ e \<or> 2 * r = 2 ^ e \<and> odd q then (q + 1) * 2 ^ e else q * 2 ^ e)"

definition at_least_80_percent :: "nat \<Rightarrow> nat \<Rightarrow> bool" where
  "at_least_80_percent bytes cap \<longleftrightarrow>
     (2 * 7205759403792794 - 1) * f64_of_nat cap \<le> f64_of_nat bytes * 2 ^ 54"

datatype usage_log = Quiet | AboveRatio | BelowAgain

definition report_usage ::
  "string \<Rightarrow> BucketUsage \<Rightarrow> (string \<Rightarrow> bool option) \<Rightarrow> usage_log \<times> (string \<Rightarrow> bool option)" where
  "report_usage name u full =
     (let over = (0 < bu_max_bytes u \<and> at_least_80_percent (unat (bu_bytes u)) (nat (bu_max_bytes u)));
          was = (case full name of Some b \<Rightarrow> b | None \<Rightarrow> False)
      in (if over then AboveRatio else if was then BelowAgain else Quiet, full(name \<mapsto> over)))"


subsection \<open>The index gate\<close>

definition peer_unindexed :: "bool prog" where
  "peer_unindexed = await read_peers (\<lambda>cache. Done (unindexed_peer_present cache))"

text \<open>Errors are logged; the next tick tries again.\<close>

definition gate_index :: "externals \<Rightarrow> NatsKv \<Rightarrow> bool \<Rightarrow> unit prog" where
  "gate_index x kv unindexed_peer =
     (if unindexed_peer then await (invalidate_index x kv) (\<lambda>_. Done ())
      else
        await (index_completed_at x kv) (\<lambda>r.
          case r of
            Inr completed \<Rightarrow> set_index_ready kv (completed \<noteq> None)
          | Inl _ \<Rightarrow> Done ()))"

definition unix_ms :: "u64 prog" where
  "unix_ms = await system_now (\<lambda>d. Done (case d of None \<Rightarrow> 0 | Some d \<Rightarrow> u64_try_from_or_max (as_millis d)))"

definition complete_index :: "externals \<Rightarrow> NatsKv \<Rightarrow> unit prog" where
  "complete_index x kv =
     await unix_ms (\<lambda>started_at_ms.
     await (backfill_index kv) (\<lambda>r.
       case r of
         Inl _ \<Rightarrow> Done ()
       | Inr _ \<Rightarrow>
           await peer_unindexed (\<lambda>unindexed.
             if unindexed then Done ()
             else
               await (mark_index_complete kv started_at_ms) (\<lambda>m.
                 case m of
                   Inl _ \<Rightarrow> Done ()
                 | Inr _ \<Rightarrow> set_index_ready kv True))))"


subsection \<open>A round\<close>

record sweep_task =
  stk_lease :: "NatsJetStreamLeaseHandle option"
  stk_full :: "string \<Rightarrow> bool option"
  stk_unindexed_seen :: "nat option"

record sweep_input =
  in_wait :: nat
  in_sweep_tick :: bool
  in_named :: "NatsKv list"

definition sweep_start :: sweep_task where
  "sweep_start = \<lparr>stk_lease = None, stk_full = Map.empty, stk_unindexed_seen = None\<rparr>"

primrec all_ready :: "NatsKv list \<Rightarrow> bool prog" where
  "all_ready [] = Done True"
| "all_ready (kv # kvs) = await (index_ready kv) (\<lambda>b. if b then all_ready kvs else Done False)"

primrec gate_pending :: "externals \<Rightarrow> NatsKv list \<Rightarrow> unit prog" where
  "gate_pending x [] = Done ()"
| "gate_pending x (kv # kvs) =
     await (index_ready kv) (\<lambda>b.
     await (if b then Done () else gate_index x kv False) (\<lambda>_. gate_pending x kvs))"

definition saw_unindexed :: "sweep_task \<Rightarrow> sweep_task prog" where
  "saw_unindexed st = await instant_now (\<lambda>t. Done (st\<lparr>stk_unindexed_seen := Some t\<rparr>))"

definition gate_round :: "externals \<Rightarrow> NatsKv list \<Rightarrow> sweep_task \<Rightarrow> sweep_task prog" where
  "gate_round x buckets st =
     await (all_ready buckets) (\<lambda>ready.
       if ready then Done st
       else
         await peer_unindexed (\<lambda>unindexed.
           if unindexed then saw_unindexed st
           else await (gate_pending x buckets) (\<lambda>_. Done st)))"

primrec report_all :: "NatsKv list \<Rightarrow> (string \<Rightarrow> bool option) \<Rightarrow> (string \<Rightarrow> bool option) prog" where
  "report_all [] full = Done full"
| "report_all (kv # kvs) full =
     await (usage kv) (\<lambda>u.
       report_all kvs (case u of Inr us \<Rightarrow> snd (report_usage (bucket kv) us full) | Inl _ \<Rightarrow> full))"

primrec gate_all :: "externals \<Rightarrow> bool \<Rightarrow> NatsKv list \<Rightarrow> unit prog" where
  "gate_all x unindexed [] = Done ()"
| "gate_all x unindexed (kv # kvs) = await (gate_index x kv unindexed) (\<lambda>_. gate_all x unindexed kvs)"

definition sweep_params :: "SweepParams \<Rightarrow> AcquireParams" where
  "sweep_params p =
     \<lparr>ap_leases = sp_leases p, ap_fencing = sp_fencing p,
      ap_key = SWEEP_LEASE_KEY @ ''.'' @ bucket (sp_state p), ap_node_id = sp_node_id p,
      ap_ttl_ms = u64_try_from_or_max (as_millis (sp_interval p) * 2), ap_wait = False,
      ap_renew_before_expiry_percent = 50\<rparr>"

text \<open>The lease held after this round's attempt, if any.\<close>

definition hold_sweep_lease ::
  "lease_externals \<Rightarrow> SweepParams \<Rightarrow> NatsJetStreamLeaseHandle option \<Rightarrow> NatsJetStreamLeaseHandle option prog" where
  "hold_sweep_lease x p lease =
     await (case lease of
              None \<Rightarrow> Done None
            | Some held \<Rightarrow>
                await (lease_renew x held) (\<lambda>r. Done (case r of Inr _ \<Rightarrow> Some held | Inl _ \<Rightarrow> None))) (\<lambda>kept.
       case kept of
         Some held \<Rightarrow> Done (Some held)
       | None \<Rightarrow>
           await (try_acquire_async x (sweep_params p)) (\<lambda>r.
             Done (case r of Inr got \<Rightarrow> got | Inl _ \<Rightarrow> None)))"

definition settled :: "SweepParams \<Rightarrow> sweep_task \<Rightarrow> bool prog" where
  "settled p st =
     (case stk_unindexed_seen st of
        None \<Rightarrow> Done True
      | Some seen \<Rightarrow> await instant_now (\<lambda>t. Done (as_nanos (sp_peer_expiry p) \<le> t - seen)))"

primrec sweep_buckets :: "sweep_externals \<Rightarrow> SweepParams \<Rightarrow> bool \<Rightarrow> sweep_task \<Rightarrow> NatsKv list \<Rightarrow> unit prog" where
  "sweep_buckets x p unindexed st [] = Done ()"
| "sweep_buckets x p unindexed st (kv # kvs) =
     await (if sp_sweep p then sweep (sx_kv x) kv MARKER_GRACE else Done (Inr SweepReport_default)) (\<lambda>_.
     await (settled p st) (\<lambda>calm.
     await (if \<not> unindexed \<and> calm
            then await (index_ready kv) (\<lambda>b. if b then Done () else complete_index (sx_kv x) kv)
            else Done ()) (\<lambda>_.
       sweep_buckets x p unindexed st kvs)))"

definition sweep_round ::
  "sweep_externals \<Rightarrow> SweepParams \<Rightarrow> NatsKv list \<Rightarrow> sweep_task \<Rightarrow> sweep_task prog" where
  "sweep_round x p buckets st0 =
     await (report_all buckets (stk_full st0)) (\<lambda>full.
     await peer_unindexed (\<lambda>unindexed.
     await (if unindexed then saw_unindexed (st0\<lparr>stk_full := full\<rparr>) else Done (st0\<lparr>stk_full := full\<rparr>)) (\<lambda>st.
     await (gate_all (sx_kv x) unindexed buckets) (\<lambda>_.
     await (hold_sweep_lease (sx_lease x) p (stk_lease st)) (\<lambda>lease.
       case lease of
         None \<Rightarrow> Done (st\<lparr>stk_lease := None\<rparr>)
       | Some held \<Rightarrow>
           await (sweep_buckets x p unindexed (st\<lparr>stk_lease := Some held\<rparr>) buckets) (\<lambda>_.
             Done (st\<lparr>stk_lease := Some held\<rparr>)))))))"

definition sweep_step :: "sweep_externals \<Rightarrow> SweepParams \<Rightarrow> sweep_task \<Rightarrow> sweep_input \<Rightarrow> sweep_task prog" where
  "sweep_step x p st i =
     await (sleep (in_wait i)) (\<lambda>_.
       if in_sweep_tick i then sweep_round x p (sp_state p # in_named i) st
       else gate_round (sx_kv x) (sp_state p # in_named i) st)"

primrec sweep_rounds :: "sweep_externals \<Rightarrow> SweepParams \<Rightarrow> sweep_task \<Rightarrow> sweep_input list \<Rightarrow> sweep_task prog" where
  "sweep_rounds x p st [] = Done st"
| "sweep_rounds x p st (i # is) = await (sweep_step x p st i) (\<lambda>st'. sweep_rounds x p st' is)"

definition sweep_run :: "sweep_externals \<Rightarrow> SweepParams \<Rightarrow> sweep_input list \<Rightarrow> sweep_task prog" where
  "sweep_run x p is =
     await (sleep (min (as_nanos FIRST_SWEEP_DELAY) (as_nanos (sp_interval p)))) (\<lambda>_.
       sweep_rounds x p sweep_start is)"

end
