(* ===== verification/Calls.thy ===== *)
theory Calls
  imports Sweep
begin

text \<open>
  Which calls the programs of the crate can make, whatever the outside answers. The locales name
  a predicate on calls by the ordinary calls it admits; inside them every program that makes no
  other calls is shown to satisfy it, once for all the predicates the theorems use.
\<close>

named_theorems calls \<open>programs that make admitted calls only\<close>

text \<open>The calls to JetStream, to the clocks and to the cells that tasks share, except for switching a flag on.\<close>

locale ordinary_calls =
  fixes ok :: "unit action \<Rightarrow> bool"
  assumes jetstream_ok: "(\<forall>f. c \<noteq> StoreFlag f True ()) \<Longrightarrow> (\<forall>a. c \<noteq> Node a) \<Longrightarrow> ok c"
    and load_text_ok: "ok (Node (LoadText f k))"
    and store_text_ok: "ok (Node (StoreText f t ()))"
    and read_peers_ok: "ok (Node (ReadPeers j))"
begin

lemma calls_calls [calls, simp]:
  "all_calls ok system_now" "all_calls ok instant_now" "all_calls ok (sleep d)" "all_calls ok (get_last_raw st sj)"
  "all_calls ok (publish_with_headers sj h b)" "all_calls ok (purge_subject st sj n)" "all_calls ok (create_consumer st c)"
  "all_calls ok (consumer_messages st cn)" "all_calls ok (delete_consumer st cn)" "all_calls ok (info_with_subjects st sj)"
  "all_calls ok (stream_info_call st)" "all_calls ok (kv_update ks k b m)" "all_calls ok (kv_delete_key ks k)"
  "all_calls ok (kv_delete_expect ks k m)" "all_calls ok (load_flag f)" "all_calls ok (store_text f t)" "all_calls ok (load_text f)"
  "all_calls ok read_peers" "all_calls ok (store_flag f False)"
  by (simp_all add: call_defs jetstream_ok load_text_ok store_text_ok read_peers_ok)

lemma calls_branch [calls]:
  "(\<And>e. s = Inl e \<Longrightarrow> all_calls ok (f e)) \<Longrightarrow> (\<And>a. s = Inr a \<Longrightarrow> all_calls ok (g a)) \<Longrightarrow> all_calls ok (case s of Inl e \<Rightarrow> f e | Inr a \<Rightarrow> g a)"
  "all_calls ok n \<Longrightarrow> (\<And>v. all_calls ok (j v)) \<Longrightarrow> all_calls ok (case opt of None \<Rightarrow> n | Some v \<Rightarrow> j v)"
  "all_calls ok p \<Longrightarrow> all_calls ok q \<Longrightarrow> all_calls ok (if b then p else q)"
  "(\<And>u v. all_calls ok (k u v)) \<Longrightarrow> all_calls ok (case pr of (u, v) \<Rightarrow> k u v)"
  by (simp_all split: sum.splits option.splits prod.splits)

lemma calls_await [calls]:
  "all_calls ok p \<Longrightarrow> (\<And>a. all_calls ok (f a)) \<Longrightarrow> all_calls ok (await p f)"
  "all_calls ok p' \<Longrightarrow> (\<And>a. all_calls ok (f' a)) \<Longrightarrow> all_calls ok (await_ok p' f')"
  by (rule all_calls_await, simp_all) (rule all_calls_await_ok)

lemma calls_Done [calls]: "all_calls ok (Done a)"
  by simp

lemma calls_reads [calls]:
  "all_calls ok now_unix_secs" "all_calls ok (last_record x ks k)" "all_calls ok (is_expired e)" "all_calls ok (slot ext kv enc key)"
  "all_calls ok now_rfc3339" "all_calls ok (rfc3339_after d)" "all_calls ok (expiry_for d)" "all_calls ok (lease_is_expired rec)" "all_calls ok (usage kv)"
  "all_calls ok (index_completed_at ext kv)" "all_calls ok peer_unindexed" "all_calls ok (invalidate_index ext kv)"
proof -
  show now: "all_calls ok now_unix_secs" and last: "all_calls ok (last_record x ks k)" for x ks k
    by (auto simp: now_unix_secs_def last_record_def intro!: calls split: last_result.splits)
  then show exp: "all_calls ok (is_expired e)" for e
    by (auto simp: is_expired_def intro!: calls)
  with last show slot: "all_calls ok (slot ext kv enc key)" for ext kv enc key
    by (auto simp: slot_def Let_def intro!: calls)
  show after: "all_calls ok now_rfc3339" "all_calls ok (rfc3339_after d)" for d
    by (auto simp: now_rfc3339_def rfc3339_after_def intro!: calls)
  with now show "all_calls ok (expiry_for d)" "all_calls ok (lease_is_expired rec)" for d rec
    by (auto simp: expiry_for_def lease_is_expired_def intro!: calls)
  show "all_calls ok (usage kv)"
    by (auto simp: usage_def intro!: calls)
  show at: "all_calls ok (index_completed_at ext kv)" for ext kv
    using slot by (auto simp: index_completed_at_def intro!: calls)
  show "all_calls ok peer_unindexed"
    by (auto simp: peer_unindexed_def intro!: calls)
  show "all_calls ok (invalidate_index ext kv)"
    using at by (auto simp: invalidate_index_def set_index_ready_def intro!: calls)
qed

lemma calls_writes [calls]:
  "all_calls ok (publish_record kv enc h pl)" "all_calls ok (publish_index kv key)" "all_calls ok (kv_write kv enc val e ex)"
  "all_calls ok (purge_through kv sj n)" "all_calls ok (purge_index kv key)" "all_calls ok (write_index kv key)"
  "all_calls ok (reindex_if_live ext kv key)" "all_calls ok (drop_consumer kv c)" "all_calls ok (record_consumer kv ds fl po ra)"
proof -
  show rec: "all_calls ok (publish_record kv enc h pl)" for kv enc h pl
    by (auto simp: publish_record_def intro!: calls)
  show index: "all_calls ok (publish_index kv key)" for kv key
    using rec by (auto simp: publish_index_def publish_def intro!: calls)
  show "all_calls ok (kv_write kv enc val e ex)"
    using rec by (auto simp: kv_write_def publish_def intro!: calls)
  show purge: "all_calls ok (purge_through kv sj n)" for kv sj n
    by (auto simp: purge_through_def intro!: calls)
  show "all_calls ok (purge_index kv key)"
    using purge by (auto simp: purge_index_def intro!: calls)
  show w_index: "all_calls ok (write_index kv key)" for kv key
    using index by (auto simp: write_index_def intro!: calls)
  show "all_calls ok (reindex_if_live ext kv key)"
    using w_index by (auto simp: reindex_if_live_def intro!: calls)
  show "all_calls ok (drop_consumer kv c)" "all_calls ok (record_consumer kv ds fl po ra)"
    by (auto simp: drop_consumer_def record_consumer_def intro!: calls)
qed

lemma calls_remove_dead [calls]: "all_calls ok (remove_dead ext kv sj n)"
  by (auto simp: remove_dead_def Let_def intro!: calls split: option.splits)

lemma calls_remove_each [calls]: "all_calls ok (remove_each ext kv ds)"
  by (induction ds) (auto intro!: calls)

lemma calls_settle_legacy [calls]: "all_calls ok (settle_legacy ext kv enc n)"
proof -
  have "all_calls ok (case r of Inl Conflict \<Rightarrow> Done (Inr LegacyMoved) | Inl (Failed e) \<Rightarrow> Done (Inl e) | Inr _ \<Rightarrow> p)"
    if "all_calls ok p" for r and p :: "LegacyOutcome res prog"
    using that by (auto split: sum.splits WriteError.splits)
  then show ?thesis
    by (auto simp: settle_legacy_def split: sum.splits option.splits prod.splits WriteError.splits
        intro!: calls_await calls_reads calls_writes calls_remove_dead)
qed

lemma calls_settle_each [calls]: "all_calls ok (settle_each ext kv ls)"
  by (induction ls) (auto intro!: calls)

lemma calls_sweep [calls]: "all_calls ok (sweep ext kv grace)"
  by (auto simp: sweep_def remove_all_dead_def intro!: calls split: sum.splits)

lemma calls_backfill_loop [calls]: "all_calls ok (backfill_loop kv now fl n evs)"
proof (induction evs arbitrary: fl n)
  case (Cons ev evs)
  then show ?case
    by (cases ev) (auto simp: Let_def intro!: calls)
qed simp

lemma calls_backfill [calls]: "all_calls ok (backfill_index kv)"
  by (auto simp: backfill_index_def intro!: calls split: sum.splits prod.splits)

lemma calls_bump [calls]: "all_calls ok (bump_fencing_token lx ks key)"
proof -
  have "all_calls ok (bump_fencing_token_loop n lx ks path)" for n path
    by (induction n) (auto simp: Let_def intro!: calls)
  then show ?thesis
    by (simp add: bump_fencing_token_def)
qed

lemma calls_leases [calls]: "all_calls ok (try_acquire_async lx ps)" "all_calls ok (lease_renew lx h)"
proof -
  have reclaim: "all_calls ok (reclaim_if_expired lx ks key rec val)" for ks key rec val
    by (auto simp: reclaim_if_expired_def intro!: calls)
  have create: "all_calls ok (try_create lx ks key rec)" for ks key rec
    using reclaim by (auto simp: try_create_def Let_def intro!: calls)
  have mint: "all_calls ok (mint_record lx ps ttl)" for ttl
    by (auto simp: mint_record_def intro!: calls)
  have spawn: "all_calls ok (spawn_lease_handle ks rec key ttl percent)" for ks rec key ttl percent
    by (auto simp: spawn_lease_handle_def intro!: calls)
  show "all_calls ok (try_acquire_async lx ps)"
    using create mint spawn by (auto simp: try_acquire_async_def intro!: calls split: AcquireOutcome.splits)
  have held: "all_calls ok (read_held lx inner)" for inner
    by (auto simp: read_held_def intro!: calls)
  show "all_calls ok (lease_renew lx h)"
    using held by (auto simp: lease_renew_def renew_inner_def Let_def intro!: calls)
qed

lemma calls_rounds [calls]:
  "all_calls ok (report_all kvs full)" "all_calls ok (gate_index ext kv True)" "all_calls ok (gate_all ext True kvs)"
  "all_calls ok (hold_sweep_lease lx p held)" "all_calls ok (settled p st)" "all_calls ok (saw_unindexed st)" "all_calls ok (all_ready kvs)"
proof -
  show "all_calls ok (report_all kvs full)"
    by (induction kvs arbitrary: full) (auto intro!: calls)
  show gate: "all_calls ok (gate_index ext kv True)" for kv
    by (auto simp: gate_index_def intro!: calls)
  show "all_calls ok (gate_all ext True kvs)"
    using gate by (induction kvs) (auto intro!: calls)
  show "all_calls ok (hold_sweep_lease lx p held)" "all_calls ok (settled p st)" "all_calls ok (saw_unindexed st)"
    by (auto simp: hold_sweep_lease_def settled_def saw_unindexed_def intro!: calls)
  show "all_calls ok (all_ready kvs)"
    by (induction kvs) (auto simp: index_ready_def intro!: calls)
qed

lemma calls_sweep_buckets [calls]: "all_calls ok (sweep_buckets x p True st kvs)"
  by (induction kvs) (auto intro!: calls)

end

section \<open>The operations of a store\<close>

context ordinary_calls
begin

lemma calls_waits [calls]:
  "all_calls ok (expires_at_from ttl)" "all_calls ok (cas_backoff n)" "all_calls ok (publish kv enc val e ex)"
  "all_calls ok (publish_marker kv enc)" "all_calls ok (undo_index ext kv key r)" "all_calls ok (unindex ext kv key)"
proof -
  show "all_calls ok (expires_at_from ttl)"
    by (auto simp: expires_at_from_def intro!: calls)
  show "all_calls ok (cas_backoff n)"
    by (auto simp: cas_backoff_def Let_def intro!: calls)
  show "all_calls ok (publish kv enc val e ex)" "all_calls ok (publish_marker kv enc)"
    by (auto simp: publish_def publish_marker_def intro!: calls)
  show un: "all_calls ok (unindex ext kv key)"
    by (auto simp: unindex_def intro!: calls)
  show "all_calls ok (undo_index ext kv key r)"
    using un by (auto simp: undo_index_def intro!: calls)
qed

lemma calls_written [calls]:
  "all_calls ok q \<Longrightarrow> (\<And>err. all_calls ok (f err)) \<Longrightarrow> all_calls ok (case e of Conflict \<Rightarrow> q | Failed err \<Rightarrow> f err)"
  by (auto split: WriteError.splits)

lemma calls_slot [calls]:
  "(\<And>v e n. all_calls ok (f v e n)) \<Longrightarrow> (\<And>n. all_calls ok (g n)) \<Longrightarrow> all_calls ok p \<Longrightarrow>
   all_calls ok (case s of Live v e n \<Rightarrow> f v e n | Empty \<Rightarrow> p | Dead n \<Rightarrow> g n)"
  by (auto split: Slot.splits)

lemma calls_simple_ops [calls]:
  "all_calls ok (get ext kv key)" "all_calls ok (put ext kv key val ttl)" "all_calls ok (delete ext kv key)"
  by (auto simp: get_def put_def delete_def Let_def intro!: calls)

lemma calls_put_if_absent [calls]: "all_calls ok (put_if_absent ext kv key val ttl)"
proof -
  have "all_calls ok (put_if_absent_loop ext kv key val e n att ex)" for e n att ex
    by (induction n arbitrary: att ex) (auto simp: Let_def intro!: calls)
  then show ?thesis
    by (auto simp: put_if_absent_def intro!: calls)
qed

lemma calls_expire [calls]: "all_calls ok (expire ext kv key ttl)"
proof -
  have "all_calls ok (expire_loop ext kv key ttl n att)" for n att
    by (induction n arbitrary: att) (auto intro!: calls)
  then show ?thesis
    by (simp add: expire_def)
qed

lemma calls_update_counter [calls]: "all_calls ok (update_counter ext kv op key ttl step)"
proof -
  have read: "all_calls ok (counter_read ext ttl s)" for s
    by (auto simp: counter_read_def intro!: calls)
  have "all_calls ok (update_counter_loop ext kv op key ttl step n att)" for n att
    using read by (induction n arbitrary: att) (auto simp: Let_def intro!: calls)
  then show ?thesis
    by (simp add: update_counter_def)
qed

lemma calls_counters [calls]:
  "all_calls ok (incr ext kv key delta ttl)" "all_calls ok (incr_floor ext kv key delta floor ttl)"
  by (auto simp: incr_def incr_floor_def intro!: calls)

lemma calls_list_page [calls]: "all_calls ok (list_page ext kv pre cursor limit)"
proof -
  have "all_calls ok (live_reads ext kv ks)" for ks
    by (induction ks) (auto simp: live_read_def intro!: calls)
  then have page: "all_calls ok (live_entries ext kv ks)" for ks
    by (auto simp: live_entries_def intro!: calls)
  then have subjects: "all_calls ok (subjects_page ext kv ks after n)" for ks after n
    by (auto simp: subjects_page_def intro!: calls)
  have scan: "all_calls ok (scan_page ext kv pre n ix after)" for n ix after
    using page by (auto simp: scan_page_def intro!: calls split: sum.splits prod.splits option.splits)
  show ?thesis
    using subjects scan
    by (auto simp: list_page_def indexed_keys_def index_ready_def Let_def intro!: calls
        split: option.splits sum.splits prod.splits)
qed

end


section \<open>Leases\<close>

context ordinary_calls
begin

lemma calls_kv_reads [calls]: "all_calls ok (kv_keys ks)" "all_calls ok (kv_entry ks k)"
  by (simp_all add: call_defs jetstream_ok)

lemma calls_acquire_steps [calls]:
  "all_calls ok (mint_record lx ps ttl)" "all_calls ok (try_create lx ks key rec)"
  "all_calls ok (spawn_lease_handle ks rec key ttl percent)" "all_calls ok (wrap_handle_sync h)"
proof -
  have reclaim: "all_calls ok (reclaim_if_expired lx ks key rec val)" for ks key rec val
    by (auto simp: reclaim_if_expired_def intro!: calls)
  show "all_calls ok (try_create lx ks key rec)"
    using reclaim by (auto simp: try_create_def Let_def intro!: calls)
qed (auto simp: mint_record_def spawn_lease_handle_def wrap_handle_sync_def intro!: calls)

lemma calls_acquire [calls]:
  "all_calls ok (acquire_async rounds lx ps)" "all_calls ok (acquire rounds lx ps)" "all_calls ok (try_acquire lx ps)"
proof -
  have "all_calls ok (acquire_loop n lx ps t)" for n t
    by (induction n) (auto intro!: calls split: AcquireOutcome.splits)
  then show "all_calls ok (acquire_async rounds lx ps)"
    by (auto simp: acquire_async_def intro!: calls)
  then show "all_calls ok (acquire rounds lx ps)"
    by (auto simp: acquire_def intro!: calls split: option.splits sum.splits)
  show "all_calls ok (try_acquire lx ps)"
    by (auto simp: try_acquire_def intro!: calls)
qed

lemma calls_held_leases [calls]:
  "all_calls ok (renew_inner lx inner)" "all_calls ok (release_async lx inner)"
  "all_calls ok (enumerate_held_roles lx ks self)"
proof -
  have held: "all_calls ok (read_held lx inner)"
    by (auto simp: read_held_def intro!: calls)
  then show "all_calls ok (renew_inner lx inner)" "all_calls ok (release_async lx inner)"
    by (auto simp: renew_inner_def release_async_def Let_def intro!: calls)
  have "all_calls ok (held_roles_loop lx ks self roles names)" for roles names
    by (induction names arbitrary: roles) (auto intro!: calls split: sum.splits option.splits)
  then show "all_calls ok (enumerate_held_roles lx ks self)"
    by (auto simp: enumerate_held_roles_def intro!: calls)
qed

end

section \<open>What a connected plugin calls\<close>

text \<open>All the calls but those that open a connection or a bucket.\<close>

locale host_calls = ordinary_calls +
  assumes store_flag_ok: "ok (StoreFlag f b ())"
    and nats_ok: "ok (Node (NatsPublish sj h v k))" "ok (Node (NatsFlush k))" "ok (Node (NatsSubscribe sj g j))"
begin

lemma calls_host [calls, simp]:
  "all_calls ok (store_flag f b)" "all_calls ok (nats_publish sj h v)" "all_calls ok nats_flush"
  "all_calls ok (nats_subscribe sj g)"
  by (simp_all add: call_defs store_flag_ok nats_ok)

lemma calls_index_marks [calls]:
  "all_calls ok (set_index_ready kv b)" "all_calls ok (index_ready kv)" "all_calls ok (mark_index_complete kv t)"
  "all_calls ok (complete_index_if_empty kv)" "all_calls ok unix_ms"
proof -
  show mark: "all_calls ok (mark_index_complete kv t)" for t
    by (auto simp: mark_index_complete_def intro!: calls)
  show "all_calls ok (complete_index_if_empty kv)"
    using mark by (auto simp: complete_index_if_empty_def intro!: calls)
qed (auto simp: set_index_ready_def index_ready_def unix_ms_def intro!: calls)

end

end
