(* ===== verification/Sweep_Safety.thy ===== *)
theory Sweep_Safety
  imports Calls
begin

text \<open>
  What the sweep task may do to the flags that let listings read the index. The peers a replica
  sees and the flags are parts of the world: reading the peers answers them, no call changes
  them, and a flag changes when it is stored only. Every program that does not let listings read
  an index is shown to make only such calls, whatever is answered.
\<close>

section \<open>Calls that switch no flag on\<close>

definition calm_call :: "unit action \<Rightarrow> bool" where
  "calm_call c = (case c of StoreFlag _ b _ \<Rightarrow> \<not> b | _ \<Rightarrow> True)"

abbreviation calm :: "'a prog \<Rightarrow> bool" where
  "calm p \<equiv> all_calls calm_call p"


interpretation calm: ordinary_calls calm_call
  by unfold_locales (auto simp: calm_call_def split: action.splits)

section \<open>The world of a replica\<close>

definition flags_fall :: "('w \<Rightarrow> string \<Rightarrow> bool) \<Rightarrow> 'w \<Rightarrow> 'w \<Rightarrow> bool" where
  "flags_fall F w w' \<longleftrightarrow> (\<forall>f. F w' f \<longrightarrow> F w f)"

lemma flags_fall_refl [simp]: "flags_fall F w w"
  by (simp add: flags_fall_def)

lemma flags_fall_trans: "flags_fall F a b \<Longrightarrow> flags_fall F b c \<Longrightarrow> flags_fall F a c"
  by (auto simp: flags_fall_def)

text \<open>
  Other tasks while an older peer is alive: it stays in the cache, and they switch no flag on.
\<close>

definition still_unindexed :: "('w \<Rightarrow> PeerCache) \<Rightarrow> ('w \<Rightarrow> string \<Rightarrow> bool) \<Rightarrow> 'w \<Rightarrow> 'w \<Rightarrow> bool" where
  "still_unindexed P F w w' \<longleftrightarrow> (unindexed_peer_present (P w) \<longrightarrow> unindexed_peer_present (P w')) \<and> flags_fall F w w'"

lemma still_unindexed_rtranclp:
  "(still_unindexed P F)\<^sup>*\<^sup>* w w' \<Longrightarrow> still_unindexed P F w w'"
  by (induction rule: rtranclp_induct) (auto simp: still_unindexed_def intro: flags_fall_trans)

locale replica =
  fixes S :: "'w server" and P :: "'w \<Rightarrow> PeerCache" and F :: "'w \<Rightarrow> string \<Rightarrow> bool"
  assumes read_peers_answers: "sv_read_peers S w = (c, w') \<Longrightarrow> c = P w"
    and calls_keep_peers: "perform S w (act :: unit action) = (u, w') \<Longrightarrow> P w' = P w"
    and store_flag_sets: "F (sv_store_flag S w f b) = (F w)(f := b)"
    and calls_keep_flags: "perform S w (act :: unit action) = (u, w') \<Longrightarrow> (\<forall>f b v. act \<noteq> StoreFlag f b v) \<Longrightarrow> F w' = F w"
begin

abbreviation "while_unindexed p Q w \<equiv> wpr S (still_unindexed P F) (flags_fall F) p Q w"

abbreviation "old_peer w \<equiv> unindexed_peer_present (P w)"

lemma perform_peers: "perform S w act = (x, w') \<Longrightarrow> P w' = P w"
  using calls_keep_peers [of w "map_action (\<lambda>_. ()) act"] by simp

lemma calm_flags: "perform S w act = (x, w') \<Longrightarrow> calm_call (map_action (\<lambda>_. ()) act) \<Longrightarrow> flags_fall F w w'"
proof -
  assume pw: "perform S w act = (x, w')" and calm: "calm_call (map_action (\<lambda>_. ()) act)"
  have pu: "perform S w (map_action (\<lambda>_. ()) act) = ((), w')"
    using pw by simp
  show ?thesis
  proof (cases "\<exists>f b v. map_action (\<lambda>_. ()) act = StoreFlag f b v")
    case True
    then obtain f v where "map_action (\<lambda>_. ()) act = StoreFlag f False v"
      using calm by (auto simp: calm_call_def)
    with pu store_flag_sets show ?thesis
      by (auto simp: flags_fall_def split: if_splits)
  next
    case False
    with calls_keep_flags [OF pu] show ?thesis
      by (simp add: flags_fall_def)
  qed
qed

text \<open>A calm program switches no flag on, and an older peer stays seen.\<close>

lemma wpr_calm: "calm p \<Longrightarrow> while_unindexed p (\<lambda>_ w'. still_unindexed P F w w') w"
proof (induction p arbitrary: w)
  case (Done a)
  then show ?case by (simp add: still_unindexed_def)
next
  case (Do act)
  show ?case
    unfolding wpr_Do
  proof (intro allI impI)
    fix w1 assume "(still_unindexed P F)\<^sup>*\<^sup>* w w1"
    then have w1: "still_unindexed P F w w1"
      by (rule still_unindexed_rtranclp)
    obtain p' w2 where pw: "perform S w1 act = (p', w2)"
      by fastforce
    have calm: "calm_call (map_action (\<lambda>_. ()) act)" "calm p'"
      using Do.prems perform_in_set [OF pw] unfolding all_calls_Do by blast+
    then have fall: "flags_fall F w1 w2"
      using calm_flags [OF pw] by simp
    have to: "still_unindexed P F w w2"
      using w1 fall perform_peers [OF pw] by (auto simp: still_unindexed_def intro: flags_fall_trans)
    have "while_unindexed p' (\<lambda>_ w'. still_unindexed P F w2 w') w2"
      by (rule Do.IH [OF perform_in_set [OF pw] calm(2)])
    then have "while_unindexed p' (\<lambda>_ w'. still_unindexed P F w w') w2"
      by (rule wpr_mono) (use to in \<open>auto simp: still_unindexed_def intro: flags_fall_trans\<close>)
    with fall pw show "case perform S w1 act of (p, w2) \<Rightarrow> flags_fall F w1 w2
        \<and> while_unindexed p (\<lambda>_ w'. still_unindexed P F w w') w2"
      by simp
  qed
qed

lemma wpr_peer_unindexed: "old_peer w \<Longrightarrow> while_unindexed peer_unindexed (\<lambda>r w'. r \<and> still_unindexed P F w w') w"
proof -
  assume old: "old_peer w"
  have "r = True \<and> still_unindexed P F w w2 \<and> flags_fall F w1 w2"
    if "(still_unindexed P F)\<^sup>*\<^sup>* w w1" "sv_read_peers S w1 = (c, w2)" "r = unindexed_peer_present c" for w1 w2 c r
  proof -
    have w1: "still_unindexed P F w w1"
      using that(1) by (rule still_unindexed_rtranclp)
    have "perform S w1 (Node (ReadPeers (\<lambda>_. ()))) = ((), w2)"
      using that(2) by simp
    then have "P w2 = P w1" "F w2 = F w1"
      using calls_keep_peers calls_keep_flags by blast+
    with w1 old read_peers_answers [OF that(2)] that(3) show ?thesis
      by (auto simp: still_unindexed_def flags_fall_def)
  qed
  then show ?thesis
    by (auto simp: peer_unindexed_def wpr_await wpr_calls split: prod.splits)
qed

lemma still_trans: "still_unindexed P F a b \<Longrightarrow> still_unindexed P F b c \<Longrightarrow> still_unindexed P F a c"
  by (auto simp: still_unindexed_def intro: flags_fall_trans)

text \<open>Closing the gate of a bucket switches its flag off, and nothing switches it on again.\<close>

lemma wpr_close_gate:
  "while_unindexed (gate_index x kv True) (\<lambda>_ w'. still_unindexed P F w w' \<and> \<not> F w' (bucket kv)) w"
proof -
  have off: "while_unindexed (set_index_ready kv False) (\<lambda>_ w'. still_unindexed P F w w' \<and> \<not> F w' (bucket kv)) w"
  proof -
    have "still_unindexed P F w (sv_store_flag S w1 (bucket kv) False)
        \<and> flags_fall F w1 (sv_store_flag S w1 (bucket kv) False) \<and> \<not> F (sv_store_flag S w1 (bucket kv) False) (bucket kv)"
      if "(still_unindexed P F)\<^sup>*\<^sup>* w w1" for w1
      using still_unindexed_rtranclp [OF that] calls_keep_peers [of w1 "StoreFlag (bucket kv) False ()" "()"]
        store_flag_sets [of w1 "bucket kv" False] by (auto simp: still_unindexed_def flags_fall_def)
    then show ?thesis
      by (simp add: set_index_ready_def wpr_calls)
  qed
  have rest: "calm (await_ok (index_completed_at x kv) (\<lambda>at. if at \<noteq> None
        then await (kv_delete_key (store kv) INDEX_STATE_KEY) (\<lambda>r. Done (map_err (\<lambda>e. BackendUnavailable (''nats kv index invalidate: '' @ e)) r))
        else Done (Inr ())))"
    by (auto intro!: calls)
  show ?thesis
    unfolding gate_index_def invalidate_index_def if_True wpr_await
    by (rule wpr_mono [OF off], rule wpr_mono [OF wpr_calm [OF rest]])
      (auto simp: flags_fall_def still_unindexed_def)
qed

lemma wpr_close_gates:
  "while_unindexed (gate_all x True kvs) (\<lambda>_ w'. still_unindexed P F w w' \<and> (\<forall>kv\<in>set kvs. \<not> F w' (bucket kv))) w"
proof (induction kvs arbitrary: w)
  case (Cons kv kvs)
  show ?case
    unfolding gate_all.simps wpr_await
  proof (rule wpr_mono [OF wpr_close_gate])
    fix u w1 assume "still_unindexed P F w w1 \<and> \<not> F w1 (bucket kv)"
    then show "while_unindexed (gate_all x True kvs) (\<lambda>_ w'. still_unindexed P F w w' \<and> (\<forall>kv\<in>set (kv # kvs). \<not> F w' (bucket kv))) w1"
      by (intro wpr_mono [OF Cons.IH]) (auto simp: still_unindexed_def flags_fall_def)
  qed
qed (simp add: still_unindexed_def)

end

context replica
begin

lemma wpr_stays:
  "calm p \<Longrightarrow> (\<And>a b. I a \<Longrightarrow> still_unindexed P F a b \<Longrightarrow> I b) \<Longrightarrow> I w \<Longrightarrow> while_unindexed p (\<lambda>_. I) w"
  by (rule wpr_mono [OF wpr_calm])

lemma old_still: "old_peer w \<Longrightarrow> still_unindexed P F w w' \<Longrightarrow> old_peer w'"
  by (simp add: still_unindexed_def)

lemma wpr_still: "calm p \<Longrightarrow> still_unindexed P F v w \<Longrightarrow> while_unindexed p (\<lambda>_ w'. still_unindexed P F v w') w"
  by (rule wpr_stays) (auto intro: still_trans)

abbreviation "closed v kvs w \<equiv> still_unindexed P F v w \<and> (\<forall>kv\<in>set kvs. \<not> F w (bucket kv))"

lemma closed_still: "closed v kvs a \<Longrightarrow> still_unindexed P F a b \<Longrightarrow> closed v kvs b"
  by (auto simp: still_unindexed_def flags_fall_def)

lemma wpr_gates_then:
  assumes "still_unindexed P F v w" "calm rest"
  shows "while_unindexed (await (gate_all x True kvs) (\<lambda>_. rest)) (\<lambda>_ w'. closed v kvs w') w"
  unfolding wpr_await
proof (rule wpr_mono [OF wpr_close_gates])
  fix u w1 assume "closed w kvs w1"
  then show "while_unindexed rest (\<lambda>_ w'. closed v kvs w') w1"
    using assms still_trans by (intro wpr_stays [OF assms(2) closed_still]) blast+
qed

lemma wpr_sweep_round:
  assumes "old_peer w"
  shows "while_unindexed (sweep_round x p kvs st) (\<lambda>_ w'. closed w kvs w') w"
  unfolding sweep_round_def wpr_await [where p = "report_all kvs (stk_full st)"]
proof (rule wpr_mono [OF wpr_calm])
  show "calm (report_all kvs (stk_full st))"
    by (rule calls)
  fix full w1 assume w1: "still_unindexed P F w w1"
  let ?st = "st\<lparr>stk_full := full\<rparr>"
  let ?last = "\<lambda>u st. await (hold_sweep_lease (sx_lease x) p (stk_lease st)) (\<lambda>lease. case lease of
      None \<Rightarrow> Done (st\<lparr>stk_lease := None\<rparr>)
    | Some held \<Rightarrow> await (sweep_buckets x p u (st\<lparr>stk_lease := Some held\<rparr>) kvs) (\<lambda>_. Done (st\<lparr>stk_lease := Some held\<rparr>)))"
  have last_part: "calm (?last True st')" for st'
    by (auto intro!: calls)
  have "while_unindexed (await (saw_unindexed ?st) (\<lambda>st'. await (gate_all (sx_kv x) True kvs) (\<lambda>_. ?last True st')))
      (\<lambda>_ w'. closed w kvs w') w2" if "still_unindexed P F w w2" for w2
    unfolding wpr_await [where p = "saw_unindexed ?st"]
    by (rule wpr_mono [OF wpr_stays [where I = "still_unindexed P F w"]])
      (use that last_part still_trans in \<open>auto intro!: calls wpr_gates_then\<close>)
  then show "while_unindexed (await peer_unindexed (\<lambda>u. await (if u then saw_unindexed ?st else Done ?st)
      (\<lambda>st'. await (gate_all (sx_kv x) u kvs) (\<lambda>_. ?last u st')))) (\<lambda>_ w'. closed w kvs w') w1"
    unfolding wpr_await [where p = peer_unindexed]
    by (intro wpr_mono [OF wpr_peer_unindexed [OF old_still [OF assms w1]]]) (use w1 still_trans in auto)
qed

lemma wpr_gate_round:
  assumes "old_peer w"
  shows "while_unindexed (gate_round x kvs st) (\<lambda>_ w'. still_unindexed P F w w') w"
  unfolding gate_round_def wpr_await [where p = "all_ready kvs"]
proof (rule wpr_mono [OF wpr_calm])
  show "calm (all_ready kvs)"
    by (rule calls)
  fix ready w1 assume w1: "still_unindexed P F w w1"
  have "while_unindexed (await peer_unindexed (\<lambda>u. if u then saw_unindexed st else await (gate_pending x kvs) (\<lambda>_. Done st)))
      (\<lambda>_ w'. still_unindexed P F w w') w1"
    unfolding wpr_await [where p = peer_unindexed]
    by (intro wpr_mono [OF wpr_peer_unindexed [OF old_still [OF assms w1]]])
      (use w1 still_trans in \<open>auto intro!: calls wpr_still\<close>)
  with w1 show "while_unindexed (if ready then Done st else await peer_unindexed (\<lambda>u. if u then saw_unindexed st
      else await (gate_pending x kvs) (\<lambda>_. Done st))) (\<lambda>_ w'. still_unindexed P F w w') w1"
    by simp
qed

lemma wpr_sweep_step:
  assumes "old_peer w"
  shows "while_unindexed (sweep_step x p st i)
    (\<lambda>_ w'. still_unindexed P F w w' \<and> (in_sweep_tick i \<longrightarrow> (\<forall>kv\<in>set (sp_state p # in_named i). \<not> F w' (bucket kv)))) w"
  unfolding sweep_step_def wpr_await
proof (rule wpr_mono [OF wpr_calm])
  fix u w1 assume w1: "still_unindexed P F w w1"
  note old = old_still [OF assms w1]
  show "while_unindexed (if in_sweep_tick i then sweep_round x p (sp_state p # in_named i) st
      else gate_round (sx_kv x) (sp_state p # in_named i) st)
    (\<lambda>_ w'. still_unindexed P F w w' \<and> (in_sweep_tick i \<longrightarrow> (\<forall>kv\<in>set (sp_state p # in_named i). \<not> F w' (bucket kv)))) w1"
  proof (cases "in_sweep_tick i")
    case True
    show ?thesis
      unfolding if_P [OF True]
      by (rule wpr_mono [OF wpr_sweep_round [OF old]]) (use w1 still_trans in auto)
  next
    case False
    show ?thesis
      unfolding if_not_P [OF False]
      by (rule wpr_mono [OF wpr_gate_round [OF old]]) (use False w1 still_trans in auto)
  qed
qed simp

lemma wpr_sweep_rounds: "old_peer w \<Longrightarrow> while_unindexed (sweep_rounds x p st is) (\<lambda>_ w'. still_unindexed P F w w') w"
proof (induction "is" arbitrary: st w)
  case (Cons i "is")
  show ?case
    unfolding sweep_rounds.simps wpr_await
  proof (rule wpr_mono [OF wpr_sweep_step [OF Cons.prems]])
    fix st' w1
    assume "still_unindexed P F w w1 \<and> (in_sweep_tick i \<longrightarrow> (\<forall>kv\<in>set (sp_state p # in_named i). \<not> F w1 (bucket kv)))"
    then show "while_unindexed (sweep_rounds x p st' is) (\<lambda>_ w'. still_unindexed P F w w') w1"
      by (intro wpr_mono [OF Cons.IH]) (auto intro: still_trans old_still [OF Cons.prems])
  qed
qed (simp add: still_unindexed_def)

lemma wpr_sweep_run: "old_peer w \<Longrightarrow> while_unindexed (sweep_run x p is) (\<lambda>_ w'. still_unindexed P F w w') w"
  unfolding sweep_run_def wpr_await
  by (rule wpr_mono [OF wpr_calm]) (auto intro: wpr_mono [OF wpr_sweep_rounds] still_trans old_still)

end

end
