(* ===== verification/Sweep_Theorems.thy ===== *)
theory Sweep_Theorems
  imports Sweep_Safety Lease_Theorems
begin



lemma ref_msgs_flags [simp]:
  "rw_flags (store_msg w b k h p) = rw_flags w" "rw_peers (store_msg w b k h p) = rw_peers w"
  "rw_flags (drop_msg w b k) = rw_flags w" "rw_peers (drop_msg w b k) = rw_peers w"
  by (simp_all add: store_msg_def drop_msg_def)






section \<open>Properties\<close>





lemma f64_of_nat_small: "n < 2 ^ 53 \<Longrightarrow> f64_of_nat n = n"
  by (subst f64_of_nat_def, subst f64_shift.simps) simp

text \<open>
  C36. The warning about a full bucket is exact up to nine quadrillion bytes: in spite of the rounding
  of floating-point numbers, it is given just when four fifths of the cap are reached.
\<close>

theorem usage_warning_exact:
  assumes "unat (bu_bytes u) < 2 ^ 53" "bu_max_bytes u < 2 ^ 53"
  shows "fst (report_usage name u full) = AboveRatio \<longleftrightarrow>
    0 < bu_max_bytes u \<and> 4 * bu_max_bytes u \<le> 5 * uint (bu_bytes u)"
proof -
  let ?b = "unat (bu_bytes u)" and ?c = "nat (bu_max_bytes u)"
  have c: "?c < 2 ^ 53"
    using assms(2) by (simp add: nat_less_iff)
  have "at_least_80_percent ?b ?c \<longleftrightarrow> 4 * ?c \<le> 5 * ?b"
    unfolding at_least_80_percent_def f64_of_nat_small [OF assms(1)] f64_of_nat_small [OF c]
  proof
    assume "(2 * 7205759403792794 - 1) * ?c \<le> ?b * 2 ^ 54"
    then have "14411518807585587 * ?c \<le> 18014398509481984 * ?b"
      by simp
    moreover have "?c < 9007199254740992"
      using c by simp
    ultimately show "4 * ?c \<le> 5 * ?b"
      by linarith
  next
    assume "4 * ?c \<le> 5 * ?b"
    then have "14411518807585587 * ?c \<le> 18014398509481984 * ?b"
      by linarith
    then show "(2 * 7205759403792794 - 1) * ?c \<le> ?b * 2 ^ 54"
      by simp
  qed
  moreover have "4 * ?c \<le> 5 * ?b \<longleftrightarrow> 4 * bu_max_bytes u \<le> 5 * uint (bu_bytes u)" if "0 < bu_max_bytes u"
  proof -
    have "uint (bu_bytes u) = int ?b" "bu_max_bytes u = int ?c"
      using that by auto
    then show ?thesis by linarith
  qed
  ultimately show ?thesis
    by (auto simp: report_usage_def Let_def)
qed

theorem usage_warning_exact_witness:
  "fst (report_usage ''state'' \<lparr>bu_bytes = 80, bu_messages = 3, bu_max_bytes = 100\<rparr> Map.empty) = AboveRatio"
  using usage_warning_exact [of "\<lparr>bu_bytes = 80, bu_messages = 3, bu_max_bytes = 100\<rparr>"] by simp

end
