(* ===== verification/Client.thy ===== *)
theory Client
  imports Jetstream Config
begin

text \<open>
  The connection (\<^verbatim>\<open>src/src/client.rs\<close>): connect options with their TLS and
  authentication, the buckets the plugin needs, created or raised to their byte cap, and the
  buckets capabilities ask for by name. The parsers of server addresses, of credentials and of
  certificates are parameters. Installing the process-wide crypto provider has no counterpart.
\<close>

section \<open>The model\<close>

definition CARGO_PKG_VERSION :: string where
  "CARGO_PKG_VERSION = ''0.1.1''"

record client_externals =
  cx_parse_addr :: "string \<Rightarrow> string + string"
  cx_credentials :: "string \<Rightarrow> string + unit"
  cx_pem_certs :: "string \<Rightarrow> string + string list"
  cx_add_certs :: "string list \<Rightarrow> nat \<times> nat"

record NatsClientHandle =
  ch_leases :: kv_store
  ch_fencing :: kv_store
  ch_state :: kv_store
  ch_js :: js_context
  ch_api_prefix :: string
  ch_state_bucket :: string
  ch_replicas :: u32
  ch_storage :: storage_type
  ch_named_max_bytes :: int

text \<open>\<^verbatim>\<open>i64::try_from(n).unwrap_or(i64::MAX)\<close>.\<close>

definition i64_try_from_or_max :: "u64 \<Rightarrow> int" where
  "i64_try_from_or_max n = (if uint n < 2 ^ 63 then uint n else 2 ^ 63 - 1)"


subsection \<open>Connect options\<close>

fun server_addrs :: "client_externals \<Rightarrow> string list \<Rightarrow> string + string list" where
  "server_addrs x [] = Inr []"
| "server_addrs x (url # urls) =
     (case cx_parse_addr x (trim url) of
        Inl e \<Rightarrow> Inl (''nats connect: `'' @ url @ ''` is not a NATS server URL: '' @ e)
      | Inr addr \<Rightarrow>
          (case server_addrs x urls of Inl e \<Rightarrow> Inl e | Inr addrs \<Rightarrow> Inr (addr # addrs)))"

definition inline_ca_client_config :: "client_externals \<Rightarrow> string \<Rightarrow> string + connect_roots" where
  "inline_ca_client_config x pem =
     (case cx_pem_certs x pem of
        Inl e \<Rightarrow> Inl (''nats tls.ca_cert: invalid inline PEM: '' @ e)
      | Inr certs \<Rightarrow>
          if certs = [] then
            Inl ''nats tls.ca_cert: inline PEM holds no CERTIFICATE section (is it a key or credentials blob?)''
          else
            (case cx_add_certs x certs of (added, ignored) \<Rightarrow>
               if added = 0 \<or> 0 < ignored then
                 Inl (''nats tls.ca_cert: inline PEM: '' @ dec_of_nat added @ '' of '' @ dec_of_nat (length certs)
                   @ '' certificate(s) usable as a trust root, '' @ dec_of_nat ignored @ '' rejected'')
               else Inr (RootCertificates certs)))"

definition with_auth :: "client_externals \<Rightarrow> AuthConfig option \<Rightarrow> connect_options \<Rightarrow> (string + connect_options) prog" where
  "with_auth x auth opts =
     (case auth of
        None \<Rightarrow> Done (Inr opts)
      | Some (Token t) \<Rightarrow> Done (Inr (opts\<lparr>co_auth := Some (AuthToken t)\<rparr>))
      | Some (UserPassword user password) \<Rightarrow>
          Done (Inr (opts\<lparr>co_auth := Some (AuthUserPassword user password)\<rparr>))
      | Some (AuthConfig.CredentialsFile path) \<Rightarrow>
          await (credentials_file path) (\<lambda>r.
            case r of
              Inl e \<Rightarrow> Done (Inl (''nats credentials_file '' @ path @ '': '' @ e))
            | Inr creds \<Rightarrow> Done (Inr (opts\<lparr>co_auth := Some (AuthCredentials creds)\<rparr>)))
      | Some (Credentials creds) \<Rightarrow>
          (case cx_credentials x creds of
             Inl e \<Rightarrow> Done (Inl (''nats auth.creds (inline credentials): '' @ e))
           | Inr _ \<Rightarrow> Done (Inr (opts\<lparr>co_auth := Some (AuthCredentials creds)\<rparr>))))"

definition with_tls :: "client_externals \<Rightarrow> TlsConfig option \<Rightarrow> connect_options \<Rightarrow> string + connect_options" where
  "with_tls x tls_cfg opts =
     (case tls_cfg of
        None \<Rightarrow> Inr (opts\<lparr>co_require_tls := True\<rparr>)
      | Some tls \<Rightarrow>
          (case (case tls_ca_cert tls of
                   None \<Rightarrow> Inr (co_roots opts)
                 | Some ca \<Rightarrow>
                     if is_inline_pem ca then inline_ca_client_config x ca
                     else Inr (RootCertificatesFile ca)) of
             Inl e \<Rightarrow> Inl e
           | Inr roots \<Rightarrow> Inr (opts\<lparr>co_roots := roots, co_require_tls := tls_require_tls tls\<rparr>)))"

definition build_connect_options :: "client_externals \<Rightarrow> ClusterNatsConfig \<Rightarrow> (string + connect_options) prog" where
  "build_connect_options x cfg =
     (let opts = \<lparr>co_name = ''mcpg-cluster-nats-jetstream/'' @ CARGO_PKG_VERSION @ '' ('' @ nc_id (cfg_node cfg) @ '')'',
            co_connection_timeout = duration_from_millis (cc_connect_timeout_ms (cfg_connection cfg)),
            co_request_timeout = duration_from_millis (cc_operation_timeout_ms (cfg_connection cfg)),
            co_auth = None, co_roots = SystemRoots, co_require_tls = False\<rparr>
      in await_ok (with_auth x (cfg_auth cfg) opts) (\<lambda>o1. Done (with_tls x (cfg_tls cfg) o1)))"


subsection \<open>Buckets\<close>

definition looks_like_insufficient_peers :: "string \<Rightarrow> bool" where
  "looks_like_insufficient_peers msg \<longleftrightarrow>
     (let m = map to_ascii_lower msg in
      contains_str m ''insufficient replicas'' \<or> contains_str m ''no suitable peers''
      \<or> contains_str m ''not enough peers''
      \<or> contains_str m ''replicas'' \<and> (contains_str m ''not'' \<or> contains_str m ''insufficient''))"

text \<open>A refusal is logged, and the bucket keeps its cap.\<close>

definition grow_bucket :: "js_context \<Rightarrow> stream_config \<Rightarrow> int \<Rightarrow> unit prog" where
  "grow_bucket js config max_bytes =
     (let current = sc_max_bytes config in
      if current < 0 \<or> max_bytes \<le> current then Done ()
      else await (update_stream js (config\<lparr>sc_max_bytes := max_bytes\<rparr>)) (\<lambda>_. Done ()))"

definition ensure_kv_bucket :: "js_context \<Rightarrow> string \<Rightarrow> u32 \<Rightarrow> int \<Rightarrow> storage_type \<Rightarrow> kv_store res prog" where
  "ensure_kv_bucket js name replicas max_bytes storage =
     await (get_key_value js name) (\<lambda>g.
       case g of
         Inr (kv, config) \<Rightarrow> await (grow_bucket js config max_bytes) (\<lambda>_. Done (Inr kv))
       | Inl _ \<Rightarrow>
           (let make_config = (\<lambda>reps. \<lparr>kc_bucket = name, kc_max_bytes = max_bytes, kc_num_replicas = unat reps,
                                        kc_storage = storage\<rparr>)
            in await (create_key_value js (make_config replicas)) (\<lambda>c.
                 case c of
                   Inr kv \<Rightarrow> Done (Inr kv)
                 | Inl e \<Rightarrow>
                     if 1 < replicas \<and> looks_like_insufficient_peers e then
                       await (create_key_value js (make_config 1)) (\<lambda>c1.
                         Done (map_err (\<lambda>e. BackendUnavailable (''nats kv ensure_bucket '' @ name
                           @ '' (after replica fallback): '' @ e)) c1))
                     else Done (Inl (BackendUnavailable (''nats kv ensure_bucket '' @ name @ '': '' @ e))))))"

definition bucket_char :: "string \<Rightarrow> string" where
  "bucket_char ch =
     (case ch of
        [c] \<Rightarrow> if is_ascii_alphanumeric c \<or> c = CHR ''-'' \<or> c = CHR ''_'' then ch else ''_''
      | _ \<Rightarrow> ''_'')"

definition named_bucket_name :: "string \<Rightarrow> string \<Rightarrow> string" where
  "named_bucket_name state_bucket name = state_bucket @ ''-'' @ concat (map bucket_char (utf8_chars name))"

definition named_bucket :: "NatsClientHandle \<Rightarrow> string \<Rightarrow> kv_store res prog" where
  "named_bucket h name =
     ensure_kv_bucket (ch_js h) (named_bucket_name (ch_state_bucket h) name) (ch_replicas h)
       (ch_named_max_bytes h) (ch_storage h)"


subsection \<open>Connecting\<close>

definition js_domain :: "JetStreamConfig \<Rightarrow> js_context \<times> string" where
  "js_domain js =
     (case jc_domain js of
        Some domain \<Rightarrow>
          if domain \<noteq> [] then (Some domain, ''$JS.'' @ domain @ ''.API'') else (None, ''$JS.API'')
      | None \<Rightarrow> (None, ''$JS.API''))"

definition storage_of :: "KvStorage \<Rightarrow> storage_type" where
  "storage_of s = (case s of File \<Rightarrow> FileStorage | Memory \<Rightarrow> MemoryStorage)"

definition open_buckets :: "ClusterNatsConfig \<Rightarrow> NatsClientHandle res prog" where
  "open_buckets cfg =
     (let jc = cfg_jetstream cfg; storage = storage_of (jc_storage jc) in
      case js_domain jc of (js, api_prefix) \<Rightarrow>
        await_ok (ensure_kv_bucket js (jc_leases_bucket jc) (jc_replicas jc) (1024 * 1024) storage) (\<lambda>leases.
        await_ok (ensure_kv_bucket js (jc_fencing_bucket jc) (jc_replicas jc) (64 * 1024) storage) (\<lambda>fencing.
        await_ok (ensure_kv_bucket js (jc_state_bucket jc) (jc_replicas jc)
                    (i64_try_from_or_max (jc_state_bucket_max_bytes jc)) storage) (\<lambda>state.
          Done (Inr \<lparr>ch_leases = leases, ch_fencing = fencing, ch_state = state, ch_js = js,
                     ch_api_prefix = api_prefix, ch_state_bucket = jc_state_bucket jc,
                     ch_replicas = jc_replicas jc, ch_storage = storage,
                     ch_named_max_bytes = i64_try_from_or_max (jc_named_bucket_max_bytes jc)\<rparr>)))))"

definition connect :: "client_externals \<Rightarrow> ClusterNatsConfig \<Rightarrow> NatsClientHandle res prog" where
  "connect x cfg =
     await (build_connect_options x cfg) (\<lambda>o1.
       case o1 of
         Inl reason \<Rightarrow> Done (Inl (BackendUnavailable reason))
       | Inr opts \<Rightarrow>
           (case server_addrs x (cfg_servers cfg) of
              Inl reason \<Rightarrow> Done (Inl (BackendUnavailable reason))
            | Inr servers \<Rightarrow>
                await (connect_within opts servers (unat (cc_connect_timeout_ms (cfg_connection cfg)))) (\<lambda>c.
                  case c of
                    None \<Rightarrow> Done (Inl (BackendUnavailable (''nats connect: timeout after ''
                      @ u64_to_string (cc_connect_timeout_ms (cfg_connection cfg)) @ ''ms'')))
                  | Some (Inl e) \<Rightarrow> Done (Inl (BackendUnavailable (''nats connect: '' @ e)))
                  | Some (Inr _) \<Rightarrow> open_buckets cfg)))"

section \<open>The administration of buckets\<close>

text \<open>
  What the calls do to the configurations of buckets, per JetStream context: reading answers the
  current one, creating touches no bucket that is there, and an update replaces the
  configuration of the bucket whose stream it names, or does nothing.
\<close>

type_synonym 'w buckets = "'w \<Rightarrow> js_context \<Rightarrow> string \<Rightarrow> stream_config option"

definition same_buckets :: "'w buckets \<Rightarrow> 'w \<Rightarrow> 'w \<Rightarrow> bool" where
  "same_buckets C w w' \<longleftrightarrow> C w' = C w"

definition raised :: "stream_config \<Rightarrow> stream_config \<Rightarrow> bool" where
  "raised c c' \<longleftrightarrow> (\<exists>m. c' = c\<lparr>sc_max_bytes := m\<rparr>
     \<and> (m = sc_max_bytes c \<or> 0 \<le> sc_max_bytes c \<and> sc_max_bytes c < m))"

definition caps_grow :: "'w buckets \<Rightarrow> 'w \<Rightarrow> 'w \<Rightarrow> bool" where
  "caps_grow C w w' \<longleftrightarrow> (\<forall>js b c. C w js b = Some c \<longrightarrow> (\<exists>c'. C w' js b = Some c' \<and> raised c c'))"

lemma raised_refl [simp]: "raised c c"
  unfolding raised_def by (intro exI [of _ "sc_max_bytes c"]) simp

lemma caps_grow_same: "C w' = C w \<Longrightarrow> caps_grow C w w'"
  by (simp add: caps_grow_def)

lemma same_buckets_rtranclp: "(same_buckets C)\<^sup>*\<^sup>* w w' \<Longrightarrow> C w' = C w"
  by (induction rule: rtranclp_induct) (simp_all add: same_buckets_def)

locale bucket_admin =
  fixes S :: "'w server" and C :: "'w buckets"
  assumes get_bucket: "sv_get_key_value S w js b = (r, w') \<Longrightarrow>
      C w' = C w \<and> (case r of Inl _ \<Rightarrow> True | Inr (kv, c) \<Rightarrow> C w js b = Some c \<and> sc_name c = kv_stream b)"
    and create_bucket: "sv_create_key_value S w js kc = (rc, w') \<Longrightarrow> C w js' b = Some c \<Longrightarrow> C w' js' b = Some c"
    and update_bucket: "sv_update_stream S w js c = (ru, w') \<Longrightarrow> sc_name c = kv_stream b \<Longrightarrow>
      C w' = C w \<or> C w' = (C w)(js := (C w js)(b \<mapsto> c))"
    and connect_buckets: "sv_connect S w opts servers ms = (rn, w') \<Longrightarrow> C w' = C w"
    and credentials_buckets: "sv_credentials_file S w p = (rp, w') \<Longrightarrow> C w' = C w"
begin

abbreviation "keeps_caps p Q w \<equiv> wpr S (same_buckets C) (caps_grow C) p Q w"

lemma wpr_grow_bucket:
  assumes "C w js b = Some config" "sc_name config = kv_stream b"
  shows "keeps_caps (grow_bucket js config max_bytes) (\<lambda>_ _. True) w"
proof (cases "sc_max_bytes config < 0 \<or> max_bytes \<le> sc_max_bytes config")
  case False
  let ?c = "config\<lparr>sc_max_bytes := max_bytes\<rparr>"
  have "caps_grow C w1 w2" if "(same_buckets C)\<^sup>*\<^sup>* w w1" "sv_update_stream S w1 js ?c = (r, w2)" for w1 r w2
  proof -
    have w1: "C w1 = C w"
      using same_buckets_rtranclp [OF that(1)] .
    have "raised config ?c"
      using False by (auto simp: raised_def)
    then show ?thesis
      using update_bucket [OF that(2), of b] assms w1 by (auto simp: caps_grow_def)
  qed
  then show ?thesis
    using False by (auto simp: grow_bucket_def Let_def wpr_await wpr_calls split: prod.splits)
qed (auto simp: grow_bucket_def Let_def)

lemma caps_grow_create: "sv_create_key_value S w js kc = (r, w') \<Longrightarrow> caps_grow C w w'"
  using create_bucket by (fastforce simp: caps_grow_def)

lemma wpr_create: "(\<And>r w'. Q r w') \<Longrightarrow> keeps_caps (create_key_value js kc) Q w"
  by (auto simp: wpr_calls caps_grow_create split: prod.splits)

lemma wpr_ensure_kv_bucket: "keeps_caps (ensure_kv_bucket js name replicas max_bytes storage) (\<lambda>_ _. True) w"
proof -
  have "keeps_caps (get_key_value js name) (\<lambda>g w'. case g of Inl _ \<Rightarrow> True
      | Inr (kv, c) \<Rightarrow> C w' js name = Some c \<and> sc_name c = kv_stream name) w"
    using get_bucket by (fastforce simp: wpr_calls caps_grow_same split: prod.splits sum.splits)
  then show ?thesis
    unfolding ensure_kv_bucket_def wpr_await
    by (rule wpr_mono)
      (auto simp: Let_def wpr_await intro!: wpr_create wpr_mono [OF wpr_grow_bucket] split: sum.splits prod.splits)
qed

lemma wpr_open_buckets: "keeps_caps (open_buckets cfg) (\<lambda>_ _. True) w"
  unfolding open_buckets_def Let_def
  by (auto simp: wpr_await_ok split: prod.splits sum.splits intro!: wpr_mono [OF wpr_ensure_kv_bucket])

lemma wpr_credentials: "(\<And>r w'. Q r w') \<Longrightarrow> keeps_caps (credentials_file p) Q w"
  using credentials_buckets by (fastforce simp: wpr_calls caps_grow_same split: prod.splits)

lemma wpr_options: "keeps_caps (build_connect_options x cfg) (\<lambda>_ _. True) w"
proof -
  have "keeps_caps (with_auth x auth opts) (\<lambda>_ _. True) w" for auth opts
    by (auto simp: with_auth_def wpr_await intro!: wpr_credentials split: option.splits AuthConfig.splits sum.splits)
  then show ?thesis
    unfolding build_connect_options_def Let_def wpr_await_ok
    by (rule wpr_mono) (simp split: sum.splits)
qed

lemma wpr_connect_within: "(\<And>r w'. Q r w') \<Longrightarrow> keeps_caps (connect_within opts servers ms) Q w"
  using connect_buckets by (fastforce simp: wpr_calls caps_grow_same split: prod.splits)

lemma wpr_connect: "keeps_caps (connect x cfg) (\<lambda>_ _. True) w"
  unfolding connect_def wpr_await
  by (rule wpr_mono [OF wpr_options])
    (auto simp: wpr_await split: sum.splits option.splits intro!: wpr_connect_within wpr_open_buckets)

end


section \<open>Every call of a connection\<close>

text \<open>The trust roots and the need for TLS that a configuration asks for.\<close>

definition tls_wanted :: "ClusterNatsConfig \<Rightarrow> bool" where
  "tls_wanted cfg = (case cfg_tls cfg of None \<Rightarrow> True | Some tls \<Rightarrow> tls_require_tls tls)"

definition roots_of :: "connect_roots \<Rightarrow> TlsConfig option \<Rightarrow> client_externals \<Rightarrow> bool" where
  "roots_of roots tls x =
     (case Option.bind tls tls_ca_cert of
        None \<Rightarrow> roots = SystemRoots
      | Some ca \<Rightarrow>
          if is_inline_pem ca then \<exists>certs. cx_pem_certs x ca = Inr certs \<and> certs \<noteq> [] \<and> roots = RootCertificates certs
            \<and> 0 < fst (cx_add_certs x certs) \<and> snd (cx_add_certs x certs) = 0
          else roots = RootCertificatesFile ca)"

definition auth_of :: "connect_auth option \<Rightarrow> AuthConfig option \<Rightarrow> bool" where
  "auth_of sent auth =
     (case auth of
        None \<Rightarrow> sent = None
      | Some (Token t) \<Rightarrow> sent = Some (AuthToken t)
      | Some (UserPassword u p) \<Rightarrow> sent = Some (AuthUserPassword u p)
      | Some (AuthConfig.CredentialsFile _) \<Rightarrow> \<exists>creds. sent = Some (AuthCredentials creds)
      | Some (Credentials creds) \<Rightarrow> sent = Some (AuthCredentials creds))"

definition secure_connect :: "client_externals \<Rightarrow> ClusterNatsConfig \<Rightarrow> connect_options \<Rightarrow> bool" where
  "secure_connect x cfg opts \<longleftrightarrow> co_require_tls opts = tls_wanted cfg
     \<and> roots_of (co_roots opts) (cfg_tls cfg) x \<and> auth_of (co_auth opts) (cfg_auth cfg)"

text \<open>A call a connection may make: to connect as configured, or about buckets and credentials.\<close>

definition secure_call :: "client_externals \<Rightarrow> ClusterNatsConfig \<Rightarrow> unit action \<Rightarrow> bool" where
  "secure_call x cfg c =
     (case c of
        Node a \<Rightarrow>
          (case a of
             Connect opts servers _ _ \<Rightarrow>
               secure_connect x cfg opts \<and> server_addrs x (cfg_servers cfg) = Inr servers
           | node_action.CredentialsFile _ _ \<Rightarrow> True
           | GetKeyValue _ _ _ \<Rightarrow> True
           | CreateKeyValue _ _ _ \<Rightarrow> True
           | UpdateStream _ _ _ \<Rightarrow> True
           | _ \<Rightarrow> False)
      | _ \<Rightarrow> False)"

end
