(* ===== verification/Coordinator.thy ===== *)
theory Coordinator
  imports Client Peer_Tasks Pub_Sub Sweep
begin

text \<open>
  The coordinator (\<^verbatim>\<open>src/src/lib.rs\<close>): the object the host holds. It has the parsed
  configuration, and a cell that stays empty until the first connection succeeds; then the cell
  holds the client, the peer workers, the state store, the stores opened by name and the sweep
  task, for good. Every operation takes the coordinator and answers with its result and the
  coordinator afterwards. \<^verbatim>\<open>OnceCell\<close> runs one initialisation at a time and the map of named
  buckets is locked while a bucket is opened, so each of the two changes of this state is made by
  one caller at a time; the calls to the outside in between are interleaved with everyone else's
  as everywhere in the development.

  The tasks that \<^verbatim>\<open>get_or_init_connected\<close> spawns are given by what they are started with: the
  publisher is \<open>publisher_loop\<close> on the heartbeat of the peer workers, the subscriber
  \<open>subscriber_loop\<close> on their parameters, the sweep task \<open>sweep_run\<close> on the sweep
  parameters. The asynchronous trait (\<^verbatim>\<open>ClusterBackend\<close>) and the one the host calls through
  function pointers (\<^verbatim>\<open>SyncClusterBackend\<close>) differ in how they reach the connection; waiting
  on the bundled runtime is running the program.
\<close>

section \<open>The model\<close>

text \<open>What other crates provide: the parsers and codecs, and the version the server reports.\<close>

record plugin_externals =
  px_client :: client_externals
  px_kv :: externals
  px_lease :: lease_externals
  px_heartbeat :: heartbeat_codec
  px_server_version :: string
  px_graphic :: "string \<Rightarrow> bool"
  px_from_str :: "string \<Rightarrow> string + raw_config"
  px_is_manifest_probe :: "string \<Rightarrow> bool"

text \<open>
  The named stores in the order they were opened; the code keeps them in a hash map, whose order
  is not specified.
\<close>

record NatsPrimitives =
  np_kv :: NatsKv
  np_named :: "(string \<times> NatsKv) list"

record Connected =
  cn_client :: NatsClientHandle
  cn_peers :: PeerWorkers
  cn_primitives :: NatsPrimitives
  cn_sweeper :: SweepParams

record NatsJetStreamInner =
  ni_config :: ClusterNatsConfig
  ni_started_at :: string
  ni_connected :: "Connected option"

type_synonym 'a op = "NatsJetStreamInner \<Rightarrow> ('a \<times> NatsJetStreamInner) prog"


subsection \<open>The connection\<close>

text \<open>An error is logged.\<close>

definition complete_if_empty :: "NatsKv \<Rightarrow> unit prog" where
  "complete_if_empty kv = await (complete_index_if_empty kv) (\<lambda>_. Done ())"

definition open_kv :: "plugin_externals \<Rightarrow> NatsClientHandle \<Rightarrow> kv_store \<Rightarrow> NatsKv" where
  "open_kv x client st = NatsKv_new st (ch_api_prefix client) (px_server_version x)"

definition connected_kv ::
  "plugin_externals \<Rightarrow> Connected \<Rightarrow> string option \<Rightarrow> (NatsKv res \<times> Connected) prog" where
  "connected_kv x c bucket_name =
     (case bucket_name of
        None \<Rightarrow> Done (Inr (np_kv (cn_primitives c)), c)
      | Some name \<Rightarrow>
          (case map_of (np_named (cn_primitives c)) name of
             Some kv \<Rightarrow> Done (Inr kv, c)
           | None \<Rightarrow>
               await (named_bucket (cn_client c) name) (\<lambda>r.
                 case r of
                   Inl e \<Rightarrow> Done (Inl e, c)
                 | Inr st \<Rightarrow>
                     (let kv = open_kv x (cn_client c) st in
                      await (set_index_ready kv False) (\<lambda>_.
                      await (complete_if_empty kv) (\<lambda>_.
                        Done (Inr kv, c\<lparr>cn_primitives := (cn_primitives c)
                          \<lparr>np_named := np_named (cn_primitives c) @ [(name, kv)]\<rparr>\<rparr>)))))))"

definition sweeper_params :: "ClusterNatsConfig \<Rightarrow> NatsClientHandle \<Rightarrow> NatsKv \<Rightarrow> SweepParams" where
  "sweeper_params cfg client kv =
     (let sweep_interval_sec = jc_sweep_interval_sec (cfg_jetstream cfg) in
      \<lparr>sp_leases = ch_leases client, sp_fencing = ch_fencing client, sp_node_id = nc_id (cfg_node cfg),
       sp_interval = duration_from_secs (if 0 < sweep_interval_sec then sweep_interval_sec else IDLE_INTERVAL_SEC),
       sp_sweep = (0 < sweep_interval_sec), sp_state = kv,
       sp_peer_expiry = duration_from_secs (nc_peer_expiry_sec (cfg_node cfg))\<rparr>)"

definition init_connected :: "plugin_externals \<Rightarrow> NatsJetStreamInner \<Rightarrow> Connected res prog" where
  "init_connected x inner =
     await_ok (connect (px_client x) (ni_config inner)) (\<lambda>client.
       let peers = PeerWorkers_start (px_heartbeat x) (ni_config inner) (ni_started_at inner);
           kv = open_kv x client (ch_state client)
       in await (set_index_ready kv False) (\<lambda>_.
          await (complete_if_empty kv) (\<lambda>_.
            Done (Inr \<lparr>cn_client = client, cn_peers = peers,
                       cn_primitives = \<lparr>np_kv = kv, np_named = []\<rparr>,
                       cn_sweeper = sweeper_params (ni_config inner) client kv\<rparr>))))"

text \<open>A failed initialisation leaves the cell empty for the next caller to try.\<close>

definition get_or_init_connected :: "plugin_externals \<Rightarrow> Connected res op" where
  "get_or_init_connected x inner =
     (case ni_connected inner of
        Some c \<Rightarrow> Done (Inr c, inner)
      | None \<Rightarrow>
          await (init_connected x inner) (\<lambda>r.
            Done (case r of
                    Inl e \<Rightarrow> (Inl e, inner)
                  | Inr c \<Rightarrow> (Inr c, inner\<lparr>ni_connected := Some c\<rparr>))))"

definition require_connected :: "plugin_externals \<Rightarrow> Connected res op" where
  "require_connected x inner =
     await (get_or_init_connected x inner) (\<lambda>r.
       Done (case r of
               (Inl e, inner') \<Rightarrow> (Inl e, inner')
             | (Inr _, inner') \<Rightarrow>
                 ((case ni_connected inner' of
                     Some c \<Rightarrow> Inr c
                   | None \<Rightarrow> Inl (BackendUnavailable ''nats cluster: connection unavailable'')), inner')))"

text \<open>The shape of most operations: reach the connection, or answer its error.\<close>

definition with_connected :: "'c res op \<Rightarrow> ('c \<Rightarrow> 'a res prog) \<Rightarrow> 'a res op" where
  "with_connected conn f inner =
     await (conn inner) (\<lambda>r.
       case r of
         (Inl e, inner') \<Rightarrow> Done (Inl e, inner')
       | (Inr c, inner') \<Rightarrow> await (f c) (\<lambda>a. Done (a, inner')))"

text \<open>The store of a bucket, by way of the connection.\<close>

definition reach_kv :: "plugin_externals \<Rightarrow> Connected res op \<Rightarrow> string option \<Rightarrow> NatsKv res op" where
  "reach_kv x conn bucket_name inner =
     await (conn inner) (\<lambda>r.
       case r of
         (Inl e, inner') \<Rightarrow> Done (Inl e, inner')
       | (Inr c, inner') \<Rightarrow>
           await (connected_kv x c bucket_name) (\<lambda>(k, c'). Done (k, inner'\<lparr>ni_connected := Some c'\<rparr>)))"


subsection \<open>Construction\<close>

text \<open>
  A panic is \<open>Inl\<close> with its message. The first connection is tried at once; its failure is
  logged.
\<close>

definition config_error_display :: "ConfigError \<Rightarrow> string" where
  "config_error_display e =
     (case e of
        ParseError m \<Rightarrow> ''nats cluster config: failed to parse JSON: '' @ m
      | Invalid m \<Rightarrow> ''nats cluster config: invalid: '' @ m)"

definition config_error_debug :: "(string \<Rightarrow> bool) \<Rightarrow> ConfigError \<Rightarrow> string" where
  "config_error_debug graphic e =
     (case e of
        ParseError m \<Rightarrow> ''ParseError('' @ str_debug graphic m @ '')''
      | Invalid m \<Rightarrow> ''Invalid('' @ str_debug graphic m @ '')'')"

definition manifest_probe_config :: string where
  "manifest_probe_config =
     ''{\"servers\":[\"nats://127.0.0.1:4222\"],\"node\":{\"id\":\"manifest-probe\"}}''"

definition from_validated_config :: "plugin_externals \<Rightarrow> ClusterNatsConfig \<Rightarrow> NatsJetStreamInner prog" where
  "from_validated_config x cfg =
     await now_rfc3339 (\<lambda>started_at.
     await (get_or_init_connected x \<lparr>ni_config = cfg, ni_started_at = started_at, ni_connected = None\<rparr>)
       (\<lambda>(_, inner). Done inner))"

definition from_config_json :: "plugin_externals \<Rightarrow> string \<Rightarrow> (string + NatsJetStreamInner) prog" where
  "from_config_json x config_json =
     (if px_is_manifest_probe x config_json then
        (case parse (px_graphic x) (px_from_str x) manifest_probe_config of
           Inl e \<Rightarrow> Done (Inl (''manifest-probe placeholder nats config is valid: ''
                     @ config_error_debug (px_graphic x) e))
         | Inr cfg \<Rightarrow> await (from_validated_config x cfg) (\<lambda>inner. Done (Inr inner)))
      else
        (case parse (px_graphic x) (px_from_str x) config_json of
           Inl e \<Rightarrow> Done (Inl (''nats cluster config parse failed: '' @ config_error_display e))
         | Inr cfg \<Rightarrow> await (from_validated_config x cfg) (\<lambda>inner. Done (Inr inner))))"


subsection \<open>Maintenance of the state buckets\<close>

definition state_buckets :: "Connected \<Rightarrow> NatsKv list" where
  "state_buckets c = np_kv (cn_primitives c) # map snd (np_named (cn_primitives c))"

primrec sweep_each :: "externals \<Rightarrow> duration \<Rightarrow> NatsKv list \<Rightarrow> (string \<times> SweepReport) list res prog" where
  "sweep_each x grace [] = Done (Inr [])"
| "sweep_each x grace (kv # kvs) =
     await_ok (sweep x kv grace) (\<lambda>report.
     await_ok (sweep_each x grace kvs) (\<lambda>reports. Done (Inr ((bucket kv, report) # reports))))"

definition sweep_state_buckets :: "plugin_externals \<Rightarrow> duration \<Rightarrow> (string \<times> SweepReport) list res op" where
  "sweep_state_buckets x marker_grace =
     with_connected (require_connected x) (\<lambda>c. sweep_each (px_kv x) marker_grace (state_buckets c))"

primrec index_each :: "NatsKv list \<Rightarrow> (string \<times> u64) list res prog" where
  "index_each [] = Done (Inr [])"
| "index_each (kv # kvs) =
     await unix_ms (\<lambda>started_at_ms.
     await_ok (backfill_index kv) (\<lambda>count.
     await_ok (mark_index_complete kv started_at_ms) (\<lambda>_.
     await (set_index_ready kv True) (\<lambda>_.
     await_ok (index_each kvs) (\<lambda>indexed. Done (Inr ((bucket kv, count) # indexed)))))))"

definition complete_key_index :: "plugin_externals \<Rightarrow> (string \<times> u64) list res op" where
  "complete_key_index x =
     with_connected (require_connected x) (\<lambda>c.
       await peer_unindexed (\<lambda>unindexed.
         if unindexed then Done (Inl (Precondition ''a peer that does not write the key index is alive''))
         else index_each (state_buckets c)))"

definition key_index_ready :: "plugin_externals \<Rightarrow> string option \<Rightarrow> bool res op" where
  "key_index_ready x bucket_name =
     with_connected (reach_kv x (require_connected x) bucket_name) (\<lambda>kv.
       await (index_ready kv) (\<lambda>b. Done (Inr b)))"

definition bucket_usage :: "plugin_externals \<Rightarrow> string option \<Rightarrow> BucketUsage res op" where
  "bucket_usage x bucket_name = with_connected (reach_kv x (require_connected x) bucket_name) usage"

subsection \<open>The node, its peers and its messages\<close>

text \<open>\<^verbatim>\<open>mcpg_cluster_api::ClusterNodeInfo\<close>.\<close>

record ClusterNodeInfo =
  cni_node_id :: string
  cni_address :: string
  cni_version :: string
  cni_started_at :: string
  cni_roles :: "string list"

definition node_info_of :: "NatsJetStreamInner \<Rightarrow> string list \<Rightarrow> ClusterNodeInfo" where
  "node_info_of inner roles =
     \<lparr>cni_node_id = nc_id (cfg_node (ni_config inner)),
      cni_address = (case nc_address (cfg_node (ni_config inner)) of Some a \<Rightarrow> a | None \<Rightarrow> []),
      cni_version = CARGO_PKG_VERSION, cni_started_at = ni_started_at inner, cni_roles = roles\<rparr>"

text \<open>These answer something even without a connection.\<close>

definition node_info :: "plugin_externals \<Rightarrow> Connected res op \<Rightarrow> ClusterNodeInfo op" where
  "node_info x conn inner =
     await (conn inner) (\<lambda>(r, inner').
       await (case r of
                Inr c \<Rightarrow> enumerate_held_roles (px_lease x) (ch_leases (cn_client c)) (nc_id (cfg_node (ni_config inner)))
              | Inl _ \<Rightarrow> Done []) (\<lambda>roles.
         Done (node_info_of inner' roles, inner')))"

definition list_peers :: "Connected res op \<Rightarrow> ClusterPeer list op" where
  "list_peers conn inner =
     await (conn inner) (\<lambda>(r, inner').
       await (case r of Inr _ \<Rightarrow> snapshot_async | Inl _ \<Rightarrow> Done []) (\<lambda>peers. Done (peers, inner')))"

text \<open>
  The receiver is opened before the connection, so what it will receive is given whether or not
  the connection succeeds.
\<close>

definition backend_watch_peers :: "plugin_externals \<Rightarrow> peer_recv list \<Rightarrow> PeerEvent list op" where
  "backend_watch_peers x rx inner =
     await (get_or_init_connected x inner) (\<lambda>(_, inner'). Done (watch_peers_stream rx, inner'))"

definition sync_watch_peers ::
  "plugin_externals \<Rightarrow> (PeerEvent \<Rightarrow> string + string) \<Rightarrow> peer_recv list \<Rightarrow> string list op" where
  "sync_watch_peers x to_json rx inner =
     await (require_connected x inner) (\<lambda>(_, inner'). Done (watch_peers to_json rx, inner'))"

definition self_id :: "NatsJetStreamInner \<Rightarrow> string" where
  "self_id inner = nc_id (cfg_node (ni_config inner))"

definition backend_publish :: "plugin_externals \<Rightarrow> string \<Rightarrow> string option \<Rightarrow> bytes \<Rightarrow> unit res op" where
  "backend_publish x topic routing_key body inner =
     with_connected (get_or_init_connected x) (\<lambda>_. publish_async (self_id inner) topic routing_key body) inner"

definition sync_publish :: "plugin_externals \<Rightarrow> string \<Rightarrow> string option \<Rightarrow> bytes \<Rightarrow> unit res op" where
  "sync_publish x topic routing_key body inner =
     with_connected (require_connected x) (\<lambda>_. publish_sync (self_id inner) topic routing_key body) inner"

definition backend_subscribe ::
  "plugin_externals \<Rightarrow> string \<Rightarrow> string option \<Rightarrow> string option \<Rightarrow> PublishedMessage list res op" where
  "backend_subscribe x topic queue_group routing_key =
     with_connected (get_or_init_connected x) (\<lambda>_. subscribe_async topic queue_group routing_key)"

text \<open>Answers with the forwarder task that was spawned.\<close>

definition sync_subscribe ::
  "plugin_externals \<Rightarrow> (PublishedMessage \<Rightarrow> string + string) \<Rightarrow> string \<Rightarrow> string option \<Rightarrow> string option \<Rightarrow>
   string list prog res op" where
  "sync_subscribe x to_json topic queue_group routing_key =
     with_connected (require_connected x) (\<lambda>_. Done (subscribe to_json topic queue_group routing_key))"

text \<open>A node that never connected has nothing to leave.\<close>

definition shutdown :: "plugin_externals \<Rightarrow> unit op" where
  "shutdown x inner =
     (case ni_connected inner of
        None \<Rightarrow> Done ((), inner)
      | Some c \<Rightarrow> await (leave (px_heartbeat x) (cn_peers c)) (\<lambda>_. Done ((), inner)))"


subsection \<open>Leases\<close>

definition validate_lease_key :: "string \<Rightarrow> string \<Rightarrow> unit res" where
  "validate_lease_key label key =
     (let trimmed = trim key in
      if trimmed = [] then Inl (InvalidReference (''lease '' @ label @ '' must not be empty''))
      else if prefix ''.'' key \<or> suffix ''.'' key then
        Inl (InvalidReference (''lease '' @ label @ '' `'' @ key @ ''` must not start or end with `.` (JS KV constraint)''))
      else if CHR ''*'' \<in> set key \<or> CHR ''>'' \<in> set key then
        Inl (InvalidReference (''lease '' @ label @ '' `'' @ key
          @ ''` must not contain NATS subject wildcards (`*` / `>`)''))
      else Inr ())"

text \<open>\<^verbatim>\<open>saturating_mul(1_000)\<close> on \<^verbatim>\<open>u64\<close>.\<close>

definition normalise_ttl_ms :: "u64 \<Rightarrow> ClusterNatsConfig \<Rightarrow> u64" where
  "normalise_ttl_ms ttl_ms cfg =
     (if ttl_ms = 0 then u64_try_from_or_max (unat (lc_default_ttl_sec (cfg_lease cfg)) * 1000) else ttl_ms)"

definition lease_request ::
  "NatsJetStreamInner \<Rightarrow> Connected \<Rightarrow> string \<Rightarrow> string \<Rightarrow> u64 \<Rightarrow> bool \<Rightarrow> AcquireParams" where
  "lease_request inner c namespace name ttl_ms wait_for_it =
     \<lparr>ap_leases = ch_leases (cn_client c), ap_fencing = ch_fencing (cn_client c),
      ap_key = namespace @ ''.'' @ name, ap_node_id = self_id inner,
      ap_ttl_ms = normalise_ttl_ms ttl_ms (ni_config inner), ap_wait = wait_for_it,
      ap_renew_before_expiry_percent = lc_renew_before_expiry_percent (cfg_lease (ni_config inner))\<rparr>"

text \<open>Validation comes before the connection.\<close>

definition with_valid_lease_key :: "string \<Rightarrow> string \<Rightarrow> 'a res op \<Rightarrow> 'a res op" where
  "with_valid_lease_key label name f inner =
     (case validate_lease_key label name of Inl e \<Rightarrow> Done (Inl e, inner) | Inr _ \<Rightarrow> f inner)"

text \<open>
  The waiting acquisitions answer \<open>None\<close> inside when the given rounds of the model did not
  suffice; \<open>acquire_rounds\<close> of them always do.
\<close>

definition swap_result :: "'a res option \<Rightarrow> 'a option res" where
  "swap_result r = (case r of None \<Rightarrow> Inr None | Some (Inl e) \<Rightarrow> Inl e | Some (Inr a) \<Rightarrow> Inr (Some a))"

definition backend_acquire_leadership ::
  "nat \<Rightarrow> plugin_externals \<Rightarrow> string \<Rightarrow> duration \<Rightarrow> NatsJetStreamLeaseHandle option res op" where
  "backend_acquire_leadership rounds x role ttl = with_valid_lease_key ''role'' role (\<lambda>inner.
     with_connected (get_or_init_connected x) (\<lambda>c.
       await (acquire_async rounds (px_lease x)
         (lease_request inner c LEADERSHIP_PREFIX role (duration_to_ttl_ms ttl) True)) (\<lambda>r. Done (swap_result r))) inner)"

definition backend_acquire_lock ::
  "nat \<Rightarrow> plugin_externals \<Rightarrow> string \<Rightarrow> duration \<Rightarrow> NatsJetStreamLeaseHandle option res op" where
  "backend_acquire_lock rounds x key ttl = with_valid_lease_key ''key'' key (\<lambda>inner.
     with_connected (get_or_init_connected x) (\<lambda>c.
       await (acquire_async rounds (px_lease x)
         (lease_request inner c LOCK_PREFIX key (duration_to_ttl_ms ttl) True)) (\<lambda>r. Done (swap_result r))) inner)"

definition backend_try_acquire_leadership ::
  "plugin_externals \<Rightarrow> string \<Rightarrow> duration \<Rightarrow> NatsJetStreamLeaseHandle option res op" where
  "backend_try_acquire_leadership x role ttl = with_valid_lease_key ''role'' role (\<lambda>inner.
     with_connected (get_or_init_connected x) (\<lambda>c.
       try_acquire_async (px_lease x)
         (lease_request inner c LEADERSHIP_PREFIX role (duration_to_ttl_ms ttl) False)) inner)"

definition backend_try_acquire_lock ::
  "plugin_externals \<Rightarrow> string \<Rightarrow> duration \<Rightarrow> NatsJetStreamLeaseHandle option res op" where
  "backend_try_acquire_lock x key ttl = with_valid_lease_key ''key'' key (\<lambda>inner.
     with_connected (get_or_init_connected x) (\<lambda>c.
       try_acquire_async (px_lease x)
         (lease_request inner c LOCK_PREFIX key (duration_to_ttl_ms ttl) False)) inner)"

text \<open>The variants the host calls: a lifetime in milliseconds, and the token and expiry with the handle.\<close>

definition sync_acquire_leadership ::
  "nat \<Rightarrow> plugin_externals \<Rightarrow> string \<Rightarrow> u64 \<Rightarrow> (NatsJetStreamLeaseHandle \<times> u64 \<times> string) option res op" where
  "sync_acquire_leadership rounds x role ttl_ms = with_valid_lease_key ''role'' role (\<lambda>inner.
     with_connected (require_connected x) (\<lambda>c.
       await (acquire rounds (px_lease x) (lease_request inner c LEADERSHIP_PREFIX role ttl_ms True))
         (\<lambda>r. Done (swap_result r))) inner)"

definition sync_acquire_lock ::
  "nat \<Rightarrow> plugin_externals \<Rightarrow> string \<Rightarrow> u64 \<Rightarrow> (NatsJetStreamLeaseHandle \<times> u64 \<times> string) option res op" where
  "sync_acquire_lock rounds x key ttl_ms = with_valid_lease_key ''key'' key (\<lambda>inner.
     with_connected (require_connected x) (\<lambda>c.
       await (acquire rounds (px_lease x) (lease_request inner c LOCK_PREFIX key ttl_ms True))
         (\<lambda>r. Done (swap_result r))) inner)"

definition sync_try_acquire_leadership ::
  "plugin_externals \<Rightarrow> string \<Rightarrow> u64 \<Rightarrow> (NatsJetStreamLeaseHandle \<times> u64 \<times> string) option res op" where
  "sync_try_acquire_leadership x role ttl_ms = with_valid_lease_key ''role'' role (\<lambda>inner.
     with_connected (require_connected x) (\<lambda>c.
       try_acquire (px_lease x) (lease_request inner c LEADERSHIP_PREFIX role ttl_ms False)) inner)"

definition sync_try_acquire_lock ::
  "plugin_externals \<Rightarrow> string \<Rightarrow> u64 \<Rightarrow> (NatsJetStreamLeaseHandle \<times> u64 \<times> string) option res op" where
  "sync_try_acquire_lock x key ttl_ms = with_valid_lease_key ''key'' key (\<lambda>inner.
     with_connected (require_connected x) (\<lambda>c.
       try_acquire (px_lease x) (lease_request inner c LOCK_PREFIX key ttl_ms False)) inner)"

text \<open>A null handle is \<open>None\<close>.\<close>

definition sync_lease_renew :: "plugin_externals \<Rightarrow> NatsJetStreamLeaseHandle option \<Rightarrow> string res op" where
  "sync_lease_renew x lease_handle inner =
     (case lease_handle of
        None \<Rightarrow> Done (Inl LeaseExpired, inner)
      | Some h \<Rightarrow> await (renew_inner (px_lease x) (lh_inner h)) (\<lambda>r. Done (r, inner)))"

definition sync_lease_release :: "plugin_externals \<Rightarrow> NatsJetStreamLeaseHandle option \<Rightarrow> unit res op" where
  "sync_lease_release x lease_handle inner =
     (case lease_handle of
        None \<Rightarrow> Done (Inr (), inner)
      | Some h \<Rightarrow> await (release_async (px_lease x) (lh_inner h)) (\<lambda>r. Done (r, inner)))"


subsection \<open>The state stores\<close>

definition key_value_store :: "NatsJetStreamInner \<Rightarrow> NatsKv option" where
  "key_value_store inner = map_option (\<lambda>c. np_kv (cn_primitives c)) (ni_connected inner)"

text \<open>The bus has no state of its own: the accessor says whether there is one yet.\<close>

definition pub_sub :: "NatsJetStreamInner \<Rightarrow> unit option" where
  "pub_sub inner = map_option (\<lambda>_. ()) (ni_connected inner)"

text \<open>The in-process view of a named bucket opens it when it is first used.\<close>

record NamedKv =
  nk_name :: string

definition key_value_store_named :: "string \<Rightarrow> NamedKv option" where
  "key_value_store_named name = Some \<lparr>nk_name = name\<rparr>"

definition named_kv :: "plugin_externals \<Rightarrow> NamedKv \<Rightarrow> NatsKv res op" where
  "named_kv x n = reach_kv x (get_or_init_connected x) (Some (nk_name n))"

definition named_get :: "plugin_externals \<Rightarrow> NamedKv \<Rightarrow> string \<Rightarrow> Entry option res op" where
  "named_get x n key = with_connected (named_kv x n) (\<lambda>kv. get (px_kv x) kv key)"

definition named_put :: "plugin_externals \<Rightarrow> NamedKv \<Rightarrow> string \<Rightarrow> bytes \<Rightarrow> duration option \<Rightarrow> unit res op" where
  "named_put x n key val ttl = with_connected (named_kv x n) (\<lambda>kv. put (px_kv x) kv key val ttl)"

definition named_put_if_absent ::
  "plugin_externals \<Rightarrow> NamedKv \<Rightarrow> string \<Rightarrow> bytes \<Rightarrow> duration option \<Rightarrow> bool res op" where
  "named_put_if_absent x n key val ttl = with_connected (named_kv x n) (\<lambda>kv. put_if_absent (px_kv x) kv key val ttl)"

definition named_delete :: "plugin_externals \<Rightarrow> NamedKv \<Rightarrow> string \<Rightarrow> bool res op" where
  "named_delete x n key = with_connected (named_kv x n) (\<lambda>kv. delete (px_kv x) kv key)"

definition named_list_page ::
  "plugin_externals \<Rightarrow> NamedKv \<Rightarrow> string \<Rightarrow> string option \<Rightarrow> nat \<Rightarrow> KvPage res op" where
  "named_list_page x n pre cursor limit =
     with_connected (named_kv x n) (\<lambda>kv. list_page (px_kv x) kv pre cursor limit)"

definition named_expire :: "plugin_externals \<Rightarrow> NamedKv \<Rightarrow> string \<Rightarrow> duration option \<Rightarrow> bool res op" where
  "named_expire x n key ttl = with_connected (named_kv x n) (\<lambda>kv. expire (px_kv x) kv key ttl)"

definition named_incr :: "plugin_externals \<Rightarrow> NamedKv \<Rightarrow> string \<Rightarrow> i64 \<Rightarrow> duration option \<Rightarrow> i64 res op" where
  "named_incr x n key delta ttl = with_connected (named_kv x n) (\<lambda>kv. incr (px_kv x) kv key delta ttl)"

definition named_incr_floor ::
  "plugin_externals \<Rightarrow> NamedKv \<Rightarrow> string \<Rightarrow> i64 \<Rightarrow> i64 \<Rightarrow> duration option \<Rightarrow> i64 res op" where
  "named_incr_floor x n key delta floor ttl =
     with_connected (named_kv x n) (\<lambda>kv. incr_floor (px_kv x) kv key delta floor ttl)"

text \<open>The operations the host calls: on the shared bucket, or on a named one.\<close>

definition sync_kv :: "plugin_externals \<Rightarrow> string option \<Rightarrow> NatsKv res op" where
  "sync_kv x bucket_name = reach_kv x (require_connected x) bucket_name"

definition kv_get_in :: "plugin_externals \<Rightarrow> string option \<Rightarrow> string \<Rightarrow> Entry option res op" where
  "kv_get_in x b key = with_connected (sync_kv x b) (\<lambda>kv. get (px_kv x) kv key)"

definition kv_put_in :: "plugin_externals \<Rightarrow> string option \<Rightarrow> string \<Rightarrow> bytes \<Rightarrow> u64 option \<Rightarrow> unit res op" where
  "kv_put_in x b key val ttl_ms = with_connected (sync_kv x b) (\<lambda>kv. put (px_kv x) kv key val (ttl_from_ms ttl_ms))"

definition kv_put_if_absent_in ::
  "plugin_externals \<Rightarrow> string option \<Rightarrow> string \<Rightarrow> bytes \<Rightarrow> u64 option \<Rightarrow> bool res op" where
  "kv_put_if_absent_in x b key val ttl_ms =
     with_connected (sync_kv x b) (\<lambda>kv. put_if_absent (px_kv x) kv key val (ttl_from_ms ttl_ms))"

definition kv_delete_in :: "plugin_externals \<Rightarrow> string option \<Rightarrow> string \<Rightarrow> bool res op" where
  "kv_delete_in x b key = with_connected (sync_kv x b) (\<lambda>kv. delete (px_kv x) kv key)"

definition kv_list_page_in ::
  "plugin_externals \<Rightarrow> string option \<Rightarrow> string \<Rightarrow> string option \<Rightarrow> nat \<Rightarrow> KvPage res op" where
  "kv_list_page_in x b pre cursor limit =
     with_connected (sync_kv x b) (\<lambda>kv. list_page (px_kv x) kv pre cursor limit)"

definition kv_expire_in :: "plugin_externals \<Rightarrow> string option \<Rightarrow> string \<Rightarrow> u64 option \<Rightarrow> bool res op" where
  "kv_expire_in x b key ttl_ms = with_connected (sync_kv x b) (\<lambda>kv. expire (px_kv x) kv key (ttl_from_ms ttl_ms))"

definition kv_incr_in :: "plugin_externals \<Rightarrow> string option \<Rightarrow> string \<Rightarrow> i64 \<Rightarrow> u64 option \<Rightarrow> i64 res op" where
  "kv_incr_in x b key delta ttl_ms =
     with_connected (sync_kv x b) (\<lambda>kv. incr (px_kv x) kv key delta (ttl_from_ms ttl_ms))"

definition kv_incr_floor_in ::
  "plugin_externals \<Rightarrow> string option \<Rightarrow> string \<Rightarrow> i64 \<Rightarrow> i64 \<Rightarrow> u64 option \<Rightarrow> i64 res op" where
  "kv_incr_floor_in x b key delta floor ttl_ms =
     with_connected (sync_kv x b) (\<lambda>kv. incr_floor (px_kv x) kv key delta floor (ttl_from_ms ttl_ms))"

definition kv_get :: "plugin_externals \<Rightarrow> string \<Rightarrow> Entry option res op" where
  "kv_get x = kv_get_in x None"

definition kv_put :: "plugin_externals \<Rightarrow> string \<Rightarrow> bytes \<Rightarrow> u64 option \<Rightarrow> unit res op" where
  "kv_put x = kv_put_in x None"

definition kv_put_if_absent :: "plugin_externals \<Rightarrow> string \<Rightarrow> bytes \<Rightarrow> u64 option \<Rightarrow> bool res op" where
  "kv_put_if_absent x = kv_put_if_absent_in x None"

definition kv_delete :: "plugin_externals \<Rightarrow> string \<Rightarrow> bool res op" where
  "kv_delete x = kv_delete_in x None"

definition kv_list_page :: "plugin_externals \<Rightarrow> string \<Rightarrow> string option \<Rightarrow> nat \<Rightarrow> KvPage res op" where
  "kv_list_page x = kv_list_page_in x None"

definition kv_expire :: "plugin_externals \<Rightarrow> string \<Rightarrow> u64 option \<Rightarrow> bool res op" where
  "kv_expire x = kv_expire_in x None"

definition kv_incr :: "plugin_externals \<Rightarrow> string \<Rightarrow> i64 \<Rightarrow> u64 option \<Rightarrow> i64 res op" where
  "kv_incr x = kv_incr_in x None"

definition kv_incr_floor :: "plugin_externals \<Rightarrow> string \<Rightarrow> i64 \<Rightarrow> i64 \<Rightarrow> u64 option \<Rightarrow> i64 res op" where
  "kv_incr_floor x = kv_incr_floor_in x None"

end
