(* ===== verification/Client_Theorems.thy ===== *)
theory Client_Theorems
  imports Client Ref_Server
begin

text \<open>
  The properties of the connection: what it is secured with, and what it does to buckets that
  are there; and the interface of bucket administration, shown to be met by the reference server.
\<close>

interpretation ref_admin: bucket_admin ref_server ref_bucket
proof (unfold_locales, goal_cases)
  case (1 w js b r w')
  then show ?case
    by (auto simp: ref_server_def ref_get_key_value_def ref_bucket_def split: option.splits)
next
  case (2 w js kc rc w' js' b c)
  then show ?case
    by (auto simp: ref_server_def ref_create_key_value_def ref_bucket_def split: if_splits)
next
  case (3 w js c ru w' b)
  then show ?case
    by (auto simp: ref_server_def ref_update_stream_def ref_bucket_def fun_eq_iff split: option.splits if_splits)
qed (auto simp: ref_server_def)



section \<open>Properties\<close>


text \<open>
  C34. Opening a connection never takes room from a bucket: every bucket that is there keeps its
  configuration but for a byte cap that grows, and one without a cap stays so, provided no one
  else changes buckets between the calls.
\<close>

theorem connect_never_lowers_caps:
  assumes "bucket_admin S C"
  shows "wpr S (same_buckets C) (caps_grow C) (connect x cfg) (\<lambda>_ _. True) w
    \<and> wpr S (same_buckets C) (caps_grow C) (named_bucket h name) (\<lambda>_ _. True) w"
  using bucket_admin.wpr_connect [OF assms] bucket_admin.wpr_ensure_kv_bucket [OF assms]
  by (simp add: named_bucket_def)

definition capped :: "int \<Rightarrow> stream_config" where
  "capped n = \<lparr>sc_name = kv_stream ''mcpg-state'', sc_max_bytes = n, sc_num_replicas = 1, sc_storage = FileStorage\<rparr>"

definition capped_world :: "int \<Rightarrow> ref_world" where
  "capped_world n = (ref_start 100)\<lparr>rw_buckets := [((None, ''mcpg-state''), capped n)]\<rparr>"

definition ref_client :: client_externals where
  "ref_client = \<lparr>cx_parse_addr = Inr, cx_credentials = (\<lambda>_. Inr ()), cx_pem_certs = (\<lambda>_. Inl ''no PEM''),
     cx_add_certs = (\<lambda>cs. (length cs, 0))\<rparr>"

theorem connect_never_lowers_caps_witness:
  "wpr ref_server (same_buckets ref_bucket) (caps_grow ref_bucket) (connect ref_client (small_config ''n1''))
     (\<lambda>_ _. True) (capped_world 1000)
   \<and> map_option sc_max_bytes (ref_bucket (capped_world 1000) None ''mcpg-state'') = Some 1000"
  using connect_never_lowers_caps [OF ref_admin.bucket_admin_axioms, of ref_client "small_config ''n1''" "capped_world 1000"]
  by (simp add: capped_world_def ref_bucket_def capped_def)

text \<open>
  Two replicas that connect at once with different caps can lower one: the smaller one is decided
  on before the larger one is written, and written after it.
\<close>

lemma racing_caps:
  fixes p :: "bool \<Rightarrow> kv_store res prog"
  defines "p \<equiv> \<lambda>c. ensure_kv_bucket None ''mcpg-state'' 1 (if c then 10000 else 5000) FileStorage"
  shows "\<exists>ps w ps' w'. (pool_step ref_server)\<^sup>*\<^sup>* (p, capped_world 1000) (ps, w)
     \<and> (pool_step ref_server)\<^sup>*\<^sup>* (ps, w) (ps', w')
     \<and> map_option sc_max_bytes (ref_bucket w None ''mcpg-state'') = Some 10000
     \<and> map_option sc_max_bytes (ref_bucket w' None ''mcpg-state'') = Some 5000"
proof -
  let ?st = "store_of ''mcpg-state''"
  let ?up = "\<lambda>c. Do (Node (UpdateStream None (capped (if c then 10000 else 5000)) (\<lambda>_. Done (Inr ?st)))) :: kv_store res prog"
  have bucket: "ref_bucket (capped_world n) None ''mcpg-state'' = Some (capped n)" for n
    by (simp add: ref_bucket_def capped_world_def capped_def)
  have read: "\<exists>act. p c = Do act \<and> perform ref_server (capped_world 1000) act = (?up c, capped_world 1000)" for c
    by (simp add: p_def ensure_kv_bucket_def get_key_value_def update_stream_def ref_server_def ref_get_key_value_def
        bucket grow_bucket_def Let_def comp_def) (simp add: capped_def)
  obtain a1 a2 where a1: "p False = Do a1" "perform ref_server (capped_world 1000) a1 = (?up False, capped_world 1000)"
    and a2: "p True = Do a2" "perform ref_server (capped_world 1000) a2 = (?up True, capped_world 1000)"
    using read by blast
  have update: "perform ref_server w (Node (UpdateStream js c (\<lambda>_. a))) = (a, snd (ref_update_stream w js c))"
    for w js c and a :: "kv_store res prog"
    by (simp add: ref_server_def apfst_def map_prod_def split_beta)
  let ?w1 = "snd (ref_update_stream (capped_world 1000) None (capped 10000))"
  let ?w2 = "snd (ref_update_stream ?w1 None (capped 5000))"
  have s1: "pool_step ref_server (p, capped_world 1000) (p(False := ?up False), capped_world 1000)"
    by (rule pool_step.call [where act = a1]) (fact a1)+
  have s2: "pool_step ref_server (p(False := ?up False), capped_world 1000)
      (p(False := ?up False, True := ?up True), capped_world 1000)"
    by (rule pool_step.call [where act = a2]) (simp_all add: a2)
  have s3: "pool_step ref_server (p(False := ?up False, True := ?up True), capped_world 1000)
      (p(False := ?up False, True := ?up True, True := Done (Inr ?st)), ?w1)"
    by (rule pool_step.call, simp) (rule update)
  have s4: "pool_step ref_server (p(False := ?up False, True := ?up True, True := Done (Inr ?st)), ?w1)
      (p(False := ?up False, True := ?up True, True := Done (Inr ?st), False := Done (Inr ?st)), ?w2)"
    by (rule pool_step.call, simp) (rule update)
  have caps: "ref_bucket ?w1 None ''mcpg-state'' = Some (capped 10000)" "ref_bucket ?w2 None ''mcpg-state'' = Some (capped 5000)"
    by (simp_all add: ref_update_stream_def ref_bucket_def capped_world_def capped_def)
  show ?thesis
  proof (intro exI conjI)
    show "(pool_step ref_server)\<^sup>*\<^sup>* (p, capped_world 1000) (p(False := ?up False, True := ?up True, True := Done (Inr ?st)), ?w1)"
      by (rule pool_steps [OF s1 pool_steps [OF s2 pool_steps [OF s3 rtranclp.rtrancl_refl]]])
    show "(pool_step ref_server)\<^sup>*\<^sup>* (p(False := ?up False, True := ?up True, True := Done (Inr ?st)), ?w1)
        (p(False := ?up False, True := ?up True, True := Done (Inr ?st), False := Done (Inr ?st)), ?w2)"
      by (rule pool_steps [OF s4 rtranclp.rtrancl_refl])
  qed (simp_all only: caps option.map, simp_all add: capped_def)
qed

end
