(* ===== verification/Coordinator_Theorems.thy ===== *)
theory Coordinator_Theorems
  imports Coordinator Calls Client_Theorems Lease_Theorems
begin

text \<open>
  The properties of the coordinator: what its state looks like whatever the host calls and the
  outside answers, that the connection and the buckets are opened once, and what an outage looks
  like to the host.
\<close>

section \<open>What the host can call\<close>





section \<open>Well-formed states\<close>




text \<open>What stays: the configuration, the connection, and every store that was opened.\<close>

definition same_connection :: "Connected \<Rightarrow> Connected \<Rightarrow> bool" where
  "same_connection c c' \<longleftrightarrow>
     cn_client c' = cn_client c \<and> cn_peers c' = cn_peers c \<and> cn_sweeper c' = cn_sweeper c
     \<and> np_kv (cn_primitives c') = np_kv (cn_primitives c)
     \<and> map_of (np_named (cn_primitives c)) \<subseteq>\<^sub>m map_of (np_named (cn_primitives c'))"

definition grown :: "NatsJetStreamInner \<Rightarrow> NatsJetStreamInner \<Rightarrow> bool" where
  "grown i i' \<longleftrightarrow> ni_config i' = ni_config i \<and> ni_started_at i' = ni_started_at i
     \<and> (\<forall>c. ni_connected i = Some c \<longrightarrow> (\<exists>c'. ni_connected i' = Some c' \<and> same_connection c c'))"

lemma same_connection_refl [simp]: "same_connection c c"
  by (simp add: same_connection_def)

lemma grown_refl [simp]: "grown i i"
  by (simp add: grown_def)





























section \<open>Construction\<close>




section \<open>Properties\<close>


section \<open>One connection\<close>

text \<open>
  The calls of a plugin that is connected: none opens a connection or reads credentials, and a
  bucket is looked up or created only for a name it has no store for yet.
\<close>

definition fresh_bucket :: "Connected \<Rightarrow> string \<Rightarrow> bool" where
  "fresh_bucket c b \<longleftrightarrow> (\<exists>name. map_of (np_named (cn_primitives c)) name = None
     \<and> b = named_bucket_name (ch_state_bucket (cn_client c)) name)"

definition fresh_call :: "Connected \<Rightarrow> unit action \<Rightarrow> bool" where
  "fresh_call c act =
     (case act of
        Node (Connect _ _ _ _) \<Rightarrow> False
      | Node (node_action.CredentialsFile _ _) \<Rightarrow> False
      | Node (GetKeyValue js b _) \<Rightarrow> js = ch_js (cn_client c) \<and> fresh_bucket c b
      | Node (CreateKeyValue js kc _) \<Rightarrow> js = ch_js (cn_client c) \<and> fresh_bucket c (kc_bucket kc)
      | _ \<Rightarrow> True)"

interpretation fresh: host_calls "fresh_call c" for c
  by unfold_locales (auto simp: fresh_call_def split: action.splits)


















section \<open>Outages\<close>








section \<open>Witnesses\<close>









end
