(* ===== verification/Kv_Listing.thy ===== *)
theory Kv_Listing
  imports Kv_Theorems Kv_Scan
begin

text \<open>
  Listings by the key index. A page is cut out of the sorted keys that the server's subject
  listing names, and each of its keys is read from its record. On a bucket whose index is exact,
  a page lists the live keys under the prefix between its cursor and the next one, each once, with
  the value it holds.
\<close>

section \<open>The listing of subjects\<close>

text \<open>
  The server lists each subject of the stream that matches the filter once; the client hands the
  list on as a stream, which can break off with an error.
\<close>

locale subject_listing = jetstream S V for S :: "'w server" and V :: "'w view" +
  assumes subjects_law: "bucket_ok b \<Longrightarrow> sv_subjects S w (kv_stream b) (kv_subject b f) = (rs, w') \<Longrightarrow>
      quiet V w w' \<and> (case rs of Inl _ \<Rightarrow> True | Inr ss \<Rightarrow>
        distinct ss \<and> (\<forall>s. Inr s \<in> set ss \<longrightarrow> (\<exists>k. s = kv_subject b k \<and> cell V w b k \<noteq> None))
        \<and> ((\<forall>e. Inl e \<notin> set ss) \<longrightarrow>
            (\<forall>k. cell V w b k \<noteq> None \<and> subject_matches (kv_subject b f) (kv_subject b k) \<longrightarrow> Inr (kv_subject b k) \<in> set ss)))"

lemma kv_subject_inj [simp]: "kv_subject b k = kv_subject b k' \<longleftrightarrow> k = k'"
  by (simp add: kv_subject_def)

lemma subject_matches_bucket:
  assumes "bucket_ok b"
  shows "subject_matches (kv_subject b f) (kv_subject b k) = subject_matches f k"
proof -
  have "split_on CHR ''.'' (kv_subject b u) = ''$KV'' # b # split_on CHR ''.'' u" for u
    using assms split_on_append [of "CHR ''.''" "''$KV''" "b @ CHR ''.'' # u"] split_on_append [of "CHR ''.''" b u]
    by (simp add: kv_subject_def bucket_ok_def split_on_single)
  then show ?thesis
    by (simp add: subject_matches_def)
qed


section \<open>The keys of an index\<close>

text \<open>
  The index record of every key is the one this build writes, and every key that is live has one.
\<close>

definition exact_index :: "externals \<Rightarrow> 'w view \<Rightarrow> string \<Rightarrow> 'w \<Rightarrow> bool" where
  "exact_index x V b w \<longleftrightarrow>
     (\<forall>k key. cell V w b k \<noteq> None \<and> data_key k = Some key \<longrightarrow> k = index_key key \<and> utf8_valid key)
     \<and> (\<forall>key. utf8_valid key \<and> kv_abs x V b w key \<noteq> None \<longrightarrow> cell V w b (index_key key) \<noteq> None)"

definition indexed_under :: "'w view \<Rightarrow> string \<Rightarrow> 'w \<Rightarrow> string \<Rightarrow> string set" where
  "indexed_under V b w pre = {key. utf8_valid key \<and> prefix pre key \<and> cell V w b (index_key key) \<noteq> None}"

text \<open>The keys a list of subjects stands for.\<close>

definition subject_key :: "string \<Rightarrow> string \<Rightarrow> string \<Rightarrow> string option" where
  "subject_key b pre s =
     (case Option.bind (strip_prefix (kv_subject b []) s) data_key of
        Some key \<Rightarrow> if prefix pre key then Some key else None | None \<Rightarrow> None)"

definition subject_keys :: "string \<Rightarrow> string \<Rightarrow> (string + string) list \<Rightarrow> string list" where
  "subject_keys b pre ss = List.map_filter (\<lambda>r. case r of Inl _ \<Rightarrow> None | Inr s \<Rightarrow> subject_key b pre s) ss"

lemma strip_kv_subject [simp]: "strip_prefix (kv_subject b []) (kv_subject b k) = Some k"
  using strip_prefix_append [of "kv_subject b []" k] by simp

lemma indexed_keys_loop_keys:
  assumes "kv_ok kv b" "length keys \<le> m"
  shows "indexed_keys_loop kv pre m keys ss = Inr r \<Longrightarrow>
    (case r of None \<Rightarrow> m < length keys + length (subject_keys b pre ss)
     | Some ks \<Rightarrow> (\<forall>e. Inl e \<notin> set ss) \<and> ks = sort (keys @ subject_keys b pre ss))"
  using assms(2)
proof (induction ss arbitrary: keys)
  case (Cons s ss)
  show ?case
  proof (cases s)
    case (Inr sj)
    show ?thesis
    proof (cases "subject_key b pre sj")
      case None
      then have "indexed_keys_loop kv pre m keys (s # ss) = indexed_keys_loop kv pre m keys ss"
        using kv_okD(2) [OF assms(1)] Inr by (auto simp: subject_key_def split: option.splits if_splits)
      moreover have "subject_keys b pre (s # ss) = subject_keys b pre ss"
        using Inr None by (simp add: subject_keys_def map_filter_simps)
      ultimately show ?thesis
        using Cons Inr by (auto split: option.splits)
    next
      case (Some key)
      then have "indexed_keys_loop kv pre m keys (s # ss) =
          (if length keys = m then Inr None else indexed_keys_loop kv pre m (keys @ [key]) ss)"
        using kv_okD(2) [OF assms(1)] Inr by (auto simp: subject_key_def split: option.splits if_splits)
      moreover have "subject_keys b pre (s # ss) = key # subject_keys b pre ss"
        using Inr Some by (simp add: subject_keys_def map_filter_simps)
      ultimately show ?thesis
        using Cons.IH [of "keys @ [key]"] Cons.prems Inr by (auto split: option.splits if_splits)
    qed
  qed (use Cons in simp)
qed (auto simp: subject_keys_def map_filter_simps)

lemma in_subject_keys: "key \<in> set (subject_keys b pre ss) \<longleftrightarrow> (\<exists>s. Inr s \<in> set ss \<and> subject_key b pre s = Some key)"
  by (induction ss) (auto simp: subject_keys_def map_filter_simps split: sum.splits option.splits)

lemma distinct_subject_keys:
  "distinct ss \<Longrightarrow>
   (\<And>s s' key. Inr s \<in> set ss \<Longrightarrow> Inr s' \<in> set ss \<Longrightarrow> subject_key b pre s = Some key \<Longrightarrow>
      subject_key b pre s' = Some key \<Longrightarrow> s = s') \<Longrightarrow>
   distinct (subject_keys b pre ss)"
proof (induction ss)
  case (Cons r ss)
  have IH: "distinct (subject_keys b pre ss)"
    by (rule Cons.IH) (use Cons.prems in auto)
  show ?case
  proof (cases r)
    case (Inr s)
    have "key \<notin> set (subject_keys b pre ss)" if "subject_key b pre s = Some key" for key
      unfolding in_subject_keys
    proof
      assume "\<exists>s'. Inr s' \<in> set ss \<and> subject_key b pre s' = Some key"
      then obtain s' where s': "Inr s' \<in> set ss" "subject_key b pre s' = Some key"
        by blast
      with Cons.prems(2) [of s s' key] that Inr have "s' = s"
        by auto
      with s'(1) Cons.prems(1) Inr show False
        by simp
    qed
    with IH Inr show ?thesis
      by (auto simp: subject_keys_def map_filter_simps split: option.splits)
  qed (use IH in \<open>simp add: subject_keys_def map_filter_simps\<close>)
qed (simp add: subject_keys_def map_filter_simps)

context subject_listing
begin

lemma listed_one:
  assumes "bucket_ok b" "exact_index x V b w"
    and "sv_subjects S w (kv_stream b) (kv_subject b f) = (Inr ss, w')"
    and "Inr s \<in> set ss" "subject_key b pre s = Some key"
  shows "s = kv_subject b (index_key key)" "key \<in> indexed_under V b w pre"
proof -
  obtain k where "s = kv_subject b k" "cell V w b k \<noteq> None"
    using subjects_law [OF assms(1,3)] assms(4) by auto
  with assms(2,5) show "s = kv_subject b (index_key key)" "key \<in> indexed_under V b w pre"
    by (auto simp: subject_key_def exact_index_def indexed_under_def split: option.splits if_splits)
qed

lemma listed_keys:
  assumes b: "bucket_ok b" and ex: "exact_index x V b w"
    and run: "sv_subjects S w (kv_stream b) (kv_subject b (prefix_filter pre)) = (Inr ss, w')" and e: "\<forall>e. Inl e \<notin> set ss"
  shows "distinct (subject_keys b pre ss)" "set (subject_keys b pre ss) = indexed_under V b w pre"
proof -
  have ss: "distinct ss" "\<And>s. Inr s \<in> set ss \<Longrightarrow> \<exists>k. s = kv_subject b k \<and> cell V w b k \<noteq> None"
    "\<And>k. cell V w b k \<noteq> None \<Longrightarrow> subject_matches (prefix_filter pre) k \<Longrightarrow> Inr (kv_subject b k) \<in> set ss"
    using subjects_law [OF b run] e by (auto simp: subject_matches_bucket [OF b])
  have one: "s = kv_subject b (index_key key) \<and> key \<in> indexed_under V b w pre"
    if "Inr s \<in> set ss" "subject_key b pre s = Some key" for s key
    using listed_one [OF b ex run that] by simp
  have "\<exists>s. Inr s \<in> set ss \<and> subject_key b pre s = Some key" if "key \<in> indexed_under V b w pre" for key
    using that ss(3) [of "index_key key"] prefix_filter_matches [of pre key] data_key_index_key_eq [of key]
    by (intro exI [of _ "kv_subject b (index_key key)"]) (auto simp: indexed_under_def subject_key_def)
  with one show "set (subject_keys b pre ss) = indexed_under V b w pre"
    by (fastforce simp: in_subject_keys)
  show "distinct (subject_keys b pre ss)"
    by (rule distinct_subject_keys [OF ss(1)]) (use one in blast)
qed

end

section \<open>Pages\<close>

definition beyond :: "string option \<Rightarrow> string \<Rightarrow> bool" where
  "beyond after key \<longleftrightarrow> (case after of None \<Rightarrow> True | Some a \<Rightarrow> a < key)"

lemma page_keys_cut:
  fixes ks :: "string list"
  assumes "sorted ks" "distinct ks" and page: "page_keys ks after limit = (page, next_cursor)" and pos: "0 < limit"
  shows "sorted page" "distinct page" "length page \<le> limit" "set page \<subseteq> {k \<in> set ks. beyond after k}"
    "next_cursor = None \<Longrightarrow> set page = {k \<in> set ks. beyond after k}"
    "next_cursor = Some c \<Longrightarrow> \<exists>u. c = CHR ''s'' # u \<and> u \<in> set page
       \<and> set page = {k \<in> set ks. beyond after k \<and> k \<le> u}"
proof -
  define rest where "rest = (case after of None \<Rightarrow> ks | Some a \<Rightarrow> dropWhile (\<lambda>k. k \<le> a) ks)"
  define start where "start = (case after of None \<Rightarrow> 0 | Some a \<Rightarrow> length (takeWhile (\<lambda>k. k \<le> a) ks))"
  have rest: "drop start ks = rest"
    by (simp add: rest_def start_def dropWhile_eq_drop split: option.splits)
  have sr: "sorted rest" "distinct rest"
    using assms(1,2) sorted_wrt_drop distinct_drop unfolding rest [symmetric] by blast+
  have set_rest: "set rest = {k \<in> set ks. beyond after k}"
  proof (cases after)
    case (Some a)
    have "set (dropWhile (\<lambda>k. k \<le> a) ks) = {k \<in> set ks. a < k}"
      using assms(1) by (induction ks) auto
    with Some show ?thesis
      by (simp add: rest_def beyond_def)
  qed (simp add: rest_def beyond_def)
  have "page_keys ks after limit =
      (take limit rest, if start + length (take limit rest) < length ks \<and> take limit rest \<noteq> []
         then Some (CHR ''s'' # last (take limit rest)) else None)"
    unfolding page_keys_def Let_def start_def [symmetric] rest ..
  then have p: "page = take limit rest"
    and n: "next_cursor = (if start + length page < length ks \<and> page \<noteq> [] then Some (CHR ''s'' # last page) else None)"
    using page by auto
  have len: "length rest = length ks - start"
    by (simp add: rest [symmetric])
  show "sorted page" "distinct page" "length page \<le> limit"
    using sr by (simp_all add: p sorted_wrt_take)
  show "set page \<subseteq> {k \<in> set ks. beyond after k}"
    unfolding set_rest [symmetric] p by (rule set_take_subset)
  show "set page = {k \<in> set ks. beyond after k}" if "next_cursor = None"
  proof -
    have "length ks - start \<le> length page \<or> page = []"
      using that n by (auto split: if_splits)
    then have "length rest \<le> limit"
      using pos len by (auto simp: p)
    then show ?thesis
      by (simp add: p set_rest)
  qed
  show "\<exists>u. c = CHR ''s'' # u \<and> u \<in> set page \<and> set page = {k \<in> set ks. beyond after k \<and> k \<le> u}"
    if "next_cursor = Some c"
  proof (intro exI conjI)
    show "c = CHR ''s'' # last page" and ne: "last page \<in> set page"
      using that n by (auto split: if_splits)
    have split: "rest = page @ drop limit rest"
      by (simp add: p)
    have pne: "page \<noteq> []"
      using ne by (cases page) (use that n in auto)
    have le: "k \<le> last page" if "k \<in> set page" for k
    proof -
      have "sorted (butlast page @ [last page])"
        using sr(1) pne p by (simp add: sorted_wrt_take)
      with that pne show ?thesis
        by (metis append_butlast_last_id in_set_butlastD list.set_intros(1) order.refl rotate1.simps(2) set_ConsD
            set_rotate1 sorted_append)
    qed
    have gt: "last page < k" if "k \<in> set (drop limit rest)" for k
    proof -
      have "last page \<le> k"
        using sr(1) that ne split by (metis sorted_append)
      moreover have "last page \<noteq> k"
        using sr(2) that ne split by (metis distinct_append disjoint_iff)
      ultimately show ?thesis
        by simp
    qed
    have "set rest = set page \<union> set (drop limit rest)"
      using split by (metis set_append)
    then have "{k \<in> set rest. k \<le> last page} = set page"
      using le gt by (fastforce simp: not_less [symmetric])
    then show "set page = {k \<in> set ks. beyond after k \<and> k \<le> last page}"
      using set_rest by auto
  qed
qed

section \<open>Reading the keys of a page\<close>

text \<open>What a read of a key can answer between two moments.\<close>

definition entry_read :: "externals \<Rightarrow> 'w view \<Rightarrow> string \<Rightarrow> 'w \<Rightarrow> u64 \<Rightarrow> string \<Rightarrow> (string \<times> Entry) option \<Rightarrow> bool" where
  "entry_read x V b w t1 key r \<longleftrightarrow>
     (\<exists>t. clock V w \<le> t \<and> t \<le> t1
        \<and> r = map_option (\<lambda>(v, e). (key, \<lparr>entry_bytes = v, expires_at = e\<rparr>)) (aged t (kv_abs x V b w) key))"

lemma entry_read_later: "entry_read x V b w t1 key r \<Longrightarrow> t1 \<le> t2 \<Longrightarrow> entry_read x V b w t2 key r"
  unfolding entry_read_def using order.trans by blast

lemma entry_read_earlier:
  assumes "entry_read x V b w1 t key r" "quiet V w w1"
  shows "entry_read x V b w t key r"
proof -
  obtain u where u: "clock V w1 \<le> u" "u \<le> t"
    "r = map_option (\<lambda>(v, e). (key, \<lparr>entry_bytes = v, expires_at = e\<rparr>)) (aged u (kv_abs x V b w1) key)"
    using assms(1) by (auto simp: entry_read_def)
  have "clock V w \<le> u"
    using u(1) assms(2) by (auto simp: quiet_def)
  then have "aged u (kv_abs x V b w1) key = aged u (kv_abs x V b w) key"
    using aged_kv_abs [OF u(1), of x b key] aged_kv_abs [of V w u x b key] assms(2) by (simp add: quietD)
  with u \<open>clock V w \<le> u\<close> show ?thesis
    unfolding entry_read_def by (intro exI [of _ u]) simp
qed

lemma collect_results_Inr: "collect_results rs = Inr os \<Longrightarrow> rs = map Inr os"
  by (induction rs arbitrary: os rule: collect_results.induct) (auto split: sum.splits)

context jetstream
begin

lemma live_read_alone:
  assumes kv: "kv_ok kv b" and run: "run S (live_read x kv key) w = (r, w')"
  shows "quiet V w w' \<and> (\<forall>en. r = Inr en \<longrightarrow> entry_read x V b w (clock V w') key en)"
proof -
  let ?Q = "\<lambda>r w'. quiet V w w' \<and> (\<forall>en. r = Inr en \<longrightarrow> entry_read x V b w (clock V w') key en)"
  have "wpr S (=) (\<lambda>_ _. True) (live_read x kv key) ?Q w"
    unfolding live_read_def wpr_await_ok
  proof (rule wpr_slot [OF kv], goal_cases)
    case (4 w1 w2 t)
    then have q: "quiet V w w2" "clock V w \<le> clock V w1" "cell V w1 = cell V w"
      by (auto simp: reach_alone quietD intro: quiet_trans)
    with 4 have t: "clock V w \<le> t" "t \<le> clock V w2"
      by auto
    have "entry_read x V b w (clock V w2) key (case slot_at x t (cell V w1 b (encode_key key)) of
        Live v e _ \<Rightarrow> Some (key, \<lparr>entry_bytes = v, expires_at = e\<rparr>) | Empty \<Rightarrow> None | Dead _ \<Rightarrow> None)"
      unfolding entry_read_def aged_kv_abs [OF t(1)]
      by (intro exI [of _ t] conjI t) (simp add: aged_kv_abs [OF t(1)] q live_entry_def split: Slot.splits)
    with q show ?case
      by simp
  qed (auto simp: reach_alone intro: evolves_refl)
  from run_of_wpr [OF this run] show ?thesis .
qed

lemma live_reads_alone:
  assumes kv: "kv_ok kv b"
  shows "run S (live_reads x kv ks) w = (rs, w') \<Longrightarrow>
    quiet V w w' \<and> list_all2 (\<lambda>key r. \<forall>en. r = Inr en \<longrightarrow> entry_read x V b w (clock V w') key en) ks rs"
proof (induction ks arbitrary: w rs)
  case (Cons key ks)
  obtain r w1 where r: "run S (live_read x kv key) w = (r, w1)"
    by fastforce
  obtain rs1 where rs1: "run S (live_reads x kv ks) w1 = (rs1, w')" and rs: "rs = r # rs1"
    using Cons.prems r by (auto split: prod.splits)
  note one = live_read_alone [OF kv r] and rest = Cons.IH [OF rs1]
  then have "list_all2 (\<lambda>key r. \<forall>en. r = Inr en \<longrightarrow> entry_read x V b w (clock V w') key en) ks rs1"
    by (auto elim!: list_all2_mono intro: entry_read_earlier)
  with one rest show ?case
    by (auto simp: rs intro: quiet_trans entry_read_later quietD(3))
qed simp

lemma live_entries_alone:
  assumes kv: "kv_ok kv b" and run: "run S (live_entries x kv ks) w = (r, w')"
  shows "quiet V w w'"
    and "r = Inr es \<Longrightarrow> \<exists>os. es = List.map_filter id os \<and> list_all2 (entry_read x V b w (clock V w')) ks os"
proof -
  obtain rs where rs: "run S (live_reads x kv ks) w = (rs, w')"
    and r: "r = (case collect_results rs of Inl e \<Rightarrow> Inl e | Inr os \<Rightarrow> Inr (List.map_filter id os))"
    using run by (auto simp: live_entries_def split: prod.splits)
  note all = live_reads_alone [OF kv rs]
  then show "quiet V w w'"
    by simp
  show "\<exists>os. es = List.map_filter id os \<and> list_all2 (entry_read x V b w (clock V w')) ks os" if es: "r = Inr es"
  proof -
    obtain os where os: "collect_results rs = Inr os" "es = List.map_filter id os"
      using r es by (auto split: sum.splits)
    have "list_all2 (entry_read x V b w (clock V w')) ks os"
      using all collect_results_Inr [OF os(1)] by (simp add: list_all2_map2)
    with os show ?thesis
      by blast
  qed
qed

end

text \<open>The entries of a page, from the reads of its keys.\<close>

lemma page_entries_of_reads:
  assumes "list_all2 (entry_read x V b w t1) ks os" "sorted ks" "distinct ks"
  defines "es \<equiv> List.map_filter id os"
  shows "sorted (map fst es)" "distinct (map fst es)" "length es \<le> length ks"
    "(key, en) \<in> set es \<Longrightarrow> key \<in> set ks \<and>
       (\<exists>t. clock V w \<le> t \<and> t \<le> t1 \<and> aged t (kv_abs x V b w) key = Some (entry_bytes en, expires_at en))"
    "key \<in> set ks \<Longrightarrow> aged t1 (kv_abs x V b w) key \<noteq> None \<Longrightarrow> key \<in> fst ` set es"
proof -
  have *: "subseq (map fst es) ks \<and>
      (\<forall>(key, en)\<in>set es. key \<in> set ks \<and>
        (\<exists>t. clock V w \<le> t \<and> t \<le> t1 \<and> aged t (kv_abs x V b w) key = Some (entry_bytes en, expires_at en)))
      \<and> (\<forall>key\<in>set ks. aged t1 (kv_abs x V b w) key \<noteq> None \<longrightarrow> key \<in> fst ` set es)"
    using assms(1) unfolding es_def
  proof (induction rule: list_all2_induct)
    case (Cons k ks r rs)
    obtain t where t: "clock V w \<le> t" "t \<le> t1"
      "r = map_option (\<lambda>(v, e). (k, \<lparr>entry_bytes = v, expires_at = e\<rparr>)) (aged t (kv_abs x V b w) k)"
      using Cons.hyps(1) by (auto simp: entry_read_def)
    show ?case
    proof (cases r)
      case None
      then have "aged t1 (kv_abs x V b w) k = None"
        using t expired_at_mono [OF t(2)] by (auto simp: aged_def split: option.splits if_splits)
      with None Cons.IH show ?thesis
        by (auto simp: map_filter_simps)
    next
      case (Some e)
      then have "fst e = k" "aged t (kv_abs x V b w) k = Some (entry_bytes (snd e), expires_at (snd e))"
        using t(3) by auto
      with Some t Cons.IH show ?thesis
        by (auto simp: map_filter_simps)
    qed
  qed (simp add: map_filter_simps)
  then obtain N where "map fst es = nths ks N"
    by (auto simp: subseq_conv_nths)
  then show "sorted (map fst es)" "distinct (map fst es)"
    using assms(2,3) by (simp_all add: sorted_nths)
  from * show "length es \<le> length ks"
    by (metis length_map list_emb_length)
  from * show "(key, en) \<in> set es \<Longrightarrow> key \<in> set ks \<and>
       (\<exists>t. clock V w \<le> t \<and> t \<le> t1 \<and> aged t (kv_abs x V b w) key = Some (entry_bytes en, expires_at en))"
    "key \<in> set ks \<Longrightarrow> aged t1 (kv_abs x V b w) key \<noteq> None \<Longrightarrow> key \<in> fst ` set es"
    by auto
qed

section \<open>A page of a listing\<close>

definition page_promise ::
  "externals \<Rightarrow> 'w view \<Rightarrow> string \<Rightarrow> 'w \<Rightarrow> 'w \<Rightarrow> string \<Rightarrow> string option \<Rightarrow> nat \<Rightarrow> KvPage \<Rightarrow> bool" where
  "page_promise x V b w w' pre after limit page \<longleftrightarrow>
     (let listed = map fst (page_entries page) in
      sorted listed \<and> distinct listed \<and> length listed \<le> limit
      \<and> (\<forall>(key, en)\<in>set (page_entries page). prefix pre key \<and> beyond after key
           \<and> (\<exists>t. clock V w \<le> t \<and> t \<le> clock V w' \<and> aged t (kv_abs x V b w) key = Some (entry_bytes en, expires_at en)))
      \<and> (\<forall>key. utf8_valid key \<and> prefix pre key \<and> beyond after key \<and> kv_abs x V b w' key \<noteq> None
           \<and> (\<forall>u. page_next page = Some (CHR ''s'' # u) \<longrightarrow> key \<le> u) \<longrightarrow> key \<in> set listed)
      \<and> (\<forall>c. page_next page = Some c \<longrightarrow> (\<exists>u. c = CHR ''s'' # u \<and> beyond after u \<and> (\<forall>key\<in>set listed. key \<le> u))))"

context subject_listing
begin

lemma indexed_keys_alone:
  assumes kv: "kv_ok kv b" and ex: "exact_index x V b w" and m: "finite (indexed_under V b w pre)" "card (indexed_under V b w pre) \<le> m"
    and run: "run S (indexed_keys kv pre m) w = (Inr r, w')"
  shows "quiet V w w' \<and> (\<exists>ks. r = Some ks \<and> sorted ks \<and> distinct ks \<and> set ks = indexed_under V b w pre)"
proof -
  note k = kv_okD [OF kv]
  obtain ss where ss: "sv_subjects S w (kv_stream b) (kv_subject b (prefix_filter pre)) = (Inr ss, w')"
    and loop: "indexed_keys_loop kv pre m [] ss = Inr r"
    using run by (auto simp: indexed_keys_def k split: prod.splits sum.splits)
  have q: "quiet V w w'"
    using subjects_law [OF k(1) ss] by simp
  from indexed_keys_loop_keys [OF kv _ loop] have r: "case r of None \<Rightarrow> m < length (subject_keys b pre ss)
     | Some ks \<Rightarrow> (\<forall>e. Inl e \<notin> set ss) \<and> ks = sort (subject_keys b pre ss)"
    by (auto split: option.splits)
  show ?thesis
  proof (cases r)
    case (Some ks)
    with r listed_keys [OF k(1) ex ss] q show ?thesis
      by auto
  next
    case None
    have d: "distinct (subject_keys b pre ss)"
      using subjects_law [OF k(1) ss]
      by (intro distinct_subject_keys) (auto dest: listed_one(1) [OF k(1) ex ss])
    have "set (subject_keys b pre ss) \<subseteq> indexed_under V b w pre"
      using listed_one(2) [OF k(1) ex ss] by (auto simp: in_subject_keys)
    then have "length (subject_keys b pre ss) \<le> card (indexed_under V b w pre)"
      using m(1) d by (metis card_mono distinct_card)
    with None r m show ?thesis
      by simp
  qed
qed

lemma subjects_page_alone:
  assumes kv: "kv_ok kv b" and ex: "exact_index x V b w"
    and ks: "sorted ks" "distinct ks" "set ks = indexed_under V b w pre" and pos: "0 < limit"
    and run: "run S (subjects_page x kv ks after limit) w1 = (Inr page, w')" and q: "quiet V w w1"
  shows "quiet V w w' \<and> page_promise x V b w w' pre after limit page"
proof -
  obtain pk nx where pk: "page_keys ks after limit = (pk, nx)"
    by fastforce
  note cut = page_keys_cut [OF ks(1,2) pk pos]
  obtain es where es: "run S (live_entries x kv pk) w1 = (Inr es, w')"
    and page: "page = \<lparr>page_entries = es, page_next = nx\<rparr>"
    using run by (auto simp: subjects_page_def pk split: prod.splits sum.splits)
  have q': "quiet V w w'"
    using live_entries_alone(1) [OF kv es] q by (rule quiet_trans [rotated])
  obtain os where os: "es = List.map_filter id os" "list_all2 (entry_read x V b w1 (clock V w')) pk os"
    using live_entries_alone(2) [OF kv es refl] by blast
  have "list_all2 (entry_read x V b w (clock V w')) pk os"
    by (rule list_all2_mono [OF os(2)]) (rule entry_read_earlier [OF _ q])
  note reads = page_entries_of_reads [OF this cut(1,2), folded os(1)]
  have live: "key \<in> indexed_under V b w pre"
    if "utf8_valid key" "prefix pre key" "kv_abs x V b w' key \<noteq> None" for key
  proof -
    have "kv_abs x V b w key \<noteq> None"
      using that(3) kv_abs_quiet [OF q', of x b] by (auto simp: aged_def split: option.splits)
    with that ex show ?thesis
      by (simp add: exact_index_def indexed_under_def)
  qed
  have complete: "key \<in> fst ` set es" if "key \<in> set pk" "kv_abs x V b w' key \<noteq> None" for key
    using reads(5) [OF that(1)] that(2) kv_abs_quiet [OF q', of x b] by simp
  have "key \<in> set pk"
    if "key \<in> indexed_under V b w pre" "beyond after key" "\<forall>u. nx = Some (CHR ''s'' # u) \<longrightarrow> key \<le> u" for key
    using cut(5) cut(6) that ks(3) by (cases nx) auto
  with live complete have all: "key \<in> fst ` set es"
    if "utf8_valid key" "prefix pre key" "beyond after key" "kv_abs x V b w' key \<noteq> None"
      "\<forall>u. nx = Some (CHR ''s'' # u) \<longrightarrow> key \<le> u" for key
    using that by blast
  have listed: "prefix pre key \<and> beyond after key \<and> key \<in> set pk" if "(key, en) \<in> set es" for key en
    using reads(4) [OF that] cut(4) ks(3) by (auto simp: indexed_under_def)
  have nxt: "\<exists>u. c = CHR ''s'' # u \<and> beyond after u \<and> (\<forall>key\<in>fst ` set es. key \<le> u)" if nx: "nx = Some c" for c
  proof -
    obtain u where u: "c = CHR ''s'' # u" "u \<in> set pk" "set pk = {k \<in> set ks. beyond after k \<and> k \<le> u}"
      using cut(6) [OF nx] by blast
    have "key \<le> u" if "(key, en) \<in> set es" for key en
      using listed [OF that] u(3) by auto
    with u show ?thesis
      by (intro exI [of _ u]) auto
  qed
  have "length es \<le> limit"
    using reads(3) cut(3) by simp
  then show ?thesis
    using q' reads(1,2,4) listed nxt all by (auto simp: page_promise_def page Let_def)
qed

end

section \<open>Properties\<close>

text \<open>
  C24. Alone on a bucket whose index is exact, a page of an index listing promises all a caller needs
  to see every key: its keys are sorted and distinct, at most as many as asked for, each under the
  prefix, past the cursor and with the value it held at some moment of the call; every key that is
  still live, under the prefix, past the cursor and not past the next cursor is among them; and a
  next cursor is past the one before and not before any key listed.
\<close>

theorem list_page_refines:
  assumes "subject_listing S V" "kv_ok kv b" "exact_index x V b w"
    and "finite (indexed_under V b w pre)"
      "card (indexed_under V b w pre) \<le> (if after = None then SUBJECT_LISTING_MAX else USIZE_MAX)"
    and "after = None \<Longrightarrow> fst (sv_load_flag S w (bucket kv))"
    and "run S (list_page x kv pre (map_option (\<lambda>a. CHR ''s'' # a) after) limit) w = (Inr page, w')"
  shows "quiet V w w' \<and> page_promise x V b w w' pre after (max limit 1) page"
proof (cases after)
  case None
  obtain w0 where w0: "sv_load_flag S w (bucket kv) = (True, w0)"
    using assms(6) None by (metis (full_types) prod.collapse)
  have q0: "quiet V w w0"
    using subject_listing.axioms(1) [OF assms(1)] w0 by (meson jetstream.load_flag_law)
  have same: "indexed_under V b w0 pre = indexed_under V b w pre"
    using q0 by (simp add: indexed_under_def quietD)
  have ex: "exact_index x V b w0"
    using assms(3) q0 kv_abs_quiet [OF q0, of x b] by (auto simp: exact_index_def quietD aged_def split: option.splits)
  obtain r w1 where r: "run S (indexed_keys kv pre SUBJECT_LISTING_MAX) w0 = (Inr r, w1)"
    using assms(7) w0 None by (auto simp: list_page_def index_ready_def Let_def split: prod.splits sum.splits)
  have m: "finite (indexed_under V b w0 pre)" "card (indexed_under V b w0 pre) \<le> SUBJECT_LISTING_MAX"
    using assms(4,5) None by (simp_all add: same)
  from subject_listing.indexed_keys_alone [OF assms(1,2) ex m r] obtain ks where q1: "quiet V w0 w1"
    and ks: "r = Some ks" "sorted ks" "distinct ks" "set ks = indexed_under V b w pre"
    by (auto simp: same)
  have "run S (subjects_page x kv ks after (max limit 1)) w1 = (Inr page, w')"
    using assms(7) w0 r ks(1) None by (simp add: list_page_def index_ready_def Let_def)
  with subject_listing.subjects_page_alone [OF assms(1-3) ks(2-4) _ this quiet_trans [OF q0 q1]] show ?thesis
    by simp
next
  case (Some a)
  obtain r w1 where r: "run S (indexed_keys kv pre USIZE_MAX) w = (Inr r, w1)"
    using assms(7) Some by (auto simp: list_page_def Let_def strip_prefix_def split: prod.splits sum.splits)
  have m: "card (indexed_under V b w pre) \<le> USIZE_MAX"
    using assms(5) Some by simp
  from subject_listing.indexed_keys_alone [OF assms(1-4) m r] obtain ks where q1: "quiet V w w1"
    and ks: "r = Some ks" "sorted ks" "distinct ks" "set ks = indexed_under V b w pre"
    by auto
  have "run S (subjects_page x kv ks after (max limit 1)) w1 = (Inr page, w')"
    using assms(7) r ks(1) Some by (simp add: list_page_def Let_def strip_prefix_def)
  with subject_listing.subjects_page_alone [OF assms(1-3) ks(2-4) _ this q1] show ?thesis
    by simp
qed

lemma bucket_msgs_cell: "k \<in> fst ` set (bucket_msgs w b) \<longleftrightarrow> rw_cell w b k \<noteq> None"
proof -
  have "rw_cell w b k \<noteq> None \<longleftrightarrow> (b, k) \<in> fst ` set (rw_visible w)"
    by (simp add: rw_cell_def map_of_eq_None_iff)
  then show ?thesis
    by (force simp: bucket_msgs_def)
qed

interpretation ref_listing: subject_listing ref_server ref_view
proof (unfold_locales, goal_cases)
  case (1 b w f rs w')
  have run: "ref_subjects w (kv_stream b) (kv_subject b f) = (rs, w')"
    using 1 by (simp add: ref_server_def)
  have q: "quiet ref_view w w'"
    using ref_scan_quiet run by blast
  have subs: "sj \<in> set (map (\<lambda>(k, m). kv_subject b k) (bucket_msgs w b)) \<longleftrightarrow> (\<exists>k. sj = kv_subject b k \<and> rw_cell w b k \<noteq> None)"
    for sj
    unfolding bucket_msgs_cell [symmetric] by force
  show ?case
  proof (cases rs)
    case (Inr ss)
    then have "ss = map Inr (remdups (filter (subject_matches (kv_subject b f))
        (map (\<lambda>(k, m). kv_subject b k) (bucket_msgs w b))))"
      using run by (auto simp: ref_subjects_def split: prod.splits option.splits if_splits)
    with Inr q subs show ?thesis
      by (auto simp: distinct_map ref_view_def)
  qed (use q in simp)
qed

lemma rw_cell_flags [simp]: "rw_cell (w\<lparr>rw_flags := fs\<rparr>) = rw_cell w"
  by (simp add: fun_eq_iff rw_cell_def rw_visible_def rw_top_def)

definition listed_world :: ref_world where
  "listed_world = wit_world\<lparr>rw_flags := [(''state'', True)]\<rparr>"

lemma listed_cells: "rw_cell listed_world ''state'' k =
    (if k = ''=I.a'' \<or> k = ''a'' then rw_cell wit_world ''state'' k else None)"
  "rw_cell listed_world ''state'' ''=I.a'' \<noteq> None"
proof -
  have keys: "encode_key ''a'' = ''a''" "index_key ''a'' = ''=I.a''"
    by code_simp+
  show "rw_cell listed_world ''state'' k = (if k = ''=I.a'' \<or> k = ''a'' then rw_cell wit_world ''state'' k else None)"
    "rw_cell listed_world ''state'' ''=I.a'' \<noteq> None"
    by (simp_all add: listed_world_def rw_cell_flags wit_world_eq ref_eval keys)
qed

lemma listed_msgs: "map fst (bucket_msgs listed_world ''state'') = [''a'', ''=I.a'']"
proof -
  have keys: "encode_key ''a'' = ''a''" "index_key ''a'' = ''=I.a''"
    by code_simp+
  have "rw_visible listed_world = rw_visible wit_world"
    by (simp add: listed_world_def rw_visible_def rw_top_def)
  also have "\<dots> = [((''state'', ''=I.a''), \<lparr>raw_seq = 2, raw_headers = publish_headers None Nothing, raw_payload = []\<rparr>),
      ((''state'', ''a''), \<lparr>raw_seq = 1, raw_headers = publish_headers None Anything, raw_payload = ''v''\<rparr>)]"
    by (simp add: wit_world_eq rw_visible_store ref_eval keys) (simp add: ref_start_def rw_visible_def store_msg_def rw_top_def)
  moreover have "\<not> (2 :: u64) \<le> 1"
    by (simp add: word_le_nat_alt)
  ultimately show ?thesis
    by (simp add: bucket_msgs_def rw_cell_def)
qed

lemma listed_run: "fst (run ref_server (list_page ref_ext ref_kv '''' None 5) listed_world) =
    Inr \<lparr>page_entries = [(''a'', \<lparr>entry_bytes = ''v'', expires_at = None\<rparr>)], page_next = None\<rparr>"
proof -
  have faults: "rw_faults listed_world = []"
    by (simp add: listed_world_def wit_world_eq ref_eval)
  have subs: "map (\<lambda>(k, m). kv_subject ''state'' k) (bucket_msgs listed_world ''state'') =
      [kv_subject ''state'' ''a'', kv_subject ''state'' ''=I.a'']"
    using arg_cong [OF listed_msgs, of "map (kv_subject ''state'')"] by (simp add: comp_def case_prod_unfold)
  have filt: "subject_matches (kv_subject ''state'' (prefix_filter '''')) (kv_subject ''state'' ''=I.a'')"
    "\<not> subject_matches (kv_subject ''state'' (prefix_filter '''')) (kv_subject ''state'' ''a'')"
    by code_simp+
  have key: "data_key ''=I.a'' = Some ''a''"
    by code_simp
  have "sv_subjects ref_server listed_world (kv_stream ''state'') (kv_subject ''state'' (prefix_filter '''')) =
      (Inr [Inr (kv_subject ''state'' ''=I.a'')], listed_world)"
    by (simp add: ref_server_def ref_subjects_def pop_fault_none faults subs filt)
  moreover have "sv_load_flag ref_server listed_world ''state'' = (True, listed_world)"
    by (simp add: ref_server_def listed_world_def)
  moreover have "run ref_server (live_read ref_ext ref_kv ''a'') listed_world =
      (Inr (Some (''a'', \<lparr>entry_bytes = ''v'', expires_at = None\<rparr>)), listed_world)"
  proof -
    have enc: "encode_key ''a'' = ''a''" "index_key ''a'' = ''=I.a''"
      by code_simp+
    have "rw_cell listed_world ''state'' ''a'' =
        Some \<lparr>raw_seq = 1, raw_headers = publish_headers None Anything, raw_payload = ''v''\<rparr>"
      using enc by (simp add: listed_world_def wit_world_eq ref_eval)
    then show ?thesis
      using enc by (simp add: live_read_def ref_kv_programs ref_eval faults decode_value_def)
  qed
  ultimately show ?thesis
    by (simp add: list_page_def index_ready_def indexed_keys_def ref_eval key SUBJECT_LISTING_MAX_def
        subjects_page_def page_keys_def live_entries_def map_filter_simps)
qed

lemma listed_exact: "exact_index ref_ext ref_view ''state'' listed_world"
proof -
  have keys: "data_key ''a'' = None" "data_key ''=I.a'' = Some ''a''" "index_key ''a'' = ''=I.a''" "utf8_valid ''a''"
    "encode_key ''a'' = ''a''"
    by code_simp+
  have alone: "encode_key key \<noteq> ''=I.a''" "encode_key key = ''a'' \<longleftrightarrow> key = ''a''" for key
    using index_key_neq_encode_key(2) [of key "''a''"] encode_key_inj [of key "''a''"] keys by simp_all
  have at: "cell ref_view listed_world ''state'' k \<noteq> None \<Longrightarrow> k = ''=I.a'' \<or> k = ''a''" for k
    by (auto simp: ref_view_def listed_cells(1) split: if_splits)
  have only: "key = ''a''" if "kv_abs ref_ext ref_view ''state'' listed_world key \<noteq> None" for key
    using that at [of "encode_key key"] by (cases "cell ref_view listed_world ''state'' (encode_key key)")
      (auto simp: kv_abs_def slot_at_def alone)
  have index: "cell ref_view listed_world ''state'' ''=I.a'' \<noteq> None"
    using listed_cells(2) by (simp add: ref_view_def)
  show ?thesis
    unfolding exact_index_def
  proof (intro conjI allI impI)
    fix k key
    assume "cell ref_view listed_world ''state'' k \<noteq> None \<and> data_key k = Some key"
    with at [of k] show "k = index_key key" "utf8_valid key"
      by (auto simp: keys)
  next
    fix key
    assume "utf8_valid key \<and> kv_abs ref_ext ref_view ''state'' listed_world key \<noteq> None"
    with only [of key] index show "cell ref_view listed_world ''state'' (index_key key) \<noteq> None"
      by (auto simp: keys)
  qed
qed

lemma listed_under: "indexed_under ref_view ''state'' listed_world '''' \<subseteq> {''a''}"
proof -
  have keys: "index_key ''a'' = ''=I.a''" "encode_key ''a'' = ''a''"
    by code_simp+
  have "key = ''a''" if "utf8_valid key" "cell ref_view listed_world ''state'' (index_key key) \<noteq> None" for key
    using that index_key_inj [of key "''a''"] keys index_key_neq_encode_key(1) [of key "''a''"]
    by (auto simp: ref_view_def listed_cells(1) split: if_splits)
  then show ?thesis
    by (auto simp: indexed_under_def)
qed

theorem list_page_refines_witness:
  "\<exists>w' page. page_promise ref_ext ref_view ''state'' listed_world w' '''' None 5 page
     \<and> map fst (page_entries page) = [''a'']"
proof -
  obtain page w' where run: "run ref_server (list_page ref_ext ref_kv '''' (map_option (\<lambda>a. CHR ''s'' # a) None) 5)
      listed_world = (Inr page, w')" and page: "map fst (page_entries page) = [''a'']"
    using listed_run by (cases "run ref_server (list_page ref_ext ref_kv '''' None 5) listed_world") simp
  have fin: "finite (indexed_under ref_view ''state'' listed_world '''')"
    by (rule finite_subset [OF listed_under]) simp
  have card: "card (indexed_under ref_view ''state'' listed_world '''')
      \<le> (if (None :: string option) = None then SUBJECT_LISTING_MAX else USIZE_MAX)"
    using card_mono [OF _ listed_under] by (simp add: SUBJECT_LISTING_MAX_def)
  have flag: "fst (sv_load_flag ref_server listed_world (bucket ref_kv))"
    by (simp add: ref_server_def listed_world_def ref_eval)
  have "max 5 1 = (5 :: nat)"
    by simp
  with list_page_refines [OF ref_listing.subject_listing_axioms ref_kv_ok listed_exact fin card flag run] page
  show ?thesis
    by metis
qed

end
