(* ===== verification/Discrepancies.thy ===== *)
theory Discrepancies
  imports Coordinator_Theorems
begin

text \<open>
  Where the code and what is written about it part: each lemma is a small input on which they do.
  What the comments and the neighbouring code say is in the text before it.
\<close>

text \<open>
  \<^verbatim>\<open>is_valid_key\<close> states what a key of a JetStream bucket is; \<^verbatim>\<open>validate_lease_key\<close> admits
  names that give no such key, so that the acquisition fails at the server instead.
\<close>

lemma lease_name_not_a_key:
  "validate_lease_key ''key'' ''a:b'' = Inr () \<and> \<not> is_valid_key (LOCK_PREFIX @ ''.'' @ ''a:b'')"
  by code_simp

text \<open>
  \<^verbatim>\<open>key_value_store_named\<close> gives each name a bucket of its own; the names of the buckets are
  not distinct, and one of them can be that of the leases.
\<close>

lemma named_buckets_collide: "named_bucket_name b ''a.b'' = named_bucket_name b ''a_b''"
  unfolding named_bucket_name_def by code_simp

lemma named_bucket_is_leases_bucket: "named_bucket_name ''mcpg'' ''leases'' = ''mcpg-leases''"
  by code_simp

text \<open>The two readings of a record's operation disagree on markers with another reason.\<close>

lemma operations_disagree:
  "leader_record_operation parse_op [(''Nats-Marker-Reason'', ''Other'')] = Put"
  "record_operation (Some [(''Nats-Marker-Reason'', ''Other'')]) = Purge"
  by (simp_all add: leader_record_operation_def record_operation_def KV_OPERATION_HEADER_def
      NATS_MARKER_REASON_def hdr_get_def)

text \<open>
  An index key is decoded with \<^verbatim>\<open>u8::from_str_radix\<close>, which takes a sign for a digit; no key is
  encoded so.
\<close>

lemma data_key_takes_a_sign: "data_key ''=I.=+5'' = Some [char_of (5 :: nat)]"
  by code_simp

text \<open>
  The expiry of a lease counts whole seconds: a lease of less than one has lapsed in the second in
  which it is taken.
\<close>

lemma short_lease_born_expired:
  "fst (run ref_server (await (expiry_for (duration_from_millis 999)) (\<lambda>(expires_at, expires_at_unix).
      lease_is_expired (rec\<lparr>lr_expires_at := expires_at, lr_expires_at_unix := expires_at_unix\<rparr>))) (ref_start 100))"
  by (simp add: expiry_for_def lease_is_expired_def rfc3339_after_def now_unix_secs_def since_epoch_def
      ref_eval duration_from_millis_def sat_add_u64_def)

end
