(* ===== verification/Spec2Isabelle.thy ===== *)
theory Spec2Isabelle
  imports Kv_Theorems Kv_Scan Clock Lease_Theorems Peer_Cache Config Pub_Sub Peer_Tasks Sweep_Theorems Coordinator_Theorems Kv_Listing Discrepancies
begin

text \<open>
  A verification of the NATS cluster plugin.
\<close>

end
